(* ===== verification/Prelude.thy ===== *)
theory Prelude
  imports Main "HOL-Library.Word"
begin

text \<open>
  Shared ground of the development: the machine integers of the program, little-endian
  byte strings, and the state-and-error monad in which every stateful operation is written, with the
  frames its programs keep (\<open>step_order\<close>) and what they can yield (\<open>yields\<close>).
\<close>

section \<open>Machine integers and bytes\<close>

type_synonym u8 = "8 word"
type_synonym u16 = "16 word"
type_synonym u32 = "32 word"
type_synonym u64 = "64 word"
type_synonym bytes = "8 word list"

text \<open>
  \<open>usize\<close> is 64 bits wide on the target; a length of a buffer is a \<open>nat\<close>.
\<close>

definition usize_max :: nat where
  "usize_max = 2 ^ 64 - 1"

definition u32_max :: nat where
  "u32_max = 2 ^ 32 - 1"

definition u64_max :: nat where
  "u64_max = 2 ^ 64 - 1"

subsection \<open>Little-endian encoding\<close>

primrec le_value :: "bytes \<Rightarrow> nat" where
  "le_value [] = 0"
| "le_value (b # bs) = unat b + 256 * le_value bs"

primrec le_bytes :: "nat \<Rightarrow> nat \<Rightarrow> bytes" where
  "le_bytes 0 n = []"
| "le_bytes (Suc k) n = word_of_nat n # le_bytes k (n div 256)"

definition u16_to_le_bytes :: "u16 \<Rightarrow> bytes" where
  "u16_to_le_bytes x = le_bytes 2 (unat x)"

definition u32_to_le_bytes :: "u32 \<Rightarrow> bytes" where
  "u32_to_le_bytes x = le_bytes 4 (unat x)"

definition u64_to_le_bytes :: "u64 \<Rightarrow> bytes" where
  "u64_to_le_bytes x = le_bytes 8 (unat x)"

definition u16_from_le_bytes :: "bytes \<Rightarrow> u16" where
  "u16_from_le_bytes bs = word_of_nat (le_value bs)"

definition u32_from_le_bytes :: "bytes \<Rightarrow> u32" where
  "u32_from_le_bytes bs = word_of_nat (le_value bs)"

definition u64_from_le_bytes :: "bytes \<Rightarrow> u64" where
  "u64_from_le_bytes bs = word_of_nat (le_value bs)"

lemma unat_u8_bound [simp]: "unat (b :: u8) < 256"
  using unsigned_less [of b, where ?'a = nat] by simp

lemma unat_u16_bound [simp]: "unat (x :: u16) < 65536"
  using unsigned_less [of x, where ?'a = nat] by simp

lemma unat_u32_bound [simp]: "unat (x :: u32) < 4294967296"
  using unsigned_less [of x, where ?'a = nat] by simp

lemma unat_u64_bound [simp]: "unat (x :: u64) < 18446744073709551616"
  using unsigned_less [of x, where ?'a = nat] by simp

lemma length_le_bytes [simp]: "length (le_bytes k n) = k"
  by (induction k arbitrary: n) auto

lemma unat_byte_of_nat: "unat (word_of_nat n :: 8 word) = n mod 256"
  by (simp add: unat_of_nat)

lemma le_value_le_bytes: "n < 256 ^ k \<Longrightarrow> le_value (le_bytes k n) = n"
proof (induction k arbitrary: n)
  case 0
  then show ?case by simp
next
  case (Suc k)
  then have "n div 256 < 256 ^ k"
    by (simp add: less_mult_imp_div_less mult.commute)
  with Suc.IH show ?case
    by (simp add: unat_byte_of_nat)
qed

lemma le_value_bound: "le_value bs < 256 ^ length bs"
proof (induction bs)
  case Nil
  then show ?case by simp
next
  case (Cons b bs)
  have "unat b + 256 * le_value bs < 256 * Suc (le_value bs)"
    by simp
  also have "\<dots> \<le> 256 * 256 ^ length bs"
    using Cons by (simp add: Suc_le_eq del: mult_Suc_right)
  finally show ?case by simp
qed

lemma le_bytes_le_value: "length bs = k \<Longrightarrow> le_bytes k (le_value bs) = bs"
proof (induction bs arbitrary: k)
  case Nil
  then show ?case by simp
next
  case (Cons b bs)
  have b: "unat b < 256" by simp
  have "(word_of_nat (unat b + 256 * le_value bs) :: 8 word) = b"
    by (simp add: word_unat_eq_iff unat_byte_of_nat b del: of_nat_add of_nat_mult)
  with Cons b show ?case by auto
qed

lemma u16_le_roundtrip [simp]: "u16_from_le_bytes (u16_to_le_bytes x) = x"
  by (simp add: u16_from_le_bytes_def u16_to_le_bytes_def le_value_le_bytes)

lemma u32_le_roundtrip [simp]: "u32_from_le_bytes (u32_to_le_bytes x) = x"
  by (simp add: u32_from_le_bytes_def u32_to_le_bytes_def le_value_le_bytes)

lemma u64_le_roundtrip [simp]: "u64_from_le_bytes (u64_to_le_bytes x) = x"
  by (simp add: u64_from_le_bytes_def u64_to_le_bytes_def le_value_le_bytes)

lemma length_to_le_bytes [simp]:
  "length (u16_to_le_bytes a) = 2"
  "length (u32_to_le_bytes b) = 4"
  "length (u64_to_le_bytes c) = 8"
  by (simp_all add: u16_to_le_bytes_def u32_to_le_bytes_def u64_to_le_bytes_def)


section \<open>State, errors and early return\<close>

text \<open>
  An operation of type \<open>('s, 'e, 'a) sm\<close> takes the state, and gives the state after it with
  either an error or a value. The state after a failure is kept: Rust's \<open>?\<close> returns early and
  leaves the effects of the steps before it in place. \<open>and_then\<close> is that early return.
\<close>

type_synonym ('s, 'e, 'a) sm = "'s \<Rightarrow> ('e + 'a) \<times> 's"

definition ok :: "'a \<Rightarrow> ('s, 'e, 'a) sm" where
  "ok a = (\<lambda>s. (Inr a, s))"

definition err :: "'e \<Rightarrow> ('s, 'e, 'a) sm" where
  "err e = (\<lambda>s. (Inl e, s))"

definition and_then :: "('s, 'e, 'a) sm \<Rightarrow> ('a \<Rightarrow> ('s, 'e, 'b) sm) \<Rightarrow> ('s, 'e, 'b) sm" where
  "and_then m f = (\<lambda>s. case m s of (Inl e, s') \<Rightarrow> (Inl e, s') | (Inr a, s') \<Rightarrow> f a s')"

definition from_result :: "'e + 'a \<Rightarrow> ('s, 'e, 'a) sm" where
  "from_result r = (\<lambda>s. (r, s))"

definition map_err :: "('e \<Rightarrow> 'f) \<Rightarrow> ('s, 'e, 'a) sm \<Rightarrow> ('s, 'f, 'a) sm" where
  "map_err g m = (\<lambda>s. case m s of (Inl e, s') \<Rightarrow> (Inl (g e), s') | (Inr a, s') \<Rightarrow> (Inr a, s'))"

definition unwrap_or :: "'a \<Rightarrow> ('s, 'e, 'a) sm \<Rightarrow> ('s, 'e, 'a) sm" where
  "unwrap_or d m = (\<lambda>s. case m s of (Inl e, s') \<Rightarrow> (Inr d, s') | (Inr a, s') \<Rightarrow> (Inr a, s'))"

definition gets :: "('s \<Rightarrow> 'a) \<Rightarrow> ('s, 'e, 'a) sm" where
  "gets f = (\<lambda>s. (Inr (f s), s))"

definition modify :: "('s \<Rightarrow> 's) \<Rightarrow> ('s, 'e, unit) sm" where
  "modify f = (\<lambda>s. (Inr (), f s))"

definition value_of :: "('e + 'a) \<times> 's \<Rightarrow> 'e + 'a" where
  "value_of = fst"

text \<open>An operation on one half of a pair of states.\<close>

definition on_fst :: "('s, 'e, 'a) sm \<Rightarrow> ('s \<times> 'w, 'e, 'a) sm" where
  "on_fst m = (\<lambda>(s, w). case m s of (r, s') \<Rightarrow> (r, (s', w)))"

definition on_snd :: "('w, 'e, 'a) sm \<Rightarrow> ('s \<times> 'w, 'e, 'a) sm" where
  "on_snd m = (\<lambda>(s, w). case m w of (r, w') \<Rightarrow> (r, (s, w')))"

named_theorems sm_simps \<open>evaluation of monadic operations\<close>

lemma ok_apply [simp, sm_simps]: "ok a s = (Inr a, s)"
  by (simp add: ok_def)

lemma err_apply [simp, sm_simps]: "err e s = (Inl e, s)"
  by (simp add: err_def)

lemma from_result_apply [simp, sm_simps]: "from_result r s = (r, s)"
  by (simp add: from_result_def)

lemma gets_apply [simp, sm_simps]: "gets f s = (Inr (f s), s)"
  by (simp add: gets_def)

lemma modify_apply [simp, sm_simps]: "modify f s = (Inr (), f s)"
  by (simp add: modify_def)

lemma on_fst_apply [simp, sm_simps]: "on_fst m (s, w) = (case m s of (r, s') \<Rightarrow> (r, (s', w)))"
  by (simp add: on_fst_def)

lemma on_snd_apply [simp, sm_simps]: "on_snd m (s, w) = (case m w of (r, w') \<Rightarrow> (r, (s, w')))"
  by (simp add: on_snd_def)

lemma and_then_Inr [simp, sm_simps]: "m s = (Inr a, s') \<Longrightarrow> and_then m f s = f a s'"
  by (simp add: and_then_def)

lemma and_then_Inl [simp, sm_simps]: "m s = (Inl e, s') \<Longrightarrow> and_then m f s = (Inl e, s')"
  by (simp add: and_then_def)

lemma and_then_ok [simp]: "and_then (ok a) f = f a"
  by (simp add: and_then_def fun_eq_iff)

lemma and_then_err [simp]: "and_then (err e) f = err e"
  by (simp add: and_then_def fun_eq_iff)

lemma and_then_Inr_iff:
  "and_then m f s = (Inr b, t) \<longleftrightarrow> (\<exists>a s'. m s = (Inr a, s') \<and> f a s' = (Inr b, t))"
  by (auto simp: and_then_def split: prod.splits sum.splits)

lemma and_then_Inl_iff:
  "and_then m f s = (Inl e, t) \<longleftrightarrow>
     m s = (Inl e, t) \<or> (\<exists>a s'. m s = (Inr a, s') \<and> f a s' = (Inl e, t))"
  by (auto simp: and_then_def split: prod.splits sum.splits)

lemma map_err_Inr_iff [simp]: "map_err g m s = (Inr b, t) \<longleftrightarrow> m s = (Inr b, t)"
  by (auto simp: map_err_def split: prod.splits sum.splits)

lemma map_err_Inl_iff: "map_err g m s = (Inl e, t) \<longleftrightarrow> (\<exists>e'. m s = (Inl e', t) \<and> e = g e')"
  by (auto simp: map_err_def split: prod.splits sum.splits)

lemma unwrap_or_Inr_iff:
  "unwrap_or d m s = (Inr b, t) \<longleftrightarrow>
     m s = (Inr b, t) \<or> ((\<exists>e. m s = (Inl e, t)) \<and> b = d)"
  by (auto simp: unwrap_or_def split: prod.splits sum.splits)

lemma unwrap_or_never_Inl [simp]: "unwrap_or d m s \<noteq> (Inl e, t)"
  by (auto simp: unwrap_or_def split: prod.splits sum.splits)

lemma snd_and_then:
  "snd (and_then m f s) = (case m s of (Inl e, s') \<Rightarrow> s' | (Inr a, s') \<Rightarrow> snd (f a s'))"
  by (auto simp: and_then_def split: prod.splits sum.splits)

subsection \<open>What every step of an operation keeps\<close>

text \<open>
  \<open>keeps R m\<close>: whatever \<open>m\<close> answers, the state after it stands in the relation \<open>R\<close> to the
  state before. An invariant \<open>P\<close> is the relation \<open>P s \<longrightarrow> P t\<close>, a frame condition an equation
  between fields. For a reflexive and transitive \<open>R\<close>, an operation keeps \<open>R\<close> as soon as its
  steps do; each component instantiates the locale at its own relation.
\<close>

definition keeps :: "('s \<Rightarrow> 's \<Rightarrow> bool) \<Rightarrow> ('s, 'e, 'a) sm \<Rightarrow> bool" where
  "keeps R m \<longleftrightarrow> (\<forall>s. R s (snd (m s)))"

lemma keepsI: "(\<And>s r t. m s = (r, t) \<Longrightarrow> R s t) \<Longrightarrow> keeps R m"
  by (simp add: keeps_def) (metis prod.collapse)

lemma keepsD: "keeps R m \<Longrightarrow> m s = (r, t) \<Longrightarrow> R s t"
  by (metis keeps_def snd_conv)

locale step_order =
  fixes R :: "'s \<Rightarrow> 's \<Rightarrow> bool"
  assumes step_refl: "R s s"
    and step_trans: "R s t \<Longrightarrow> R t u \<Longrightarrow> R s u"
begin

lemma keeps_ok: "keeps R (ok a)"
  by (simp add: keeps_def step_refl)

lemma keeps_err: "keeps R (err e)"
  by (simp add: keeps_def step_refl)

lemma keeps_from_result: "keeps R (from_result r)"
  by (simp add: keeps_def step_refl)

lemma keeps_gets: "keeps R (gets f)"
  by (simp add: keeps_def step_refl)

lemma keeps_and_then:
  assumes "keeps R m" and "\<And>a. keeps R (f a)"
  shows "keeps R (and_then m f)"
proof (rule keepsI)
  fix s r t
  assume run: "and_then m f s = (r, t)"
  show "R s t"
  proof (cases "m s")
    case (Pair q s')
    have first: "R s s'" using assms(1) Pair by (rule keepsD)
    show ?thesis
    proof (cases q)
      case (Inl e)
      with run Pair first show ?thesis by simp
    next
      case (Inr a)
      with run Pair have "f a s' = (r, t)" by simp
      with assms(2) have "R s' t" by (rule keepsD)
      with first show ?thesis by (rule step_trans)
    qed
  qed
qed

lemma keeps_map_err: "keeps R m \<Longrightarrow> keeps R (map_err g m)"
  by (rule keepsI) (auto simp: map_err_def dest: keepsD split: prod.splits sum.splits)

lemma keeps_unwrap_or: "keeps R m \<Longrightarrow> keeps R (unwrap_or d m)"
  by (rule keepsI) (auto simp: unwrap_or_def dest: keepsD split: prod.splits sum.splits)

lemma keeps_if: "keeps R m \<Longrightarrow> keeps R n \<Longrightarrow> keeps R (if b then m else n)"
  by simp

lemmas keeps_intros =
  keeps_ok keeps_err keeps_from_result keeps_gets keeps_and_then
  keeps_map_err keeps_unwrap_or keeps_if

end

subsection \<open>What an operation can answer\<close>

text \<open>
  \<open>yields m Q E\<close>: in every state, a value \<open>m\<close> gives satisfies \<open>Q\<close> and a fault satisfies \<open>E\<close>.
\<close>

definition yields :: "('s, 'e, 'a) sm \<Rightarrow> ('a \<Rightarrow> bool) \<Rightarrow> ('e \<Rightarrow> bool) \<Rightarrow> bool" where
  "yields m Q E \<longleftrightarrow> (\<forall>s. case fst (m s) of Inl e \<Rightarrow> E e | Inr a \<Rightarrow> Q a)"

lemma yieldsI:
  assumes "\<And>s e t. m s = (Inl e, t) \<Longrightarrow> E e" and "\<And>s a t. m s = (Inr a, t) \<Longrightarrow> Q a"
  shows "yields m Q E"
  unfolding yields_def
proof
  fix s
  show "case fst (m s) of Inl e \<Rightarrow> E e | Inr a \<Rightarrow> Q a"
    using assms [of s] by (cases "m s") (auto split: sum.split)
qed

lemma yieldsD:
  assumes "yields m Q E"
  shows "m s = (Inl e, t) \<Longrightarrow> E e" and "m s = (Inr a, t) \<Longrightarrow> Q a"
  using assms [unfolded yields_def, rule_format, of s] by auto

lemma yields_ok: "Q a \<Longrightarrow> yields (ok a) Q E"
  by (simp add: yields_def)

lemma yields_err: "E e \<Longrightarrow> yields (err e) Q E"
  by (simp add: yields_def)

lemma yields_from_result:
  "(\<And>e. r = Inl e \<Longrightarrow> E e) \<Longrightarrow> (\<And>a. r = Inr a \<Longrightarrow> Q a) \<Longrightarrow> yields (from_result r) Q E"
  by (cases r) (simp_all add: yields_def)

lemma yields_and_then:
  assumes "yields m R E" and "\<And>a. R a \<Longrightarrow> yields (f a) Q E"
  shows "yields (and_then m f) Q E"
  by (rule yieldsI) (auto simp: and_then_Inl_iff and_then_Inr_iff
      dest: yieldsD [OF assms(1)] yieldsD [OF assms(2)])

lemma yields_map_err:
  assumes "yields m Q (\<lambda>e. E (g e))"
  shows "yields (map_err g m) Q E"
  by (rule yieldsI) (auto simp: map_err_Inl_iff dest: yieldsD [OF assms])

lemma yields_on_fst:
  assumes "yields m Q E"
  shows "yields (on_fst m) Q E"
  by (rule yieldsI) (auto simp: on_fst_def dest: yieldsD [OF assms] split: prod.splits)

lemma yields_on_snd:
  assumes "yields m Q E"
  shows "yields (on_snd m) Q E"
  by (rule yieldsI) (auto simp: on_snd_def dest: yieldsD [OF assms] split: prod.splits)

lemma yields_weaken:
  assumes "yields m Q E" and "\<And>a. Q a \<Longrightarrow> Q' a" and "\<And>e. E e \<Longrightarrow> E' e"
  shows "yields m Q' E'"
  by (rule yieldsI) (auto intro: assms(2,3) dest: yieldsD [OF assms(1)])

end
