(* ===== verification/Rust_Text.thy ===== *)
theory Rust_Text
  imports Prelude
begin

text \<open>
  Text as the program sees it. A Rust \<open>String\<close> is a sequence of Unicode scalar values; here it
  is the list of their code points (\<open>ustring\<close>), and \<open>valid_ustring\<close> says that each is a scalar
  value. The theory holds the library operations on text that the sources call: UTF-16 coding,
  trimming, splitting and reading numbers. Their definitions follow the documentation of the
  Rust standard library.
\<close>

section \<open>Text and UTF-16\<close>

type_synonym ustring = "nat list"

definition lit :: "string \<Rightarrow> ustring" where
  "lit s = map of_char s"

definition is_scalar :: "nat \<Rightarrow> bool" where
  "is_scalar c \<longleftrightarrow> c < 0xD800 \<or> 0xE000 \<le> c \<and> c < 0x110000"

definition valid_ustring :: "ustring \<Rightarrow> bool" where
  "valid_ustring s \<longleftrightarrow> (\<forall>c \<in> set s. is_scalar c)"

definition is_leading :: "u16 \<Rightarrow> bool" where
  "is_leading u \<longleftrightarrow> 0xD800 \<le> unat u \<and> unat u < 0xDC00"

definition is_trailing :: "u16 \<Rightarrow> bool" where
  "is_trailing u \<longleftrightarrow> 0xDC00 \<le> unat u \<and> unat u < 0xE000"

definition utf16_units :: "nat \<Rightarrow> u16 list" where
  "utf16_units c =
     (if c < 0x10000 then [word_of_nat c]
      else [word_of_nat (0xD800 + (c - 0x10000) div 0x400),
            word_of_nat (0xDC00 + (c - 0x10000) mod 0x400)])"

definition encode_utf16 :: "ustring \<Rightarrow> u16 list" where
  "encode_utf16 s = concat (map utf16_units s)"

text \<open>\<open>String::from_utf16\<close>: a lone surrogate is a fault.\<close>

fun from_utf16 :: "u16 list \<Rightarrow> ustring option" where
  "from_utf16 [] = Some []"
| "from_utf16 [u] = (if is_leading u \<or> is_trailing u then None else Some [unat u])"
| "from_utf16 (u # v # us) =
     (if is_trailing u then None
      else if is_leading u then
        (if is_trailing v
         then map_option ((#) (0x10000 + (unat u - 0xD800) * 0x400 + (unat v - 0xDC00)))
                (from_utf16 us)
         else None)
      else map_option ((#) (unat u)) (from_utf16 (v # us)))"

text \<open>The longest prefix of a text whose UTF-16 form holds at most \<open>n\<close> code units.\<close>

fun fit_utf16 :: "nat \<Rightarrow> ustring \<Rightarrow> ustring" where
  "fit_utf16 n [] = []"
| "fit_utf16 n (c # cs) =
     (if length (utf16_units c) \<le> n then c # fit_utf16 (n - length (utf16_units c)) cs else [])"

lemma encode_utf16_simps [simp]:
  "encode_utf16 [] = []"
  "encode_utf16 (c # cs) = utf16_units c @ encode_utf16 cs"
  by (simp_all add: encode_utf16_def)

lemma valid_ustring_simps [simp]:
  "valid_ustring []"
  "valid_ustring (c # cs) \<longleftrightarrow> is_scalar c \<and> valid_ustring cs"
  by (auto simp: valid_ustring_def)

lemma unat_u16_of_nat: "c < 65536 \<Longrightarrow> unat (word_of_nat c :: u16) = c"
  by (simp add: unat_of_nat)

lemma utf16_units_bmp:
  assumes "is_scalar c" and "c < 0x10000"
  obtains u where "utf16_units c = [u]" "unat u = c" "\<not> is_leading u" "\<not> is_trailing u"
proof
  show "utf16_units c = [word_of_nat c]" using assms(2) by (simp add: utf16_units_def)
  show "unat (word_of_nat c :: u16) = c" using assms(2) by (simp add: unat_u16_of_nat)
  then show "\<not> is_leading (word_of_nat c)" "\<not> is_trailing (word_of_nat c)"
    using assms(1) by (auto simp: is_leading_def is_trailing_def is_scalar_def)
qed

lemma utf16_units_astral:
  assumes "is_scalar c" and "\<not> c < 0x10000"
  obtains u v where "utf16_units c = [u, v]" "is_leading u" "is_trailing v"
    "0x10000 + (unat u - 0xD800) * 0x400 + (unat v - 0xDC00) = c"
proof
  let ?h = "0xD800 + (c - 0x10000) div 0x400" and ?l = "0xDC00 + (c - 0x10000) mod 0x400"
  have c: "c - 0x10000 < 0x400 * 0x400" using assms by (auto simp: is_scalar_def)
  then have hd: "(c - 0x10000) div 0x400 < 0x400" by (rule less_mult_imp_div_less)
  have lo: "(c - 0x10000) mod 0x400 < 0x400" by simp
  have h: "unat (word_of_nat ?h :: u16) = ?h" using hd by (intro unat_u16_of_nat) simp
  have l: "unat (word_of_nat ?l :: u16) = ?l" using lo by (intro unat_u16_of_nat) linarith
  show "utf16_units c = [word_of_nat ?h, word_of_nat ?l]"
    using assms(2) by (simp add: utf16_units_def)
  show "is_leading (word_of_nat ?h)" using h hd by (simp add: is_leading_def del: of_nat_add)
  show "is_trailing (word_of_nat ?l)" using l lo by (simp add: is_trailing_def del: of_nat_add)
  have "(c - 0x10000) div 0x400 * 0x400 + (c - 0x10000) mod 0x400 = c - 0x10000" by simp
  with assms(2) h l
  show "0x10000 + (unat (word_of_nat ?h :: u16) - 0xD800) * 0x400
        + (unat (word_of_nat ?l :: u16) - 0xDC00) = c"
    by (simp del: of_nat_add)
qed

lemma from_utf16_single:
  "\<not> is_leading u \<Longrightarrow> \<not> is_trailing u \<Longrightarrow>
     from_utf16 (u # us) = map_option ((#) (unat u)) (from_utf16 us)"
  by (cases us) auto

lemma leading_not_trailing: "is_leading u \<Longrightarrow> \<not> is_trailing u"
  by (auto simp: is_leading_def is_trailing_def)

theorem from_utf16_encode: "valid_ustring s \<Longrightarrow> from_utf16 (encode_utf16 s) = Some s"
proof (induction s)
  case Nil
  then show ?case by simp
next
  case (Cons c cs)
  then have c: "is_scalar c" and IH: "from_utf16 (encode_utf16 cs) = Some cs" by simp_all
  show ?case
  proof (cases "c < 0x10000")
    case True
    with c obtain u where "utf16_units c = [u]" "unat u = c" "\<not> is_leading u" "\<not> is_trailing u"
      by (rule utf16_units_bmp)
    with IH show ?thesis by (simp add: from_utf16_single)
  next
    case False
    with c obtain u v where "utf16_units c = [u, v]" "is_leading u" "is_trailing v"
      "0x10000 + (unat u - 0xD800) * 0x400 + (unat v - 0xDC00) = c"
      by (rule utf16_units_astral)
    with IH show ?thesis by (simp add: leading_not_trailing)
  qed
qed

lemma surrogates_scalar:
  assumes "is_leading u" and "is_trailing v"
  shows "is_scalar (0x10000 + (unat u - 0xD800) * 0x400 + (unat v - 0xDC00))"
proof -
  have "unat u - 0xD800 \<le> 0x3FF" and v: "unat v - 0xDC00 \<le> 0x3FF"
    using assms unfolding is_leading_def is_trailing_def by arith+
  then have "(unat u - 0xD800) * 0x400 \<le> 0x3FF * 0x400" by (intro mult_le_mono1)
  with v show ?thesis unfolding is_scalar_def by linarith
qed

lemma from_utf16_valid: "from_utf16 us = Some s \<Longrightarrow> valid_ustring s"
proof (induction us arbitrary: s rule: from_utf16.induct)
  case 1
  then show ?case by simp
next
  case (2 u)
  have "unat u < 0x110000" by (rule less_trans [OF unat_u16_bound]) simp
  with 2 show ?case
    by (auto simp: is_scalar_def is_leading_def is_trailing_def split: if_splits)
next
  case (3 u v us)
  show ?case
  proof (cases "is_leading u")
    case True
    with "3.prems" obtain t where t: "is_trailing v" "from_utf16 us = Some t"
      "s = (0x10000 + (unat u - 0xD800) * 0x400 + (unat v - 0xDC00)) # t"
      by (auto split: if_splits)
    then have "valid_ustring t" using "3.IH"(1) True by (simp add: leading_not_trailing)
    moreover have "is_scalar (0x10000 + (unat u - 0xD800) * 0x400 + (unat v - 0xDC00))"
      using True t(1) by (rule surrogates_scalar)
    ultimately show ?thesis by (simp only: t(3) valid_ustring_simps simp_thms)
  next
    case False
    with "3.prems" obtain t where t: "\<not> is_trailing u" "from_utf16 (v # us) = Some t"
      "s = unat u # t"
      by (auto split: if_splits)
    then have "valid_ustring t" using "3.IH"(2) False by simp
    moreover have "unat u < 0x110000" by (rule less_trans [OF unat_u16_bound]) simp
    ultimately show ?thesis using t False
      by (auto simp: is_scalar_def is_leading_def is_trailing_def)
  qed
qed

subsection \<open>Cutting a UTF-16 string between characters\<close>

text \<open>
  The number of code units to keep when at most \<open>n\<close> fit: a cut right after a leading
  surrogate steps back by one.
\<close>

definition cut_units :: "nat \<Rightarrow> u16 list \<Rightarrow> nat" where
  "cut_units n us =
     (let take = min (length us) n
      in if take < length us \<and> 0 < take \<and> is_leading (us ! (take - 1)) then take - 1 else take)"

lemma cut_units_0 [simp]: "cut_units 0 us = 0"
  by (simp add: cut_units_def)

lemma cut_units_Nil [simp]: "cut_units n [] = 0"
  by (simp add: cut_units_def)

lemma cut_units_Suc:
  "\<not> is_leading u \<Longrightarrow> cut_units (Suc n) (u # us) = Suc (cut_units n us)"
  by (auto simp: cut_units_def Let_def nth_Cons' min_def not_less)

lemma cut_units_Suc2:
  assumes "\<not> is_leading v"
  shows "cut_units (Suc (Suc n)) (u # v # us) = Suc (Suc (cut_units n us))"
proof (cases "min (length us) n")
  case 0
  then show ?thesis using assms by (auto simp: cut_units_def Let_def)
next
  case (Suc m)
  then show ?thesis by (simp add: cut_units_def Let_def)
qed

lemma cut_units_pair: "is_leading u \<Longrightarrow> cut_units (Suc 0) (u # v # us) = 0"
  by (simp add: cut_units_def)

lemma take_cut_units:
  "valid_ustring s \<Longrightarrow> take (cut_units n (encode_utf16 s)) (encode_utf16 s) = encode_utf16 (fit_utf16 n s)"
proof (induction s arbitrary: n)
  case Nil
  then show ?case by simp
next
  case (Cons c cs)
  then have c: "is_scalar c" and IH: "\<And>n. take (cut_units n (encode_utf16 cs)) (encode_utf16 cs)
      = encode_utf16 (fit_utf16 n cs)" by simp_all
  show ?case
  proof (cases "c < 0x10000")
    case True
    with c obtain u where u: "utf16_units c = [u]" "\<not> is_leading u" by (rule utf16_units_bmp)
    show ?thesis by (cases n) (simp_all add: u cut_units_Suc IH)
  next
    case False
    with c obtain u v where u: "utf16_units c = [u, v]" "is_leading u" "is_trailing v"
      by (rule utf16_units_astral)
    then have v: "\<not> is_leading v" using leading_not_trailing by blast
    consider "n = 0" | "n = Suc 0" | m where "n = Suc (Suc m)"
      by (metis not0_implies_Suc)
    then show ?thesis
      by cases (simp_all add: u(1,2) v cut_units_Suc2 cut_units_pair IH)
  qed
qed

lemma cut_units_le: "cut_units n us \<le> n" and cut_units_le_length: "cut_units n us \<le> length us"
  by (auto simp: cut_units_def Let_def)

lemma fit_utf16_all: "length (encode_utf16 s) \<le> n \<Longrightarrow> fit_utf16 n s = s"
  by (induction s arbitrary: n) auto

lemma fit_utf16_prefix: "\<exists>rest. s = fit_utf16 n s @ rest"
  by (induction s arbitrary: n) auto

lemma valid_fit_utf16: "valid_ustring s \<Longrightarrow> valid_ustring (fit_utf16 n s)"
  by (induction s arbitrary: n) auto

lemma fit_utf16_length: "length (encode_utf16 (fit_utf16 n s)) \<le> n"
proof (induction s arbitrary: n)
  case Nil
  then show ?case by simp
next
  case (Cons c cs)
  show ?case using Cons.IH [of "n - length (utf16_units c)"] by auto
qed

section \<open>UTF-8\<close>

text \<open>
  The bytes of a \<open>String\<close>, and \<open>str::from_utf8\<close>: the shortest form of scalar values only.
\<close>

definition utf8_char :: "nat \<Rightarrow> bytes" where
  "utf8_char c =
     (if c < 0x80 then [word_of_nat c]
      else if c < 0x800 then [word_of_nat (0xC0 + c div 64), word_of_nat (0x80 + c mod 64)]
      else if c < 0x10000 then
        [word_of_nat (0xE0 + c div 4096), word_of_nat (0x80 + c div 64 mod 64),
         word_of_nat (0x80 + c mod 64)]
      else
        [word_of_nat (0xF0 + c div 262144), word_of_nat (0x80 + c div 4096 mod 64),
         word_of_nat (0x80 + c div 64 mod 64), word_of_nat (0x80 + c mod 64)])"

definition utf8_bytes :: "ustring \<Rightarrow> bytes" where
  "utf8_bytes s = concat (map utf8_char s)"

definition is_continuation :: "u8 \<Rightarrow> bool" where
  "is_continuation b \<longleftrightarrow> 0x80 \<le> unat b \<and> unat b < 0xC0"

fun from_utf8 :: "bytes \<Rightarrow> ustring option" where
  "from_utf8 [] = Some []"
| "from_utf8 (b # bs) =
     (let n = unat b in
      if n < 0x80 then map_option ((#) n) (from_utf8 bs)
      else if 0xC2 \<le> n \<and> n < 0xE0 then
        (case bs of
           b1 # r \<Rightarrow>
             if is_continuation b1
             then map_option ((#) ((n - 0xC0) * 64 + (unat b1 - 0x80))) (from_utf8 r)
             else None
         | _ \<Rightarrow> None)
      else if 0xE0 \<le> n \<and> n < 0xF0 then
        (case bs of
           b1 # b2 # r \<Rightarrow>
             let c = (n - 0xE0) * 4096 + (unat b1 - 0x80) * 64 + (unat b2 - 0x80) in
             if is_continuation b1 \<and> is_continuation b2 \<and> 0x800 \<le> c \<and> is_scalar c
             then map_option ((#) c) (from_utf8 r)
             else None
         | _ \<Rightarrow> None)
      else if 0xF0 \<le> n \<and> n < 0xF5 then
        (case bs of
           b1 # b2 # b3 # r \<Rightarrow>
             let c = (n - 0xF0) * 262144 + (unat b1 - 0x80) * 4096
                     + (unat b2 - 0x80) * 64 + (unat b3 - 0x80) in
             if is_continuation b1 \<and> is_continuation b2 \<and> is_continuation b3
                \<and> 0x10000 \<le> c \<and> is_scalar c
             then map_option ((#) c) (from_utf8 r)
             else None
         | _ \<Rightarrow> None)
      else None)"

lemma unat_small: "n < 256 \<Longrightarrow> unat (word_of_nat n :: u8) = n"
  by (simp add: unat_of_nat)

lemma from_utf8_char:
  assumes "is_scalar c"
  shows "from_utf8 (utf8_char c @ bs) = map_option ((#) c) (from_utf8 bs)"
proof -
  have m: "n mod 64 < 64" for n :: nat by simp
  have cont: "is_continuation (word_of_nat (0x80 + k))" "unat (word_of_nat (0x80 + k) :: u8) = 0x80 + k"
    if "k < 64" for k
    using that by (simp_all add: is_continuation_def unat_small del: of_nat_add)
  note cont_mod = cont [OF m]
  have split64: "n = n div 64 * 64 + n mod 64" for n :: nat by simp
  have q: "c div 4096 = c div 64 div 64" "c div 262144 = c div 64 div 64 div 64"
    by (simp_all add: div_mult2_eq [symmetric])
  have d1: "c = c div 64 * 64 + c mod 64" by simp
  have d2: "c = c div 4096 * 4096 + c div 64 mod 64 * 64 + c mod 64"
    unfolding q using split64 [of c] split64 [of "c div 64"] by linarith
  have d3: "c = c div 262144 * 262144 + c div 4096 mod 64 * 4096 + c div 64 mod 64 * 64 + c mod 64"
    unfolding q using split64 [of c] split64 [of "c div 64"] split64 [of "c div 64 div 64"]
    by linarith
  consider "c < 0x80" | "0x80 \<le> c" "c < 0x800" | "0x800 \<le> c" "c < 0x10000" | "0x10000 \<le> c"
    by linarith
  then show ?thesis
  proof cases
    case 1
    then show ?thesis by (simp add: utf8_char_def unat_small)
  next
    case 2
    then have "unat (word_of_nat (0xC0 + c div 64) :: u8) = 0xC0 + c div 64"
      and "\<not> c div 64 < 2" and "c div 64 < 32"
      by (simp_all add: unat_small less_mult_imp_div_less not_less del: of_nat_add)
    then show ?thesis
      using d1 leD [OF 2(1)] 2(2)
      by (simp add: utf8_char_def cont_mod Let_def less_mult_imp_div_less del: of_nat_add)
  next
    case 3
    then have "unat (word_of_nat (0xE0 + c div 4096) :: u8) = 0xE0 + c div 4096"
      and "c div 4096 < 16"
      by (simp_all add: unat_small less_mult_imp_div_less del: of_nat_add)
    then show ?thesis
      using 3 assms d2 [symmetric] by (simp add: utf8_char_def cont_mod Let_def del: of_nat_add)
  next
    case 4
    have "c < 5 * 262144" using assms by (auto simp: is_scalar_def)
    then have "c div 262144 < 5" by (rule less_mult_imp_div_less)
    moreover from this have "unat (word_of_nat (0xF0 + c div 262144) :: u8) = 0xF0 + c div 262144"
      by (simp add: unat_small del: of_nat_add)
    ultimately show ?thesis
      using 4 assms d3 [symmetric] by (simp add: utf8_char_def cont_mod Let_def del: of_nat_add)
  qed
qed

lemma from_utf8_bytes: "valid_ustring s \<Longrightarrow> from_utf8 (utf8_bytes s) = Some s"
  unfolding valid_ustring_def
  by (induction s) (simp_all add: utf8_bytes_def from_utf8_char)

section \<open>White space, splitting and numbers\<close>

text \<open>\<open>char::is_whitespace\<close>, the Unicode property \<open>White_Space\<close>.\<close>

definition is_whitespace :: "nat \<Rightarrow> bool" where
  "is_whitespace c \<longleftrightarrow>
     9 \<le> c \<and> c \<le> 13 \<or> c = 0x20 \<or> c = 0x85 \<or> c = 0xA0 \<or> c = 0x1680
     \<or> 0x2000 \<le> c \<and> c \<le> 0x200A \<or> c = 0x2028 \<or> c = 0x2029 \<or> c = 0x202F
     \<or> c = 0x205F \<or> c = 0x3000"

definition trim :: "ustring \<Rightarrow> ustring" where
  "trim s = rev (dropWhile is_whitespace (rev (dropWhile is_whitespace s)))"

text \<open>\<open>str::split\<close> at one character: the parts between the separators, empty ones included.\<close>

fun split_on :: "nat \<Rightarrow> ustring \<Rightarrow> ustring list" where
  "split_on c [] = [[]]"
| "split_on c (x # xs) =
     (if x = c then [] # split_on c xs
      else (case split_on c xs of [] \<Rightarrow> [[x]] | p # ps \<Rightarrow> (x # p) # ps))"

fun split_once :: "nat \<Rightarrow> ustring \<Rightarrow> (ustring \<times> ustring) option" where
  "split_once c [] = None"
| "split_once c (x # xs) =
     (if x = c then Some ([], xs)
      else map_option (\<lambda>(a, b). (x # a, b)) (split_once c xs))"

definition rsplit_once :: "nat \<Rightarrow> ustring \<Rightarrow> (ustring \<times> ustring) option" where
  "rsplit_once c s = map_option (\<lambda>(a, b). (rev b, rev a)) (split_once c (rev s))"

fun strip_prefix :: "ustring \<Rightarrow> ustring \<Rightarrow> ustring option" where
  "strip_prefix [] s = Some s"
| "strip_prefix (p # ps) [] = None"
| "strip_prefix (p # ps) (x # xs) = (if p = x then strip_prefix ps xs else None)"

text \<open>\<open>char::to_digit\<close> and \<open>from_str_radix\<close> of an unsigned type whose largest value is \<open>m\<close>.\<close>

definition to_digit :: "nat \<Rightarrow> nat \<Rightarrow> nat option" where
  "to_digit r c =
     (let d = (if 48 \<le> c \<and> c \<le> 57 then Some (c - 48)
               else if 97 \<le> c \<and> c \<le> 122 then Some (c - 97 + 10)
               else if 65 \<le> c \<and> c \<le> 90 then Some (c - 65 + 10)
               else None)
      in case d of None \<Rightarrow> None | Some v \<Rightarrow> if v < r then Some v else None)"

fun read_digits :: "nat \<Rightarrow> nat \<Rightarrow> nat \<Rightarrow> ustring \<Rightarrow> nat option" where
  "read_digits r m acc [] = Some acc"
| "read_digits r m acc (c # cs) =
     (case to_digit r c of
        None \<Rightarrow> None
      | Some d \<Rightarrow> if acc * r + d \<le> m then read_digits r m (acc * r + d) cs else None)"

definition from_str_radix :: "nat \<Rightarrow> nat \<Rightarrow> ustring \<Rightarrow> nat option" where
  "from_str_radix r m s =
     (let ds = (case s of c # cs \<Rightarrow> if c = 43 then cs else s | [] \<Rightarrow> [])
      in if ds = [] then None else read_digits r m 0 ds)"

lemma split_on_nonempty [simp]: "split_on c xs \<noteq> []"
  by (induction xs) (auto split: list.splits)

lemma split_on_no_sep: "p \<in> set (split_on c xs) \<Longrightarrow> c \<notin> set p"
  by (induction xs arbitrary: p) (auto split: if_splits list.splits)

lemma split_on_append_sep: "c \<notin> set p \<Longrightarrow> split_on c (p @ c # xs) = p # split_on c xs"
  by (induction p) auto

lemma split_on_simple: "c \<notin> set p \<Longrightarrow> split_on c p = [p]"
  by (induction p) auto

lemma split_once_Some:
  "split_once c s = Some (a, b) \<Longrightarrow> s = a @ c # b \<and> c \<notin> set a"
  by (induction s arbitrary: a) (auto split: if_splits)

lemma split_once_None: "split_once c s = None \<longleftrightarrow> c \<notin> set s"
  by (induction s) auto

lemma split_once_append: "c \<notin> set a \<Longrightarrow> split_once c (a @ c # b) = Some (a, b)"
  by (induction a) auto

lemma rsplit_once_append: "c \<notin> set b \<Longrightarrow> rsplit_once c (a @ c # b) = Some (a, b)"
  by (simp add: rsplit_once_def split_once_append)

lemma rsplit_once_Some:
  assumes "rsplit_once c s = Some (a, b)"
  shows "s = a @ c # b \<and> c \<notin> set b"
proof -
  from assms have "split_once c (rev s) = Some (rev b, rev a)"
    by (auto simp: rsplit_once_def)
  then have "rev s = rev (a @ c # b)" and "c \<notin> set (rev b)"
    by (auto dest: split_once_Some)
  then show ?thesis by (simp only: rev_is_rev_conv set_rev simp_thms)
qed

lemma rsplit_once_None: "rsplit_once c s = None \<longleftrightarrow> c \<notin> set s"
  by (simp add: rsplit_once_def split_once_None)

lemma strip_prefix_append [simp]: "strip_prefix p (p @ s) = Some s"
  by (induction p) auto

lemma strip_prefix_Some: "strip_prefix p s = Some t \<longleftrightarrow> s = p @ t"
  by (induction p s rule: strip_prefix.induct) auto

lemma read_digits_bound: "acc \<le> m \<Longrightarrow> read_digits r m acc s = Some v \<Longrightarrow> v \<le> m"
  by (induction s arbitrary: acc) (auto split: option.splits if_splits)

lemma from_str_radix_bound: "from_str_radix r m s = Some v \<Longrightarrow> v \<le> m"
  using read_digits_bound [of 0 m r]
  by (simp add: from_str_radix_def Let_def split: if_splits)

end
