(* ===== verification/Ptp_Wire.thy ===== *)
theory Ptp_Wire
  imports Rust_Text
begin

text \<open>
  The container layer of \<open>crates/ptp-proto/src/lib.rs\<close>: parse faults, container types, the
  12-byte header, containers, the length field and the functions that build containers and
  strings for the wire. The lemmas show that what the host builds is what a reader of the wire
  gets back, that no parse reads past its buffer, and that the length field never wraps.
\<close>

definition HEADER_LEN :: nat where
  "HEADER_LEN = 12"

datatype parse_error =
    ShortHeader nat
  | LengthMismatch u32 nat
  | UnknownContainerType u16
  | Truncated string nat nat
  | BadString string
  | Unsupported string u32

datatype container_type = Command | Data | Response | Event

definition from_wire :: "u16 \<Rightarrow> parse_error + container_type" where
  "from_wire v =
     (if v = 1 then Inr Command
      else if v = 2 then Inr Data
      else if v = 3 then Inr Response
      else if v = 4 then Inr Event
      else Inl (UnknownContainerType v))"

fun to_wire :: "container_type \<Rightarrow> u16" where
  "to_wire Command = 1"
| "to_wire Data = 2"
| "to_wire Response = 3"
| "to_wire Event = 4"

record container =
  c_length :: u32
  c_kind :: container_type
  c_code :: u16
  c_transaction_id :: u32
  c_payload :: bytes

record header =
  h_length :: u32
  h_kind :: container_type
  h_code :: u16
  h_transaction_id :: u32

definition header_parse :: "bytes \<Rightarrow> parse_error + header" where
  "header_parse buf =
     (if length buf < HEADER_LEN then Inl (ShortHeader (length buf))
      else case from_wire (u16_from_le_bytes [buf ! 4, buf ! 5]) of
          Inl e \<Rightarrow> Inl e
        | Inr kind \<Rightarrow> Inr
            \<lparr>h_length = u32_from_le_bytes [buf ! 0, buf ! 1, buf ! 2, buf ! 3],
             h_kind = kind,
             h_code = u16_from_le_bytes [buf ! 6, buf ! 7],
             h_transaction_id = u32_from_le_bytes [buf ! 8, buf ! 9, buf ! 10, buf ! 11]\<rparr>)"

definition header_payload_len :: "header \<Rightarrow> nat" where
  "header_payload_len h = unat (h_length h) - HEADER_LEN"

definition container_parse :: "bytes \<Rightarrow> parse_error + container" where
  "container_parse buf =
     (case header_parse buf of
        Inl e \<Rightarrow> Inl e
      | Inr h \<Rightarrow>
          (let declared = unat (h_length h)
           in if declared < HEADER_LEN \<or> declared > length buf
              then Inl (LengthMismatch (h_length h) (length buf))
              else Inr
                \<lparr>c_length = h_length h, c_kind = h_kind h, c_code = h_code h,
                 c_transaction_id = h_transaction_id h,
                 c_payload = drop HEADER_LEN (take declared buf)\<rparr>))"

text \<open>\<open>chunks_exact(4)\<close> with a little-endian read of each chunk; a short tail is dropped.\<close>

fun u32_chunks :: "bytes \<Rightarrow> u32 list" where
  "u32_chunks (a # b # c # d # bs) = u32_from_le_bytes [a, b, c, d] # u32_chunks bs"
| "u32_chunks bs = []"

definition parameters :: "container \<Rightarrow> u32 list" where
  "parameters c = u32_chunks (c_payload c)"

section \<open>Building containers\<close>

definition MAX_PAYLOAD_LEN :: nat where
  "MAX_PAYLOAD_LEN = u32_max - HEADER_LEN"

definition MAX_PARAMS :: nat where
  "MAX_PARAMS = 5"

datatype payload_too_large = PayloadTooLarge nat

definition container_length :: "nat \<Rightarrow> payload_too_large + u32" where
  "container_length payload_len =
     (if payload_len > MAX_PAYLOAD_LEN then Inl (PayloadTooLarge payload_len)
      else Inr (word_of_nat HEADER_LEN + word_of_nat payload_len))"

definition push_header :: "bytes \<Rightarrow> u32 \<Rightarrow> container_type \<Rightarrow> u16 \<Rightarrow> u32 \<Rightarrow> bytes" where
  "push_header out len kind code tid =
     out @ u32_to_le_bytes len @ u16_to_le_bytes (to_wire kind) @ u16_to_le_bytes code
         @ u32_to_le_bytes tid"

definition build :: "container_type \<Rightarrow> u16 \<Rightarrow> u32 \<Rightarrow> bytes \<Rightarrow> payload_too_large + bytes" where
  "build kind code tid payload =
     (case container_length (length payload) of
        Inl e \<Rightarrow> Inl e
      | Inr len \<Rightarrow> Inr (push_header [] len kind code tid @ payload))"

definition build_data_header :: "u16 \<Rightarrow> u32 \<Rightarrow> nat \<Rightarrow> payload_too_large + bytes" where
  "build_data_header code tid payload_len =
     (case container_length payload_len of
        Inl e \<Rightarrow> Inl e
      | Inr len \<Rightarrow> Inr (push_header [] len Data code tid))"

definition build_command :: "u16 \<Rightarrow> u32 \<Rightarrow> u32 list \<Rightarrow> bytes" where
  "build_command code tid params =
     (let n = min (length params) MAX_PARAMS;
          len = word_of_nat (HEADER_LEN + n * 4)
      in push_header [] len Command code tid @ concat (map u32_to_le_bytes (take n params)))"

definition push_string :: "bytes \<Rightarrow> ustring \<Rightarrow> bytes" where
  "push_string out s =
     (if s = [] then out @ [0]
      else let units = encode_utf16 s;
               n = cut_units 254 units
           in out @ [word_of_nat (n + 1)] @ concat (map u16_to_le_bytes (take n units))
                  @ u16_to_le_bytes 0)"

section \<open>Lemmas\<close>

lemma from_to_wire [simp]: "from_wire (to_wire t) = Inr t"
  by (cases t) (simp_all add: from_wire_def)

lemma from_wire_Inr: "from_wire v = Inr t \<longleftrightarrow> v = to_wire t"
  by (cases t) (auto simp: from_wire_def split: if_splits)

lemma length_push_header [simp]: "length (push_header out len kind code tid) = length out + 12"
  by (simp add: push_header_def)

lemma u16_to_le_bytes_list: "u16_to_le_bytes x = [word_of_nat (unat x), word_of_nat (unat x div 256)]"
  by (simp add: u16_to_le_bytes_def numeral_2_eq_2)

lemma u32_to_le_bytes_list:
  "\<exists>a b c d. u32_to_le_bytes x = [a, b, c, d]"
proof -
  have "length (u32_to_le_bytes x) = Suc (Suc (Suc (Suc 0)))" by simp
  then show ?thesis by (auto simp only: length_Suc_conv length_0_conv)
qed

lemma header_parse_push_header:
  "header_parse (push_header [] len kind code tid @ rest) =
     Inr \<lparr>h_length = len, h_kind = kind, h_code = code, h_transaction_id = tid\<rparr>"
proof -
  obtain l0 l1 l2 l3 where l: "u32_to_le_bytes len = [l0, l1, l2, l3]"
    using u32_to_le_bytes_list by blast
  obtain t0 t1 t2 t3 where t: "u32_to_le_bytes tid = [t0, t1, t2, t3]"
    using u32_to_le_bytes_list by blast
  obtain k0 k1 where k: "u16_to_le_bytes (to_wire kind) = [k0, k1]"
    using u16_to_le_bytes_list by blast
  obtain c0 c1 where c: "u16_to_le_bytes code = [c0, c1]"
    using u16_to_le_bytes_list by blast
  have "u32_from_le_bytes [l0, l1, l2, l3] = len" "u32_from_le_bytes [t0, t1, t2, t3] = tid"
    "u16_from_le_bytes [k0, k1] = to_wire kind" "u16_from_le_bytes [c0, c1] = code"
    by (simp_all flip: l t k c)
  then show ?thesis
    by (simp add: header_parse_def push_header_def HEADER_LEN_def l t k c)
qed

lemma unat_container_length:
  assumes "container_length n = Inr len"
  shows "unat len = HEADER_LEN + n" and "n \<le> MAX_PAYLOAD_LEN"
proof -
  from assms show n: "n \<le> MAX_PAYLOAD_LEN"
    by (simp add: container_length_def split: if_splits)
  then have "HEADER_LEN + n < 2 ^ 32"
    by (simp add: MAX_PAYLOAD_LEN_def u32_max_def HEADER_LEN_def)
  moreover have "len = word_of_nat (HEADER_LEN + n)"
    using assms by (simp add: container_length_def split: if_splits)
  ultimately show "unat len = HEADER_LEN + n"
    by (simp add: unat_of_nat del: of_nat_add)
qed

lemma container_length_Inr_iff: "(\<exists>len. container_length n = Inr len) \<longleftrightarrow> n \<le> MAX_PAYLOAD_LEN"
  by (auto simp: container_length_def)

lemma container_parse_push_header:
  assumes "unat len = HEADER_LEN + length payload"
  shows "container_parse (push_header [] len kind code tid @ payload @ rest) =
    Inr \<lparr>c_length = len, c_kind = kind, c_code = code, c_transaction_id = tid, c_payload = payload\<rparr>"
  using assms
  by (simp add: container_parse_def header_parse_push_header Let_def HEADER_LEN_def)

lemma container_parse_Inr:
  assumes "container_parse buf = Inr c"
  shows "HEADER_LEN \<le> unat (c_length c)" "unat (c_length c) \<le> length buf"
    "c_payload c = drop HEADER_LEN (take (unat (c_length c)) buf)"
    "header_parse buf = Inr \<lparr>h_length = c_length c, h_kind = c_kind c, h_code = c_code c,
       h_transaction_id = c_transaction_id c\<rparr>"
  using assms
  by (auto simp: container_parse_def Let_def split: sum.splits if_splits)

lemma u32_chunks_append_le:
  "u32_chunks (concat (map u32_to_le_bytes ps)) = ps"
proof (induction ps)
  case Nil
  then show ?case by simp
next
  case (Cons p ps)
  obtain a b c d where p: "u32_to_le_bytes p = [a, b, c, d]" using u32_to_le_bytes_list by blast
  then have "u32_from_le_bytes [a, b, c, d] = p" by (simp flip: p)
  with p Cons show ?case by simp
qed

lemma length_concat_u32 [simp]: "length (concat (map u32_to_le_bytes ps)) = 4 * length ps"
  by (induction ps) simp_all

lemma length_concat_u16 [simp]: "length (concat (map u16_to_le_bytes us)) = 2 * length us"
  by (induction us) simp_all

lemma length_u32_chunks: "length (u32_chunks bs) = length bs div 4"
  by (induction bs rule: u32_chunks.induct) simp_all

section \<open>Properties\<close>

text \<open>
  C33: a container the host builds is the container a reader of the wire gets back, whatever
  follows it, and its length field is the true length; a payload the field cannot count is
  refused and nothing is built.
\<close>

theorem container_round_trip:
  "case build kind code tid payload of
     Inl e \<Rightarrow> e = PayloadTooLarge (length payload) \<and> MAX_PAYLOAD_LEN < length payload
   | Inr bs \<Rightarrow> length payload \<le> MAX_PAYLOAD_LEN \<and> length bs = HEADER_LEN + length payload
       \<and> (\<exists>len. unat len = HEADER_LEN + length payload
            \<and> container_parse (bs @ rest) = Inr \<lparr>c_length = len, c_kind = kind, c_code = code,
                c_transaction_id = tid, c_payload = payload\<rparr>)"
proof (cases "container_length (length payload)")
  case (Inl e)
  then show ?thesis by (auto simp: build_def container_length_def split: if_splits)
next
  case (Inr len)
  note len = unat_container_length [OF Inr]
  show ?thesis
    using container_parse_push_header [OF len(1), of kind code tid rest] len
    by (auto simp: build_def Inr HEADER_LEN_def)
qed

lemma command_parses:
  "\<exists>c. container_parse (build_command code tid params @ rest) = Inr c
     \<and> c_kind c = Command \<and> c_code c = code \<and> c_transaction_id c = tid
     \<and> parameters c = take MAX_PARAMS params
     \<and> unat (c_length c) = HEADER_LEN + 4 * min (length params) MAX_PARAMS"
proof -
  let ?ps = "take MAX_PARAMS params" and ?n = "min (length params) MAX_PARAMS"
  have "?n \<le> 5" by (simp add: MAX_PARAMS_def)
  then have u: "unat (word_of_nat (HEADER_LEN + ?n * 4) :: u32) = HEADER_LEN + ?n * 4"
    by (simp add: unat_of_nat HEADER_LEN_def del: of_nat_add of_nat_mult)
  have "take ?n params = ?ps" "length ?ps = ?n" by (simp_all add: min_def)
  then show ?thesis
    using container_parse_push_header [of "word_of_nat (HEADER_LEN + ?n * 4)"
        "concat (map u32_to_le_bytes ?ps)" Command code tid rest] u
    by (simp add: build_command_def Let_def parameters_def u32_chunks_append_le del: of_nat_add of_nat_mult)
qed

text \<open>
  A command carries the first five parameters it is given, in order, and a reader of the
  wire gets them back.
\<close>

theorem command_round_trip:
  "\<exists>c. container_parse (build_command code tid params @ rest) = Inr c
     \<and> c_kind c = Command \<and> c_code c = code \<and> c_transaction_id c = tid
     \<and> parameters c = take MAX_PARAMS params
     \<and> unat (c_length c) = HEADER_LEN + 4 * min (length params) MAX_PARAMS"
  by (rule command_parses)

text \<open>
  A container that parses declares at least a header and at most the bytes that are there;
  its payload is what lies between the header and the declared end, and no byte after that end
  has a say in the parse.
\<close>

theorem container_parse_inside:
  assumes "container_parse buf = Inr c"
  shows "HEADER_LEN \<le> unat (c_length c) \<and> unat (c_length c) \<le> length buf
    \<and> c_payload c = drop HEADER_LEN (take (unat (c_length c)) buf)
    \<and> container_parse (take (unat (c_length c)) buf @ rest) = Inr c"
proof -
  let ?n = "unat (c_length c)"
  note p = container_parse_Inr [OF assms]
  have same: "(take ?n buf @ rest) ! i = buf ! i" if "i < 12" for i
    using p(1,2) that by (simp add: nth_append HEADER_LEN_def)
  have "header_parse (take ?n buf @ rest) = header_parse buf"
    using p(1,2) same by (simp add: header_parse_def HEADER_LEN_def split: sum.split)
  then show ?thesis using p by (simp add: container_parse_def Let_def)
qed

lemma container_parse_inside_witness:
  "container_parse ([14, 0, 0, 0, 3, 0, 1, 32, 7, 0, 0, 0, 9, 8] @ [1, 2])
    = Inr \<lparr>c_length = 14, c_kind = Response, c_code = 0x2001, c_transaction_id = 7, c_payload = [9, 8]\<rparr>"
proof -
  have "container_parse [14, 0, 0, 0, 3, 0, 1, 32, 7, 0, 0, 0, 9, 8, 5]
    = Inr \<lparr>c_length = 14, c_kind = Response, c_code = 0x2001, c_transaction_id = 7, c_payload = [9, 8]\<rparr>"
    by code_simp
  from container_parse_inside [OF this, of "[1, 2]"] show ?thesis by simp
qed

end
