(* ===== verification/Ptp_Reader.thy ===== *)
theory Ptp_Reader
  imports Ptp_Wire
begin

text \<open>
  The checked cursor \<open>Reader\<close> of \<open>crates/ptp-proto/src/lib.rs\<close>. Every read checks the bytes that
  remain; a failed \<open>take\<close> leaves the cursor where it was. The locale \<open>codec\<close> is the contract
  between a writer and a reader of one kind of field, and its facts build the contract of an
  array and of a whole dataset from those of its fields.
\<close>

record reader =
  rd_buf :: bytes
  rd_pos :: nat

type_synonym 'a reading = "(reader, parse_error, 'a) sm"

definition new_reader :: "bytes \<Rightarrow> reader" where
  "new_reader buf = \<lparr>rd_buf = buf, rd_pos = 0\<rparr>"

definition remaining :: "reader \<Rightarrow> nat" where
  "remaining r = length (rd_buf r) - rd_pos r"

definition take_bytes :: "nat \<Rightarrow> string \<Rightarrow> bytes reading" where
  "take_bytes n field = (\<lambda>r.
     if remaining r < n then (Inl (Truncated field n (remaining r)), r)
     else (Inr (take n (drop (rd_pos r) (rd_buf r))), r\<lparr>rd_pos := rd_pos r + n\<rparr>))"

definition read_u8 :: "string \<Rightarrow> u8 reading" where
  "read_u8 field = and_then (take_bytes 1 field) (\<lambda>b. ok (b ! 0))"

definition read_u16 :: "string \<Rightarrow> u16 reading" where
  "read_u16 field =
     and_then (take_bytes 2 field) (\<lambda>b. ok (u16_from_le_bytes [b ! 0, b ! 1]))"

definition read_u32 :: "string \<Rightarrow> u32 reading" where
  "read_u32 field =
     and_then (take_bytes 4 field) (\<lambda>b. ok (u32_from_le_bytes [b ! 0, b ! 1, b ! 2, b ! 3]))"

definition read_u64 :: "string \<Rightarrow> u64 reading" where
  "read_u64 field =
     and_then (take_bytes 8 field)
       (\<lambda>b. ok (u64_from_le_bytes [b ! 0, b ! 1, b ! 2, b ! 3, b ! 4, b ! 5, b ! 6, b ! 7]))"

text \<open>The code units of \<open>chunks_exact(2)\<close>.\<close>

fun u16_chunks :: "bytes \<Rightarrow> u16 list" where
  "u16_chunks (a # b # bs) = u16_from_le_bytes [a, b] # u16_chunks bs"
| "u16_chunks bs = []"

definition pop_terminator :: "u16 list \<Rightarrow> u16 list" where
  "pop_terminator units = (if units \<noteq> [] \<and> last units = 0 then butlast units else units)"

definition read_string :: "string \<Rightarrow> ustring reading" where
  "read_string field =
     and_then (read_u8 field) (\<lambda>c.
       let count = unat c
       in if count = 0 then ok []
          else and_then (take_bytes (count * 2) field) (\<lambda>bs.
            case from_utf16 (pop_terminator (u16_chunks bs)) of
              None \<Rightarrow> err (BadString field)
            | Some s \<Rightarrow> ok s))"

text \<open>The loop \<open>for _ in 0..count { out.push(read(self, field)?) }\<close>.\<close>

primrec read_n :: "nat \<Rightarrow> 'a reading \<Rightarrow> 'a list reading" where
  "read_n 0 rd = ok []"
| "read_n (Suc k) rd = and_then rd (\<lambda>x. and_then (read_n k rd) (\<lambda>xs. ok (x # xs)))"

definition read_array :: "string \<Rightarrow> nat \<Rightarrow> (string \<Rightarrow> 'a reading) \<Rightarrow> 'a list reading" where
  "read_array field width rd =
     and_then (read_u32 field) (\<lambda>c r.
       let count = unat c; need = count * width
       in if need > usize_max then (Inl (Truncated field usize_max (remaining r)), r)
          else if remaining r < need then (Inl (Truncated field need (remaining r)), r)
          else read_n count (rd field) r)"

definition read_u16_array :: "string \<Rightarrow> u16 list reading" where
  "read_u16_array field = read_array field 2 read_u16"

definition read_u32_array :: "string \<Rightarrow> u32 list reading" where
  "read_u32_array field = read_array field 4 read_u32"

definition parse_u32_array :: "bytes \<Rightarrow> parse_error + u32 list" where
  "parse_u32_array data = fst (read_u32_array ''array'' (new_reader data))"

definition payload_as_u32_array :: "container \<Rightarrow> parse_error + u32 list" where
  "payload_as_u32_array c = parse_u32_array (c_payload c)"

section \<open>The cursor moves forward and stays in the buffer\<close>

definition cursor_ok :: "reader \<Rightarrow> bool" where
  "cursor_ok r \<longleftrightarrow> rd_pos r \<le> length (rd_buf r)"

definition cursor_step :: "reader \<Rightarrow> reader \<Rightarrow> bool" where
  "cursor_step r r' \<longleftrightarrow>
     rd_buf r' = rd_buf r \<and> rd_pos r \<le> rd_pos r' \<and> (cursor_ok r \<longrightarrow> cursor_ok r')"

interpretation cursor: step_order cursor_step
  by unfold_locales (auto simp: cursor_step_def)

lemma keeps_take_bytes: "keeps cursor_step (take_bytes n field)"
  by (rule keepsI)
     (auto simp: take_bytes_def cursor_step_def cursor_ok_def remaining_def split: if_splits)

lemma keeps_scalars:
  "keeps cursor_step (read_u8 f)" "keeps cursor_step (read_u16 f)"
  "keeps cursor_step (read_u32 f)" "keeps cursor_step (read_u64 f)"
  by (simp_all add: read_u8_def read_u16_def read_u32_def read_u64_def
      cursor.keeps_intros keeps_take_bytes)

lemma keeps_read_string: "keeps cursor_step (read_string f)"
  unfolding read_string_def Let_def
  by (intro cursor.keeps_intros keeps_scalars keeps_take_bytes)
     (simp add: cursor.keeps_ok cursor.keeps_err split: option.splits)

lemma keeps_read_n: "keeps cursor_step rd \<Longrightarrow> keeps cursor_step (read_n k rd)"
  by (induction k) (auto intro!: cursor.keeps_intros)

lemma keeps_read_array:
  assumes "\<And>f. keeps cursor_step (rd f)"
  shows "keeps cursor_step (read_array field width rd)"
  unfolding read_array_def
proof (rule cursor.keeps_and_then [OF keeps_scalars(3)], rule keepsI)
  fix c s r t
  assume run: "(let count = unat c; need = count * width
       in if need > usize_max then (Inl (Truncated field usize_max (remaining s)), s)
          else if remaining s < need then (Inl (Truncated field need (remaining s)), s)
          else read_n count (rd field) s) = (r, t)"
  show "cursor_step s t"
    using run keepsD [OF keeps_read_n [OF assms]]
    by (auto simp: Let_def cursor.step_refl split: if_splits)
qed

lemmas keeps_reads =
  keeps_take_bytes keeps_scalars keeps_read_string keeps_read_n keeps_read_array

section \<open>What a read consumes\<close>

text \<open>
  \<open>reads m bs x\<close>: wherever \<open>bs\<close> stands in a buffer, \<open>m\<close> at its first byte gives \<open>x\<close> and stops
  right after its last.
\<close>

definition reads :: "'a reading \<Rightarrow> bytes \<Rightarrow> 'a \<Rightarrow> bool" where
  "reads m bs x \<longleftrightarrow>
     (\<forall>pre rest. m \<lparr>rd_buf = pre @ bs @ rest, rd_pos = length pre\<rparr>
        = (Inr x, \<lparr>rd_buf = pre @ bs @ rest, rd_pos = length pre + length bs\<rparr>))"

named_theorems reads_intros \<open>what a reader gives on the bytes a writer made\<close>

lemma readsD:
  "reads m bs x \<Longrightarrow> m \<lparr>rd_buf = pre @ bs @ rest, rd_pos = length pre\<rparr>
     = (Inr x, \<lparr>rd_buf = pre @ bs @ rest, rd_pos = length pre + length bs\<rparr>)"
  by (simp add: reads_def)

lemma reads_new:
  "reads m bs x \<Longrightarrow> m (new_reader (bs @ rest)) = (Inr x, \<lparr>rd_buf = bs @ rest, rd_pos = length bs\<rparr>)"
  using readsD [of m bs x "[]" rest] by (simp add: new_reader_def)

lemma reads_ok [reads_intros]: "reads (ok x) [] x"
  by (simp add: reads_def)

lemma reads_and_then:
  assumes "reads m bs x" and "reads (f x) cs y"
  shows "reads (and_then m f) (bs @ cs) y"
  unfolding reads_def
proof (intro allI)
  fix pre rest :: bytes
  have "m \<lparr>rd_buf = pre @ bs @ cs @ rest, rd_pos = length pre\<rparr>
     = (Inr x, \<lparr>rd_buf = pre @ bs @ cs @ rest, rd_pos = length pre + length bs\<rparr>)"
    using assms(1) by (rule readsD)
  moreover have "f x \<lparr>rd_buf = (pre @ bs) @ cs @ rest, rd_pos = length (pre @ bs)\<rparr>
     = (Inr y, \<lparr>rd_buf = (pre @ bs) @ cs @ rest, rd_pos = length (pre @ bs) + length cs\<rparr>)"
    using assms(2) by (rule readsD)
  ultimately show "and_then m f \<lparr>rd_buf = pre @ (bs @ cs) @ rest, rd_pos = length pre\<rparr>
     = (Inr y, \<lparr>rd_buf = pre @ (bs @ cs) @ rest, rd_pos = length pre + length (bs @ cs)\<rparr>)"
    by (simp add: add.assoc)
qed

lemma reads_unwrap_or [reads_intros]: "reads m bs x \<Longrightarrow> reads (unwrap_or d m) bs x"
  by (simp add: reads_def unwrap_or_def)

lemma reads_take: "length bs = n \<Longrightarrow> reads (take_bytes n field) bs bs"
  by (simp add: reads_def take_bytes_def remaining_def)

lemma reads_scalar:
  assumes "length bs = n" and "g bs = x"
  shows "reads (and_then (take_bytes n field) (\<lambda>b. ok (g b))) bs x"
proof -
  have "reads (and_then (take_bytes n field) (\<lambda>b. ok (g b))) (bs @ []) (g bs)"
    using reads_take [OF assms(1)] reads_ok by (rule reads_and_then)
  then show ?thesis using assms(2) by simp
qed

lemma reads_u8 [reads_intros]: "reads (read_u8 f) [b] b"
  unfolding read_u8_def by (rule reads_scalar) simp_all

lemma reads_u16 [reads_intros]: "reads (read_u16 f) (u16_to_le_bytes x) x"
  unfolding read_u16_def
proof (rule reads_scalar)
  obtain a b where "u16_to_le_bytes x = [a, b]" using u16_to_le_bytes_list by blast
  then show "u16_from_le_bytes [u16_to_le_bytes x ! 0, u16_to_le_bytes x ! 1] = x"
    using u16_le_roundtrip [of x] by simp
qed simp

lemma reads_u32 [reads_intros]: "reads (read_u32 f) (u32_to_le_bytes x) x"
  unfolding read_u32_def
proof (rule reads_scalar)
  obtain a b c d where "u32_to_le_bytes x = [a, b, c, d]" using u32_to_le_bytes_list by blast
  then show "u32_from_le_bytes [u32_to_le_bytes x ! 0, u32_to_le_bytes x ! 1,
      u32_to_le_bytes x ! 2, u32_to_le_bytes x ! 3] = x"
    using u32_le_roundtrip [of x] by (simp add: numeral_2_eq_2 numeral_3_eq_3)
qed simp

lemma eight_bytes:
  assumes "length (bs :: bytes) = 8"
  shows "[bs ! 0, bs ! 1, bs ! 2, bs ! 3, bs ! 4, bs ! 5, bs ! 6, bs ! 7] = bs"
  using assms by (intro nth_equalityI) (auto simp: less_Suc_eq numeral_eq_Suc)

lemma reads_u64 [reads_intros]: "reads (read_u64 f) (u64_to_le_bytes x) x"
  unfolding read_u64_def
  by (rule reads_scalar) (simp_all only: eight_bytes length_to_le_bytes u64_le_roundtrip)

lemma reads_n:
  assumes "\<And>x. x \<in> set xs \<Longrightarrow> reads rd (enc x) (val x)"
  shows "reads (read_n (length xs) rd) (concat (map enc xs)) (map val xs)"
  using assms
proof (induction xs)
  case Nil
  show ?case by (simp add: reads_ok del: ok_apply)
next
  case (Cons x xs)
  have "reads (and_then (read_n (length xs) rd) (\<lambda>ys. ok (val x # ys)))
      (concat (map enc xs) @ []) (val x # map val xs)"
    using Cons by (intro reads_and_then [OF Cons.IH] reads_ok) simp
  then have "reads (and_then rd (\<lambda>y. and_then (read_n (length xs) rd) (\<lambda>ys. ok (y # ys))))
      (enc x @ concat (map enc xs) @ []) (val x # map val xs)"
    using Cons.prems by (intro reads_and_then [of rd "enc x" "val x"]) simp_all
  then show ?case by simp
qed

subsection \<open>The contract of a field: what one side writes, the other reads\<close>

locale codec =
  fixes enc :: "'a \<Rightarrow> bytes"
    and dec :: "string \<Rightarrow> 'a reading"
    and valid :: "'a \<Rightarrow> bool"
  assumes dec_enc: "valid x \<Longrightarrow> reads (dec f) (enc x) x"
begin

lemma decodes: "valid x \<Longrightarrow> fst (dec f (new_reader (enc x @ rest))) = Inr x"
  by (simp add: reads_new [OF dec_enc])

lemma enc_injective:
  assumes "valid x" and "valid y" and "enc x = enc y"
  shows "x = y"
proof -
  have "fst (dec f (new_reader (enc x @ []))) = Inr x" for f
    using assms(1) by (rule decodes)
  moreover have "fst (dec f (new_reader (enc y @ []))) = Inr y" for f
    using assms(2) by (rule decodes)
  ultimately show ?thesis using assms(3) by simp
qed

lemma reads_many:
  "list_all valid xs \<Longrightarrow> reads (read_n (length xs) (dec f)) (concat (map enc xs)) xs"
  using reads_n [of xs "dec f" enc "\<lambda>x. x"] by (simp add: list_all_iff dec_enc)

end

locale fixed_codec = codec +
  fixes width :: nat
  assumes enc_width: "valid x \<Longrightarrow> length (enc x) = width"
    and width_small: "width \<le> 8"
begin

lemma enc_list_width:
  "list_all valid xs \<Longrightarrow> length (concat (map enc xs)) = length xs * width"
  by (induction xs) (simp_all add: enc_width)

lemma reads_array:
  assumes v: "list_all valid xs" and n: "length xs < 2 ^ 32"
  shows "reads (read_array f width dec) (u32_to_le_bytes (word_of_nat (length xs)) @ concat (map enc xs)) xs"
  unfolding read_array_def
proof (rule reads_and_then [OF reads_u32])
  have u: "unat (word_of_nat (length xs) :: u32) = length xs"
    using n by (simp add: unat_of_nat)
  have "length xs * width \<le> length xs * 8" using width_small by (rule mult_le_mono2)
  also have "\<dots> \<le> usize_max" using n by (simp add: usize_max_def)
  finally have small: "length xs * width \<le> usize_max" .
  have "reads (read_n (length xs) (dec f)) (concat (map enc xs)) xs"
    using v by (rule reads_many)
  then show "reads (\<lambda>r. let count = unat (word_of_nat (length xs) :: u32); need = count * width
       in if need > usize_max then (Inl (Truncated f usize_max (remaining r)), r)
          else if remaining r < need then (Inl (Truncated f need (remaining r)), r)
          else read_n count (dec f) r) (concat (map enc xs)) xs"
    using small by (simp add: reads_def u Let_def remaining_def enc_list_width [OF v])
qed

end

interpretation u16: fixed_codec u16_to_le_bytes read_u16 "\<lambda>_. True" 2
  by unfold_locales (simp_all add: reads_u16)

interpretation u32: fixed_codec u32_to_le_bytes read_u32 "\<lambda>_. True" 4
  by unfold_locales (simp_all add: reads_u32)

interpretation u64: fixed_codec u64_to_le_bytes read_u64 "\<lambda>_. True" 8
  by unfold_locales (simp_all add: reads_u64)

subsection \<open>Strings\<close>

lemma u16_chunks_append_le: "u16_chunks (concat (map u16_to_le_bytes us)) = us"
proof (induction us)
  case Nil
  then show ?case by simp
next
  case (Cons u us)
  obtain a b where u: "u16_to_le_bytes u = [a, b]" using u16_to_le_bytes_list by blast
  then have "u16_from_le_bytes [a, b] = u" by (simp flip: u)
  with u Cons show ?case by simp
qed

text \<open>
  What \<open>push_string\<close> writes, \<open>read_string\<close> reads back, cut to the characters the count byte can
  hold; no character is split.
\<close>

definition wire_string :: "ustring \<Rightarrow> ustring" where
  "wire_string s = fit_utf16 254 s"

lemma reads_string:
  assumes valid: "valid_ustring s"
  shows "reads (read_string f) (push_string [] s) (wire_string s)"
proof (cases "s = []")
  case True
  have "reads (read_string f) ([0] @ []) []"
    unfolding read_string_def by (rule reads_and_then [OF reads_u8]) (simp add: reads_ok)
  then show ?thesis using True by (simp add: push_string_def wire_string_def)
next
  case False
  define units where "units = encode_utf16 s"
  define n where "n = cut_units 254 units"
  define kept where "kept = take n units"
  have kept: "kept = encode_utf16 (wire_string s)"
    using take_cut_units [OF valid, of 254] by (simp add: kept_def n_def units_def wire_string_def)
  have n: "n \<le> 254" "length kept = n"
    using cut_units_le [of 254 units] cut_units_le_length [of 254 units]
    by (simp_all add: n_def kept_def)
  then have count: "unat (word_of_nat (n + 1) :: u8) = n + 1"
    by (simp add: unat_byte_of_nat del: of_nat_add of_nat_Suc)
  let ?body = "concat (map u16_to_le_bytes (kept @ [0]))"
  have push: "push_string [] s = [word_of_nat (n + 1)] @ ?body @ []"
    using False by (simp add: push_string_def Let_def units_def n_def kept_def)
  have units: "pop_terminator (u16_chunks ?body) = kept"
    by (simp only: u16_chunks_append_le) (simp add: pop_terminator_def)
  have decoded: "from_utf16 kept = Some (wire_string s)"
    unfolding kept wire_string_def using valid by (intro from_utf16_encode valid_fit_utf16)
  have "reads (and_then (take_bytes ((n + 1) * 2) f) (\<lambda>bs.
            case from_utf16 (pop_terminator (u16_chunks bs)) of
              None \<Rightarrow> err (BadString f) | Some s \<Rightarrow> ok s)) (?body @ []) (wire_string s)"
    by (rule reads_and_then [OF reads_take]) (simp_all only: units decoded option.case reads_ok
        length_concat_u16, simp add: n)
  then show ?thesis
    unfolding read_string_def push
    by (intro reads_and_then [OF reads_u8]) (simp only: count Let_def, simp)
qed

interpretation string_codec: codec "push_string []" read_string
  "\<lambda>s. valid_ustring s \<and> length (encode_utf16 s) \<le> 254"
  using reads_string by unfold_locales (metis fit_utf16_all wire_string_def)

lemma push_string_append: "push_string out s = out @ push_string [] s"
  by (simp add: push_string_def Let_def)

lemma read_string_valid: "read_string f r = (Inr s, r') \<Longrightarrow> valid_ustring s"
  by (auto simp: read_string_def Let_def and_then_Inr_iff split: if_splits option.splits
      dest: from_utf16_valid)

subsection \<open>How many elements an array holds\<close>

lemma length_read_n: "read_n k rd r = (Inr xs, r') \<Longrightarrow> length xs = k"
  by (induction k arbitrary: r xs r') (auto simp: and_then_Inr_iff)

section \<open>Properties\<close>

text \<open>
  C34: the text \<open>push_string\<close> writes is the text \<open>read_string\<close> reads back, cut between two
  characters to the 254 code units that fit beside the terminator, and not cut at all when it
  fits.
\<close>

theorem string_round_trip:
  assumes "valid_ustring s"
  shows "fst (read_string field (new_reader (push_string [] s @ rest))) = Inr (wire_string s)
    \<and> (\<exists>cut. s = wire_string s @ cut) \<and> length (encode_utf16 (wire_string s)) \<le> 254
    \<and> (length (encode_utf16 s) \<le> 254 \<longrightarrow> wire_string s = s)"
  using reads_new [OF reads_string [OF assms]] fit_utf16_prefix [of s 254]
    fit_utf16_length [of 254 s] fit_utf16_all [of s 254]
  by (simp add: wire_string_def)

lemma string_round_trip_witness:
  "fst (read_string ''name'' (new_reader (push_string [] [0x68, 0x1F4F1] @ [9]))) = Inr [0x68, 0x1F4F1]"
proof -
  have "valid_ustring [0x68, 0x1F4F1]" "length (encode_utf16 [0x68, 0x1F4F1]) \<le> 254"
    by (simp_all add: is_scalar_def utf16_units_def)
  with string_round_trip [of "[0x68, 0x1F4F1]" "''name''" "[9]"] show ?thesis by simp
qed

end
