(* ===== verification/Ptp_Datasets.thy ===== *)
theory Ptp_Datasets
  imports Ptp_Reader
begin

text \<open>
  The datasets of \<open>crates/ptp-proto/src/lib.rs\<close>: \<open>StorageInfo\<close>, \<open>ObjectInfo\<close> with the builder for
  \<open>SendObjectInfo\<close>, \<open>DeviceInfo\<close> with its capability questions, and the operation, response,
  format and property codes with their names. For each dataset the lemmas give the layout it
  reads and the fields it tolerates to be absent.
\<close>

section \<open>Codes\<close>

definition FORMAT_ASSOCIATION :: u16 where "FORMAT_ASSOCIATION = 0x3001"
definition FORMAT_UNDEFINED :: u16 where "FORMAT_UNDEFINED = 0x3000"
definition EVERY_OBJECT :: u32 where "EVERY_OBJECT = 0x00000000"
definition ROOT_ONLY :: u32 where "ROOT_ONLY = 0xffffffff"

definition GET_DEVICE_INFO :: u16 where "GET_DEVICE_INFO = 0x1001"
definition OPEN_SESSION :: u16 where "OPEN_SESSION = 0x1002"
definition CLOSE_SESSION :: u16 where "CLOSE_SESSION = 0x1003"
definition GET_STORAGE_IDS :: u16 where "GET_STORAGE_IDS = 0x1004"
definition GET_STORAGE_INFO :: u16 where "GET_STORAGE_INFO = 0x1005"
definition GET_OBJECT_HANDLES :: u16 where "GET_OBJECT_HANDLES = 0x1007"
definition GET_OBJECT_INFO :: u16 where "GET_OBJECT_INFO = 0x1008"
definition GET_OBJECT :: u16 where "GET_OBJECT = 0x1009"
definition GET_PARTIAL_OBJECT :: u16 where "GET_PARTIAL_OBJECT = 0x101b"
definition GET_PARTIAL_OBJECT_64 :: u16 where "GET_PARTIAL_OBJECT_64 = 0x95c1"
definition SEND_PARTIAL_OBJECT :: u16 where "SEND_PARTIAL_OBJECT = 0x95c2"
definition SEND_OBJECT_INFO :: u16 where "SEND_OBJECT_INFO = 0x100c"
definition SEND_OBJECT :: u16 where "SEND_OBJECT = 0x100d"
definition DELETE_OBJECT :: u16 where "DELETE_OBJECT = 0x100b"
definition MOVE_OBJECT :: u16 where "MOVE_OBJECT = 0x1019"
definition COPY_OBJECT :: u16 where "COPY_OBJECT = 0x101a"
definition GET_OBJECT_PROP_LIST :: u16 where "GET_OBJECT_PROP_LIST = 0x9805"
definition GET_OBJECT_PROPS_SUPPORTED :: u16 where "GET_OBJECT_PROPS_SUPPORTED = 0x9801"
definition SET_OBJECT_PROP_VALUE :: u16 where "SET_OBJECT_PROP_VALUE = 0x9804"
definition TRUNCATE_OBJECT :: u16 where "TRUNCATE_OBJECT = 0x101c"
definition BEGIN_EDIT_OBJECT :: u16 where "BEGIN_EDIT_OBJECT = 0x95c4"

lemmas op_codes =
  GET_DEVICE_INFO_def OPEN_SESSION_def CLOSE_SESSION_def GET_STORAGE_IDS_def
  GET_STORAGE_INFO_def GET_OBJECT_HANDLES_def GET_OBJECT_INFO_def GET_OBJECT_def
  GET_PARTIAL_OBJECT_def GET_PARTIAL_OBJECT_64_def SEND_PARTIAL_OBJECT_def
  SEND_OBJECT_INFO_def SEND_OBJECT_def DELETE_OBJECT_def MOVE_OBJECT_def COPY_OBJECT_def
  GET_OBJECT_PROP_LIST_def GET_OBJECT_PROPS_SUPPORTED_def SET_OBJECT_PROP_VALUE_def
  TRUNCATE_OBJECT_def BEGIN_EDIT_OBJECT_def

definition op_name :: "u16 \<Rightarrow> string" where
  "op_name code =
     (if code = GET_DEVICE_INFO then ''GetDeviceInfo''
      else if code = OPEN_SESSION then ''OpenSession''
      else if code = CLOSE_SESSION then ''CloseSession''
      else if code = GET_STORAGE_IDS then ''GetStorageIDs''
      else if code = GET_STORAGE_INFO then ''GetStorageInfo''
      else if code = 0x1006 then ''GetNumObjects''
      else if code = GET_OBJECT_HANDLES then ''GetObjectHandles''
      else if code = GET_OBJECT_INFO then ''GetObjectInfo''
      else if code = GET_OBJECT then ''GetObject''
      else if code = 0x100a then ''GetThumb''
      else if code = DELETE_OBJECT then ''DeleteObject''
      else if code = SEND_OBJECT_INFO then ''SendObjectInfo''
      else if code = SEND_OBJECT then ''SendObject''
      else if code = 0x1014 then ''GetDevicePropDesc''
      else if code = 0x1015 then ''GetDevicePropValue''
      else if code = 0x1016 then ''SetDevicePropValue''
      else if code = MOVE_OBJECT then ''MoveObject''
      else if code = COPY_OBJECT then ''CopyObject''
      else if code = GET_PARTIAL_OBJECT then ''GetPartialObject''
      else if code = TRUNCATE_OBJECT then ''TruncateObject''
      else if code = GET_OBJECT_PROPS_SUPPORTED then ''GetObjectPropsSupported''
      else if code = 0x9802 then ''GetObjectPropDesc''
      else if code = 0x9803 then ''GetObjectPropValue''
      else if code = SET_OBJECT_PROP_VALUE then ''SetObjectPropValue''
      else if code = GET_OBJECT_PROP_LIST then ''GetObjectPropList''
      else if code = 0x9806 then ''SetObjectPropList''
      else if code = 0x9808 then ''SendObjectPropList''
      else if code = 0x9810 then ''GetObjectReferences''
      else if code = 0x9811 then ''SetObjectReferences''
      else if code = GET_PARTIAL_OBJECT_64 then ''GetPartialObject64''
      else if code = SEND_PARTIAL_OBJECT then ''SendPartialObject''
      else if code = 0x95c3 then ''TruncateObject64''
      else if code = BEGIN_EDIT_OBJECT then ''BeginEditObject''
      else if code = 0x95c5 then ''EndEditObject''
      else ''unknown'')"

definition RESP_OK :: u16 where "RESP_OK = 0x2001"
definition RESP_SESSION_ALREADY_OPEN :: u16 where "RESP_SESSION_ALREADY_OPEN = 0x201e"
definition RESP_SESSION_NOT_OPEN :: u16 where "RESP_SESSION_NOT_OPEN = 0x2003"
definition RESP_OPERATION_NOT_SUPPORTED :: u16 where "RESP_OPERATION_NOT_SUPPORTED = 0x2005"
definition RESP_STORE_FULL :: u16 where "RESP_STORE_FULL = 0x200d"
definition RESP_INVALID_OBJECT_HANDLE :: u16 where "RESP_INVALID_OBJECT_HANDLE = 0x2009"

lemmas resp_codes =
  RESP_OK_def RESP_SESSION_ALREADY_OPEN_def RESP_SESSION_NOT_OPEN_def
  RESP_OPERATION_NOT_SUPPORTED_def RESP_STORE_FULL_def RESP_INVALID_OBJECT_HANDLE_def

definition resp_name :: "u16 \<Rightarrow> string" where
  "resp_name code =
     (if code = RESP_OK then ''OK''
      else if code = 0x2002 then ''General error''
      else if code = RESP_SESSION_NOT_OPEN then ''Session not open''
      else if code = 0x2004 then ''Invalid transaction id''
      else if code = RESP_OPERATION_NOT_SUPPORTED then ''Operation not supported''
      else if code = 0x2006 then ''Parameter not supported''
      else if code = 0x2007 then ''Incomplete transfer''
      else if code = 0x2008 then ''Invalid storage id''
      else if code = RESP_INVALID_OBJECT_HANDLE then ''Invalid object handle''
      else if code = RESP_STORE_FULL then ''Store full''
      else if code = 0x2013 then ''Store not available''
      else if code = 0x200a then ''Object write protected''
      else if code = 0x200f then ''Access denied''
      else if code = RESP_SESSION_ALREADY_OPEN then ''Session already open''
      else if code = 0x201f then ''Transaction cancelled''
      else ''unknown'')"

section \<open>StorageInfo\<close>

record storage_info =
  si_storage_type :: u16
  si_filesystem_type :: u16
  si_access_capability :: u16
  si_max_capacity :: u64
  si_free_space_in_bytes :: u64
  si_free_space_in_objects :: u32
  si_storage_description :: ustring
  si_volume_identifier :: ustring

definition storage_info_rd :: "storage_info reading" where
  "storage_info_rd =
     and_then (read_u16 ''storage_type'') (\<lambda>storage_type.
     and_then (read_u16 ''filesystem_type'') (\<lambda>filesystem_type.
     and_then (read_u16 ''access_capability'') (\<lambda>access_capability.
     and_then (read_u64 ''max_capacity'') (\<lambda>max_capacity.
     and_then (read_u64 ''free_space_in_bytes'') (\<lambda>free_space_in_bytes.
     and_then (read_u32 ''free_space_in_objects'') (\<lambda>free_space_in_objects.
     and_then (read_string ''storage_description'') (\<lambda>storage_description.
     and_then (read_string ''volume_identifier'') (\<lambda>volume_identifier.
     ok \<lparr>si_storage_type = storage_type, si_filesystem_type = filesystem_type,
         si_access_capability = access_capability, si_max_capacity = max_capacity,
         si_free_space_in_bytes = free_space_in_bytes,
         si_free_space_in_objects = free_space_in_objects,
         si_storage_description = storage_description,
         si_volume_identifier = volume_identifier\<rparr>))))))))"

definition storage_info_parse :: "bytes \<Rightarrow> parse_error + storage_info" where
  "storage_info_parse payload = fst (storage_info_rd (new_reader payload))"

section \<open>ObjectInfo\<close>

record object_info =
  oi_storage_id :: u32
  oi_object_format :: u16
  oi_protection_status :: u16
  oi_compressed_size :: u32
  oi_image_pix_width :: u32
  oi_image_pix_height :: u32
  oi_parent_object :: u32
  oi_association_type :: u16
  oi_filename :: ustring
  oi_capture_date :: ustring
  oi_modification_date :: ustring

definition object_info_is_folder :: "object_info \<Rightarrow> bool" where
  "object_info_is_folder o' \<longleftrightarrow> oi_object_format o' = FORMAT_ASSOCIATION"

definition build_for_send :: "u32 \<Rightarrow> u32 \<Rightarrow> ustring \<Rightarrow> u32 \<Rightarrow> bool \<Rightarrow> bytes" where
  "build_for_send storage_id parent name sz is_folder =
     (let format = (if is_folder then FORMAT_ASSOCIATION else FORMAT_UNDEFINED);
          association = (if is_folder then 1 else 0);
          out = u32_to_le_bytes storage_id @ u16_to_le_bytes format @ u16_to_le_bytes 0
                @ u32_to_le_bytes sz
                @ u16_to_le_bytes 0 @ u32_to_le_bytes 0 @ u32_to_le_bytes 0 @ u32_to_le_bytes 0
                @ u32_to_le_bytes 0 @ u32_to_le_bytes 0 @ u32_to_le_bytes 0
                @ u32_to_le_bytes parent @ u16_to_le_bytes association
                @ u32_to_le_bytes 0 @ u32_to_le_bytes 0
      in push_string (push_string (push_string (push_string out name) []) []) [])"

definition object_info_rd :: "object_info reading" where
  "object_info_rd =
     and_then (read_u32 ''storage_id'') (\<lambda>storage_id.
     and_then (read_u16 ''object_format'') (\<lambda>object_format.
     and_then (read_u16 ''protection_status'') (\<lambda>protection_status.
     and_then (read_u32 ''compressed_size'') (\<lambda>compressed_size.
     and_then (read_u16 ''thumb_format'') (\<lambda>_.
     and_then (read_u32 ''thumb_compressed_size'') (\<lambda>_.
     and_then (read_u32 ''thumb_pix_width'') (\<lambda>_.
     and_then (read_u32 ''thumb_pix_height'') (\<lambda>_.
     and_then (read_u32 ''image_pix_width'') (\<lambda>image_pix_width.
     and_then (read_u32 ''image_pix_height'') (\<lambda>image_pix_height.
     and_then (read_u32 ''image_bit_depth'') (\<lambda>_.
     and_then (read_u32 ''parent_object'') (\<lambda>parent_object.
     and_then (read_u16 ''association_type'') (\<lambda>association_type.
     and_then (read_u32 ''association_desc'') (\<lambda>_.
     and_then (read_u32 ''sequence_number'') (\<lambda>_.
     and_then (read_string ''filename'') (\<lambda>filename.
     and_then (unwrap_or [] (read_string ''capture_date'')) (\<lambda>capture_date.
     and_then (unwrap_or [] (read_string ''modification_date'')) (\<lambda>modification_date.
     ok \<lparr>oi_storage_id = storage_id, oi_object_format = object_format,
         oi_protection_status = protection_status, oi_compressed_size = compressed_size,
         oi_image_pix_width = image_pix_width, oi_image_pix_height = image_pix_height,
         oi_parent_object = parent_object, oi_association_type = association_type,
         oi_filename = filename, oi_capture_date = capture_date,
         oi_modification_date = modification_date\<rparr>))))))))))))))))))"

definition object_info_parse :: "bytes \<Rightarrow> parse_error + object_info" where
  "object_info_parse payload = fst (object_info_rd (new_reader payload))"

section \<open>DeviceInfo\<close>

record device_info =
  di_standard_version :: u16
  di_vendor_extension_id :: u32
  di_vendor_extension_version :: u16
  di_vendor_extension_desc :: ustring
  di_operations_supported :: "u16 list"
  di_events_supported :: "u16 list"
  di_device_properties_supported :: "u16 list"
  di_capture_formats :: "u16 list"
  di_image_formats :: "u16 list"
  di_manufacturer :: ustring
  di_model :: ustring
  di_device_version :: ustring
  di_serial_number :: ustring

definition device_info_default :: device_info where
  "device_info_default =
     \<lparr>di_standard_version = 0, di_vendor_extension_id = 0, di_vendor_extension_version = 0,
      di_vendor_extension_desc = [], di_operations_supported = [], di_events_supported = [],
      di_device_properties_supported = [], di_capture_formats = [], di_image_formats = [],
      di_manufacturer = [], di_model = [], di_device_version = [], di_serial_number = []\<rparr>"

definition supports :: "device_info \<Rightarrow> u16 \<Rightarrow> bool" where
  "supports d code \<longleftrightarrow> code \<in> set (di_operations_supported d)"

definition can_read_part :: "device_info \<Rightarrow> bool" where
  "can_read_part d \<longleftrightarrow> supports d GET_PARTIAL_OBJECT \<or> supports d GET_PARTIAL_OBJECT_64"

definition can_write :: "device_info \<Rightarrow> bool" where
  "can_write d \<longleftrightarrow> supports d SEND_OBJECT_INFO \<and> supports d SEND_OBJECT"

definition can_delete :: "device_info \<Rightarrow> bool" where
  "can_delete d \<longleftrightarrow> supports d DELETE_OBJECT"

definition has_fast_listing :: "device_info \<Rightarrow> bool" where
  "has_fast_listing d \<longleftrightarrow> supports d GET_OBJECT_PROP_LIST"

definition device_info_rd :: "device_info reading" where
  "device_info_rd =
     and_then (read_u16 ''standard_version'') (\<lambda>standard_version.
     and_then (read_u32 ''vendor_extension_id'') (\<lambda>vendor_extension_id.
     and_then (read_u16 ''vendor_extension_version'') (\<lambda>vendor_extension_version.
     and_then (read_string ''vendor_extension_desc'') (\<lambda>vendor_extension_desc.
     and_then (read_u16 ''functional_mode'') (\<lambda>_.
     and_then (read_u16_array ''operations_supported'') (\<lambda>operations_supported.
     and_then (read_u16_array ''events_supported'') (\<lambda>events_supported.
     and_then (read_u16_array ''device_properties_supported'') (\<lambda>device_properties_supported.
     and_then (read_u16_array ''capture_formats'') (\<lambda>capture_formats.
     and_then (read_u16_array ''image_formats'') (\<lambda>image_formats.
     and_then (unwrap_or [] (read_string ''manufacturer'')) (\<lambda>manufacturer.
     and_then (unwrap_or [] (read_string ''model'')) (\<lambda>model.
     and_then (unwrap_or [] (read_string ''device_version'')) (\<lambda>device_version.
     and_then (unwrap_or [] (read_string ''serial_number'')) (\<lambda>serial_number.
     ok \<lparr>di_standard_version = standard_version, di_vendor_extension_id = vendor_extension_id,
         di_vendor_extension_version = vendor_extension_version,
         di_vendor_extension_desc = vendor_extension_desc,
         di_operations_supported = operations_supported, di_events_supported = events_supported,
         di_device_properties_supported = device_properties_supported,
         di_capture_formats = capture_formats, di_image_formats = image_formats,
         di_manufacturer = manufacturer, di_model = model, di_device_version = device_version,
         di_serial_number = serial_number\<rparr>))))))))))))))"

definition device_info_parse :: "bytes \<Rightarrow> parse_error + device_info" where
  "device_info_parse payload = fst (device_info_rd (new_reader payload))"

section \<open>Lemmas\<close>

lemmas reads_chain = reads_and_then reads_u8 reads_u16 reads_u32 reads_u64 reads_ok reads_unwrap_or

lemma keeps_storage_info_rd: "keeps cursor_step storage_info_rd"
  unfolding storage_info_rd_def by (intro cursor.keeps_intros keeps_reads)

lemma keeps_object_info_rd: "keeps cursor_step object_info_rd"
  unfolding object_info_rd_def by (intro cursor.keeps_intros keeps_reads)

lemma keeps_u16_array: "keeps cursor_step (read_u16_array f)"
  unfolding read_u16_array_def by (intro keeps_reads)

lemma keeps_device_info_rd: "keeps cursor_step device_info_rd"
  unfolding device_info_rd_def by (intro cursor.keeps_intros keeps_reads keeps_u16_array)

lemma wire_string_Nil [simp]: "wire_string [] = []"
  by (simp add: wire_string_def)

text \<open>
  The parse of \<open>ObjectInfo\<close> reads the dataset \<open>build_for_send\<close> makes up to the three strings it
  looks at, and ignores whatever follows.
\<close>

lemma reads_object_info:
  assumes "valid_ustring name"
  shows "reads object_info_rd
    (u32_to_le_bytes storage_id @ u16_to_le_bytes format @ u16_to_le_bytes protection
      @ u32_to_le_bytes sz @ u16_to_le_bytes tf @ u32_to_le_bytes ts @ u32_to_le_bytes tw
      @ u32_to_le_bytes th @ u32_to_le_bytes iw @ u32_to_le_bytes ih @ u32_to_le_bytes bd
      @ u32_to_le_bytes parent @ u16_to_le_bytes association @ u32_to_le_bytes ad
      @ u32_to_le_bytes sn @ push_string [] name @ push_string [] [] @ push_string [] [] @ [])
    \<lparr>oi_storage_id = storage_id, oi_object_format = format, oi_protection_status = protection,
     oi_compressed_size = sz, oi_image_pix_width = iw, oi_image_pix_height = ih,
     oi_parent_object = parent, oi_association_type = association,
     oi_filename = wire_string name, oi_capture_date = wire_string [],
     oi_modification_date = wire_string []\<rparr>"
  unfolding object_info_rd_def
  by (rule reads_chain reads_string assms valid_ustring_simps)+

lemma build_for_send_layout:
  "build_for_send storage_id parent name sz is_folder =
    u32_to_le_bytes storage_id
      @ u16_to_le_bytes (if is_folder then FORMAT_ASSOCIATION else FORMAT_UNDEFINED)
      @ u16_to_le_bytes 0 @ u32_to_le_bytes sz @ u16_to_le_bytes 0 @ u32_to_le_bytes 0
      @ u32_to_le_bytes 0 @ u32_to_le_bytes 0 @ u32_to_le_bytes 0 @ u32_to_le_bytes 0
      @ u32_to_le_bytes 0 @ u32_to_le_bytes parent
      @ u16_to_le_bytes (if is_folder then 1 else 0) @ u32_to_le_bytes 0 @ u32_to_le_bytes 0
      @ push_string [] name @ push_string [] [] @ push_string [] [] @ push_string [] []"
  unfolding build_for_send_def Let_def
  by (simp only: push_string_append [of "_ @ _"] push_string_append [of "push_string _ _"] append_assoc)

text \<open>The layout of the two datasets the host only reads.\<close>

definition storage_info_bytes :: "storage_info \<Rightarrow> bytes" where
  "storage_info_bytes s =
     u16_to_le_bytes (si_storage_type s) @ u16_to_le_bytes (si_filesystem_type s)
     @ u16_to_le_bytes (si_access_capability s) @ u64_to_le_bytes (si_max_capacity s)
     @ u64_to_le_bytes (si_free_space_in_bytes s) @ u32_to_le_bytes (si_free_space_in_objects s)
     @ push_string [] (si_storage_description s) @ push_string [] (si_volume_identifier s) @ []"

lemma reads_storage_info:
  assumes "valid_ustring (si_storage_description s)" "valid_ustring (si_volume_identifier s)"
  shows "reads storage_info_rd (storage_info_bytes s)
    (s\<lparr>si_storage_description := wire_string (si_storage_description s),
       si_volume_identifier := wire_string (si_volume_identifier s)\<rparr>)"
  unfolding storage_info_rd_def storage_info_bytes_def
  using assms
  by (cases s, simp only: storage_info.simps storage_info.update_convs)
     ((rule reads_chain reads_string | assumption)+)

definition u16_array_bytes :: "u16 list \<Rightarrow> bytes" where
  "u16_array_bytes xs = u32_to_le_bytes (word_of_nat (length xs)) @ concat (map u16_to_le_bytes xs)"

lemma reads_u16_array:
  "length xs < 2 ^ 32 \<Longrightarrow> reads (read_u16_array f) (u16_array_bytes xs) xs"
  using u16.reads_array [of xs f]
  by (simp add: read_u16_array_def u16_array_bytes_def list_all_iff)

definition device_info_head :: "device_info \<Rightarrow> u16 \<Rightarrow> bytes" where
  "device_info_head d mode =
     u16_to_le_bytes (di_standard_version d) @ u32_to_le_bytes (di_vendor_extension_id d)
     @ u16_to_le_bytes (di_vendor_extension_version d) @ push_string [] (di_vendor_extension_desc d)
     @ u16_to_le_bytes mode @ u16_array_bytes (di_operations_supported d)
     @ u16_array_bytes (di_events_supported d)
     @ u16_array_bytes (di_device_properties_supported d)
     @ u16_array_bytes (di_capture_formats d) @ u16_array_bytes (di_image_formats d)"

text \<open>
  A device may stop the dataset after any of the last four strings. \<open>reads_end\<close> is \<open>reads\<close> at
  the end of the buffer, where a string that is absent reads as the default.
\<close>

definition reads_end :: "'a reading \<Rightarrow> bytes \<Rightarrow> 'a \<Rightarrow> bool" where
  "reads_end m bs x \<longleftrightarrow>
     (\<forall>pre. m \<lparr>rd_buf = pre @ bs, rd_pos = length pre\<rparr>
        = (Inr x, \<lparr>rd_buf = pre @ bs, rd_pos = length pre + length bs\<rparr>))"

lemma reads_end_of_reads: "reads m bs x \<Longrightarrow> reads_end m bs x"
  unfolding reads_end_def
proof
  fix pre
  assume "reads m bs x"
  from readsD [OF this, of pre "[]"]
  show "m \<lparr>rd_buf = pre @ bs, rd_pos = length pre\<rparr>
        = (Inr x, \<lparr>rd_buf = pre @ bs, rd_pos = length pre + length bs\<rparr>)" by simp
qed

lemma reads_end_and_then:
  assumes "reads m bs x" and "reads_end (f x) cs y"
  shows "reads_end (and_then m f) (bs @ cs) y"
  unfolding reads_end_def
proof
  fix pre
  have "m \<lparr>rd_buf = pre @ bs @ cs, rd_pos = length pre\<rparr>
     = (Inr x, \<lparr>rd_buf = pre @ bs @ cs, rd_pos = length pre + length bs\<rparr>)"
    using assms(1) by (rule readsD)
  moreover have "f x \<lparr>rd_buf = (pre @ bs) @ cs, rd_pos = length (pre @ bs)\<rparr>
     = (Inr y, \<lparr>rd_buf = (pre @ bs) @ cs, rd_pos = length (pre @ bs) + length cs\<rparr>)"
    using assms(2) unfolding reads_end_def by blast
  ultimately show "and_then m f \<lparr>rd_buf = pre @ bs @ cs, rd_pos = length pre\<rparr>
     = (Inr y, \<lparr>rd_buf = pre @ bs @ cs, rd_pos = length pre + length (bs @ cs)\<rparr>)"
    by (simp add: add.assoc)
qed

lemma absent_string: "rd_pos r = length (rd_buf r) \<Longrightarrow> unwrap_or d (read_string f) r = (Inr d, r)"
  by (simp add: unwrap_or_def read_string_def read_u8_def and_then_def take_bytes_def remaining_def)

lemma reads_end_absent:
  assumes "reads_end (g d) [] y"
  shows "reads_end (and_then (unwrap_or d (read_string f)) g) [] y"
  using assms by (simp add: reads_end_def and_then_def absent_string)

lemma reads_end_ok: "reads_end (ok x) [] x"
  by (rule reads_end_of_reads) (rule reads_ok)

lemmas device_info_field =
  reads_end_and_then [OF reads_u16] reads_end_and_then [OF reads_u32]
  reads_end_and_then [OF reads_string] reads_end_and_then [OF reads_u16_array]
  reads_end_and_then [OF reads_unwrap_or [OF reads_string]]
  reads_end_absent reads_end_ok

definition device_info_ok :: "device_info \<Rightarrow> bool" where
  "device_info_ok d \<longleftrightarrow>
     (\<forall>s \<in> {di_vendor_extension_desc d, di_manufacturer d, di_model d, di_device_version d,
            di_serial_number d}. valid_ustring s) \<and>
     (\<forall>xs \<in> {di_operations_supported d, di_events_supported d, di_device_properties_supported d,
            di_capture_formats d, di_image_formats d}. length xs < 2 ^ 32)"

definition device_info_bytes :: "device_info \<Rightarrow> u16 \<Rightarrow> nat \<Rightarrow> bytes" where
  "device_info_bytes d mode k =
     device_info_head d mode
     @ concat (map (push_string [])
         (take k [di_manufacturer d, di_model d, di_device_version d, di_serial_number d]))"

definition device_info_cut :: "device_info \<Rightarrow> nat \<Rightarrow> device_info" where
  "device_info_cut d k =
     d\<lparr>di_vendor_extension_desc := wire_string (di_vendor_extension_desc d),
       di_manufacturer := (if 0 < k then wire_string (di_manufacturer d) else []),
       di_model := (if 1 < k then wire_string (di_model d) else []),
       di_device_version := (if 2 < k then wire_string (di_device_version d) else []),
       di_serial_number := (if 3 < k then wire_string (di_serial_number d) else [])\<rparr>"

lemma reads_device_info:
  assumes "device_info_ok d"
  shows "reads_end device_info_rd (device_info_bytes d mode k) (device_info_cut d k)"
proof -
  from assms have v: "valid_ustring (di_vendor_extension_desc d)"
    "valid_ustring (di_manufacturer d)" "valid_ustring (di_model d)"
    "valid_ustring (di_device_version d)" "valid_ustring (di_serial_number d)"
    "length (di_operations_supported d) < 2 ^ 32" "length (di_events_supported d) < 2 ^ 32"
    "length (di_device_properties_supported d) < 2 ^ 32"
    "length (di_capture_formats d) < 2 ^ 32" "length (di_image_formats d) < 2 ^ 32"
    by (auto simp: device_info_ok_def)
  let ?strings = "[di_manufacturer d, di_model d, di_device_version d, di_serial_number d]"
  let ?rec = "\<lambda>m mo ve se. \<lparr>di_standard_version = di_standard_version d,
      di_vendor_extension_id = di_vendor_extension_id d,
      di_vendor_extension_version = di_vendor_extension_version d,
      di_vendor_extension_desc = wire_string (di_vendor_extension_desc d),
      di_operations_supported = di_operations_supported d,
      di_events_supported = di_events_supported d,
      di_device_properties_supported = di_device_properties_supported d,
      di_capture_formats = di_capture_formats d, di_image_formats = di_image_formats d,
      di_manufacturer = m, di_model = mo, di_device_version = ve, di_serial_number = se\<rparr>"
  have run: "reads_end device_info_rd (device_info_bytes d mode k) (device_info_cut d k)"
    if cut: "device_info_cut d k = r"
      and tail: "concat (map (push_string []) (take k ?strings)) = t"
      and main: "reads_end device_info_rd (device_info_head d mode @ t) r" for r t
    using main unfolding device_info_bytes_def tail cut .
  have cut: "device_info_cut d k = ?rec (if 0 < k then wire_string (di_manufacturer d) else [])
      (if 1 < k then wire_string (di_model d) else [])
      (if 2 < k then wire_string (di_device_version d) else [])
      (if 3 < k then wire_string (di_serial_number d) else [])"
    by (cases d) (simp add: device_info_cut_def)
  let ?w = "\<lambda>x. wire_string x" and ?p = "push_string []"
  consider "k = 0" | "k = 1" | "k = 2" | "k = 3" | "3 < k" by linarith
  then show ?thesis
  proof cases
    case 1
    show ?thesis
      by (rule run [of "?rec [] [] [] []" "[]"])
         (simp only: cut, simp add: 1, simp add: 1, simp only: device_info_head_def device_info_rd_def append_assoc,
          (rule device_info_field v)+)
  next
    case 2
    show ?thesis
      by (rule run [of "?rec (?w (di_manufacturer d)) [] [] []" "?p (di_manufacturer d) @ []"])
         (simp only: cut, simp add: 2, simp add: 2, simp only: device_info_head_def device_info_rd_def append_assoc,
          (rule device_info_field v)+)
  next
    case 3
    show ?thesis
      by (rule run [of "?rec (?w (di_manufacturer d)) (?w (di_model d)) [] []"
              "?p (di_manufacturer d) @ ?p (di_model d) @ []"])
         (simp only: cut, simp add: 3, simp add: 3, simp only: device_info_head_def device_info_rd_def append_assoc,
          (rule device_info_field v)+)
  next
    case 4
    show ?thesis
      by (rule run [of "?rec (?w (di_manufacturer d)) (?w (di_model d)) (?w (di_device_version d)) []"
              "?p (di_manufacturer d) @ ?p (di_model d) @ ?p (di_device_version d) @ []"])
         (simp only: cut, simp add: 4, simp add: 4, simp only: device_info_head_def device_info_rd_def append_assoc,
          (rule device_info_field v)+)
  next
    case 5
    show ?thesis
      by (rule run [of "?rec (?w (di_manufacturer d)) (?w (di_model d)) (?w (di_device_version d))
              (?w (di_serial_number d))"
              "?p (di_manufacturer d) @ ?p (di_model d) @ ?p (di_device_version d)
                @ ?p (di_serial_number d) @ []"])
         (use 5 in \<open>simp add: cut\<close>, use 5 in simp,
          simp only: device_info_head_def device_info_rd_def append_assoc,
          (rule device_info_field v)+)
  qed
qed

text \<open>The array of \<open>u32\<close>, in full.\<close>

lemma take_bytes_ok: "n \<le> remaining r \<Longrightarrow>
    take_bytes n f r = (Inr (take n (drop (rd_pos r) (rd_buf r))), r\<lparr>rd_pos := rd_pos r + n\<rparr>)"
  by (simp add: take_bytes_def)

lemma list_of_four: "length xs = 4 \<Longrightarrow> [xs ! 0, xs ! 1, xs ! 2, xs ! 3] = (xs :: 'a list)"
  by (intro nth_equalityI) (auto simp: less_Suc_eq numeral_eq_Suc)

lemma read_u32_ok:
  assumes "4 \<le> remaining r"
  shows "read_u32 f r = (Inr (u32_from_le_bytes (take 4 (drop (rd_pos r) (rd_buf r)))),
     r\<lparr>rd_pos := rd_pos r + 4\<rparr>)"
proof -
  let ?b = "take 4 (drop (rd_pos r) (rd_buf r))"
  have "length ?b = 4" using assms by (simp add: remaining_def)
  then have "[?b ! 0, ?b ! 1, ?b ! 2, ?b ! 3] = ?b" by (rule list_of_four)
  then show ?thesis using assms by (simp only: read_u32_def take_bytes_ok and_then_Inr ok_apply)
qed

lemma u32_chunks_step:
  assumes "4 \<le> length bs"
  shows "u32_chunks bs = u32_from_le_bytes (take 4 bs) # u32_chunks (drop 4 bs)"
proof -
  from assms obtain a b c d cs where "bs = a # b # c # d # cs"
    by (auto simp: numeral_eq_Suc Suc_le_length_iff)
  then show ?thesis by simp
qed

lemma read_n_u32:
  "4 * k \<le> remaining r \<Longrightarrow> read_n k (read_u32 f) r
     = (Inr (u32_chunks (take (4 * k) (drop (rd_pos r) (rd_buf r)))), r\<lparr>rd_pos := rd_pos r + 4 * k\<rparr>)"
proof (induction k arbitrary: r)
  case 0
  then show ?case by simp
next
  case (Suc k)
  let ?r = "r\<lparr>rd_pos := rd_pos r + 4\<rparr>" and ?bs = "take (4 * Suc k) (drop (rd_pos r) (rd_buf r))"
  from Suc.prems have "4 \<le> remaining r" "4 * k \<le> remaining ?r"
    by (simp_all add: remaining_def)
  moreover have "u32_chunks ?bs = u32_from_le_bytes (take 4 (drop (rd_pos r) (rd_buf r)))
      # u32_chunks (take (4 * k) (drop (rd_pos ?r) (rd_buf ?r)))"
    using Suc.prems by (subst u32_chunks_step) (simp_all add: remaining_def drop_take add.commute)
  ultimately show ?case
    by (simp add: read_u32_ok Suc.IH add.assoc)
qed

text \<open>
  An array of handles reads as its first \<open>count\<close> elements when they are all there, and as a
  fault that names what is missing otherwise; no other fault can arise, the multiplication of the
  count included.
\<close>

theorem parse_u32_array_eq:
  "parse_u32_array data =
     (if length data < 4 then Inl (Truncated ''array'' 4 (length data))
      else let count = unat (u32_from_le_bytes (take 4 data)) in
        if length data - 4 < 4 * count then Inl (Truncated ''array'' (4 * count) (length data - 4))
        else Inr (u32_chunks (take (4 * count) (drop 4 data))))"
proof (cases "length data < 4")
  case True
  then show ?thesis
    by (simp add: parse_u32_array_def read_u32_array_def read_array_def read_u32_def
        new_reader_def take_bytes_def remaining_def and_then_def)
next
  case False
  let ?c = "u32_from_le_bytes (take 4 data)"
  have r: "read_u32 ''array'' (new_reader data) = (Inr ?c, \<lparr>rd_buf = data, rd_pos = 4\<rparr>)"
    using False by (subst read_u32_ok) (simp_all add: new_reader_def remaining_def)
  have small: "\<not> usize_max < unat ?c * 4"
    using unsigned_less [of ?c, where ?'a = nat] by (simp add: usize_max_def del: unat_u32_bound)
  show ?thesis
    using False small
    by (simp add: parse_u32_array_def read_u32_array_def read_array_def r Let_def remaining_def
        read_n_u32 mult.commute)
qed

section \<open>Properties\<close>

lemma build_for_send_parses:
  assumes "valid_ustring name"
  shows "object_info_parse (build_for_send storage parent name sz folder) =
    Inr \<lparr>oi_storage_id = storage,
         oi_object_format = (if folder then FORMAT_ASSOCIATION else FORMAT_UNDEFINED),
         oi_protection_status = 0, oi_compressed_size = sz, oi_image_pix_width = 0,
         oi_image_pix_height = 0, oi_parent_object = parent,
         oi_association_type = (if folder then 1 else 0), oi_filename = wire_string name,
         oi_capture_date = [], oi_modification_date = []\<rparr>"
proof -
  have "build_for_send storage parent name sz folder =
      (u32_to_le_bytes storage
      @ u16_to_le_bytes (if folder then FORMAT_ASSOCIATION else FORMAT_UNDEFINED)
      @ u16_to_le_bytes 0 @ u32_to_le_bytes sz @ u16_to_le_bytes 0 @ u32_to_le_bytes 0
      @ u32_to_le_bytes 0 @ u32_to_le_bytes 0 @ u32_to_le_bytes 0 @ u32_to_le_bytes 0
      @ u32_to_le_bytes 0 @ u32_to_le_bytes parent
      @ u16_to_le_bytes (if folder then 1 else 0) @ u32_to_le_bytes 0 @ u32_to_le_bytes 0
      @ push_string [] name @ push_string [] [] @ push_string [] [] @ []) @ push_string [] []"
    by (simp add: build_for_send_layout)
  then show ?thesis
    using reads_new [OF reads_object_info [OF assms]] by (simp add: object_info_parse_def)
qed

text \<open>
  C35: the dataset \<open>build_for_send\<close> writes is the object \<open>parse\<close> reads: the storage, the parent,
  the size, the format and the association of a folder or of a file, and the name, cut at the
  254 units a PTP string can hold.
\<close>

theorem object_info_round_trip:
  assumes "valid_ustring name"
  shows "object_info_parse (build_for_send storage parent name sz folder) =
    Inr \<lparr>oi_storage_id = storage,
         oi_object_format = (if folder then FORMAT_ASSOCIATION else FORMAT_UNDEFINED),
         oi_protection_status = 0, oi_compressed_size = sz, oi_image_pix_width = 0,
         oi_image_pix_height = 0, oi_parent_object = parent,
         oi_association_type = (if folder then 1 else 0), oi_filename = wire_string name,
         oi_capture_date = [], oi_modification_date = []\<rparr>"
  using assms by (rule build_for_send_parses)

lemma object_info_round_trip_witness:
  "object_info_parse (build_for_send 0x10001 5 [0x61, 0x1F600] 700 False) =
    Inr \<lparr>oi_storage_id = 0x10001, oi_object_format = 0x3000, oi_protection_status = 0,
         oi_compressed_size = 700, oi_image_pix_width = 0, oi_image_pix_height = 0,
         oi_parent_object = 5, oi_association_type = 0, oi_filename = [0x61, 0x1F600],
         oi_capture_date = [], oi_modification_date = []\<rparr>"
proof -
  have "valid_ustring [0x61, 0x1F600]" by (simp add: valid_ustring_def is_scalar_def)
  moreover have "wire_string [0x61, 0x1F600] = [0x61, 0x1F600]"
    by (simp add: wire_string_def fit_utf16_all utf16_units_def)
  ultimately show ?thesis
    using object_info_round_trip [of "[0x61, 0x1F600]" "0x10001" 5 700 False]
    by (simp add: FORMAT_UNDEFINED_def)
qed

text \<open>
  C36: a \<open>DeviceInfo\<close> dataset reads back what the device put in it, and a device that stops the
  dataset after any of the four strings at its end is read all the same, with the strings it
  left out empty.
\<close>

theorem device_info_round_trip:
  assumes "device_info_ok d"
  shows "device_info_parse (device_info_bytes d mode k) = Inr (device_info_cut d k)"
  using reads_device_info [OF assms, of mode k, unfolded reads_end_def, THEN spec, of "[]"]
  by (simp add: device_info_parse_def new_reader_def)

lemma device_info_round_trip_witness:
  "device_info_parse (device_info_bytes
      (device_info_default\<lparr>di_operations_supported := [0x1001, 0x95c1], di_manufacturer := lit ''samsung'',
        di_model := lit ''SM''\<rparr>) 0 1)
    = Inr (device_info_default\<lparr>di_operations_supported := [0x1001, 0x95c1],
        di_manufacturer := lit ''samsung''\<rparr>)"
proof -
  let ?d = "device_info_default\<lparr>di_operations_supported := [0x1001, 0x95c1],
    di_manufacturer := lit ''samsung'', di_model := lit ''SM''\<rparr>"
  have "device_info_ok ?d"
    by (simp add: device_info_ok_def device_info_default_def lit_def valid_ustring_def is_scalar_def)
  moreover have "wire_string (lit ''samsung'') = lit ''samsung''"
    by (simp add: wire_string_def fit_utf16_all lit_def utf16_units_def)
  ultimately show ?thesis
    using device_info_round_trip [of ?d 0 1] by (simp add: device_info_cut_def device_info_default_def)
qed

end
