(* ===== verification/Ptp_PropList.thy ===== *)
theory Ptp_PropList
  imports Ptp_Datasets
begin

text \<open>
  The fast folder listing of \<open>crates/ptp-proto/src/lib.rs\<close>: the parse of an \<open>ObjectPropList\<close>
  dataset into entries and the fold of the entries into one record for each object. The fold
  is refined from a specification that groups the entries by object, and the parse reads back
  what the layout of the dataset writes.
\<close>

definition PROP_STORAGE_ID :: u16 where "PROP_STORAGE_ID = 0xdc01"
definition PROP_OBJECT_FORMAT :: u16 where "PROP_OBJECT_FORMAT = 0xdc02"
definition PROP_OBJECT_SIZE :: u16 where "PROP_OBJECT_SIZE = 0xdc04"
definition PROP_OBJECT_FILE_NAME :: u16 where "PROP_OBJECT_FILE_NAME = 0xdc07"
definition PROP_PARENT_OBJECT :: u16 where "PROP_PARENT_OBJECT = 0xdc0b"

lemmas prop_codes = PROP_STORAGE_ID_def PROP_OBJECT_FORMAT_def PROP_OBJECT_SIZE_def
  PROP_OBJECT_FILE_NAME_def PROP_PARENT_OBJECT_def

definition TYPE_INT8 :: u16 where "TYPE_INT8 = 0x0001"
definition TYPE_UINT8 :: u16 where "TYPE_UINT8 = 0x0002"
definition TYPE_INT16 :: u16 where "TYPE_INT16 = 0x0003"
definition TYPE_UINT16 :: u16 where "TYPE_UINT16 = 0x0004"
definition TYPE_INT32 :: u16 where "TYPE_INT32 = 0x0005"
definition TYPE_UINT32 :: u16 where "TYPE_UINT32 = 0x0006"
definition TYPE_INT64 :: u16 where "TYPE_INT64 = 0x0007"
definition TYPE_UINT64 :: u16 where "TYPE_UINT64 = 0x0008"
definition TYPE_INT128 :: u16 where "TYPE_INT128 = 0x0009"
definition TYPE_UINT128 :: u16 where "TYPE_UINT128 = 0x000a"
definition TYPE_STR :: u16 where "TYPE_STR = 0xffff"

lemmas type_codes = TYPE_INT8_def TYPE_UINT8_def TYPE_INT16_def TYPE_UINT16_def TYPE_INT32_def
  TYPE_UINT32_def TYPE_INT64_def TYPE_UINT64_def TYPE_INT128_def TYPE_UINT128_def TYPE_STR_def

datatype prop_value = Number u64 | Text ustring | Wide

record prop_entry =
  pe_handle :: u32
  pe_code :: u16
  pe_value :: prop_value

record prop_record =
  pr_handle :: u32
  pr_name :: ustring
  pr_size :: u64
  pr_format :: u16
  pr_parent :: u32
  pr_storage :: u32

definition prop_record_default :: "u32 \<Rightarrow> prop_record" where
  "prop_record_default h =
     \<lparr>pr_handle = h, pr_name = [], pr_size = 0, pr_format = 0, pr_parent = 0, pr_storage = 0\<rparr>"

definition prop_record_is_folder :: "prop_record \<Rightarrow> bool" where
  "prop_record_is_folder r \<longleftrightarrow> pr_format r = FORMAT_ASSOCIATION"

section \<open>The parse\<close>

definition prop_value_rd :: "u16 \<Rightarrow> prop_value reading" where
  "prop_value_rd kind =
     (if kind = TYPE_INT8 \<or> kind = TYPE_UINT8 then
        and_then (read_u8 ''prop_u8'') (\<lambda>v. ok (Number (ucast v)))
      else if kind = TYPE_INT16 \<or> kind = TYPE_UINT16 then
        and_then (read_u16 ''prop_u16'') (\<lambda>v. ok (Number (ucast v)))
      else if kind = TYPE_INT32 \<or> kind = TYPE_UINT32 then
        and_then (read_u32 ''prop_u32'') (\<lambda>v. ok (Number (ucast v)))
      else if kind = TYPE_INT64 \<or> kind = TYPE_UINT64 then
        and_then (read_u64 ''prop_u64'') (\<lambda>v. ok (Number v))
      else if kind = TYPE_INT128 \<or> kind = TYPE_UINT128 then
        and_then (take_bytes 16 ''prop_u128'') (\<lambda>_. ok Wide)
      else if kind = TYPE_STR then
        and_then (read_string ''prop_str'') (\<lambda>s. ok (Text s))
      else err (Unsupported ''prop_type'' (ucast kind)))"

definition prop_entry_rd :: "prop_entry reading" where
  "prop_entry_rd =
     and_then (read_u32 ''prop_handle'') (\<lambda>handle.
     and_then (read_u16 ''prop_code'') (\<lambda>code.
     and_then (read_u16 ''prop_type'') (\<lambda>kind.
     and_then (prop_value_rd kind) (\<lambda>value.
     ok \<lparr>pe_handle = handle, pe_code = code, pe_value = value\<rparr>))))"

definition prop_list_rd :: "prop_entry list reading" where
  "prop_list_rd =
     and_then (read_u32 ''prop_list_count'') (\<lambda>count. read_n (unat count) prop_entry_rd)"

definition parse_object_prop_list :: "bytes \<Rightarrow> parse_error + prop_entry list" where
  "parse_object_prop_list data = fst (prop_list_rd (new_reader data))"

section \<open>The fold\<close>

definition apply_prop :: "prop_entry \<Rightarrow> prop_record \<Rightarrow> prop_record" where
  "apply_prop e rec =
     (case pe_value e of
        Text s \<Rightarrow> if pe_code e = PROP_OBJECT_FILE_NAME then rec\<lparr>pr_name := s\<rparr> else rec
      | Number n \<Rightarrow>
          if pe_code e = PROP_OBJECT_SIZE then rec\<lparr>pr_size := n\<rparr>
          else if pe_code e = PROP_OBJECT_FORMAT then rec\<lparr>pr_format := ucast n\<rparr>
          else if pe_code e = PROP_PARENT_OBJECT then rec\<lparr>pr_parent := ucast n\<rparr>
          else if pe_code e = PROP_STORAGE_ID then rec\<lparr>pr_storage := ucast n\<rparr>
          else rec
      | Wide \<Rightarrow> rec)"

type_synonym fold_state = "prop_record list \<times> (u32 \<rightharpoonup> nat)"

definition fold_prop_step :: "prop_entry \<Rightarrow> fold_state \<Rightarrow> fold_state" where
  "fold_prop_step e st =
     (let (out, seen) = st;
          (at, out, seen) =
            (case seen (pe_handle e) of
               Some i \<Rightarrow> (i, out, seen)
             | None \<Rightarrow>
                 let out = out @ [prop_record_default (pe_handle e)]
                 in (length out - 1, out, seen(pe_handle e \<mapsto> length out - 1)))
      in (out[at := apply_prop e (out ! at)], seen))"

definition fold_prop_list :: "prop_entry list \<Rightarrow> prop_record list" where
  "fold_prop_list entries = fst (fold fold_prop_step entries ([], Map.empty))"

section \<open>The specification of the fold\<close>

text \<open>
  One record for each object, in the order in which the objects first appear, each made from
  the entries of that object alone, in their order.
\<close>

definition first_handles :: "prop_entry list \<Rightarrow> u32 list" where
  "first_handles entries = rev (remdups (rev (map pe_handle entries)))"

definition record_of :: "prop_entry list \<Rightarrow> u32 \<Rightarrow> prop_record" where
  "record_of entries h =
     fold apply_prop (filter (\<lambda>e. pe_handle e = h) entries) (prop_record_default h)"

definition prop_list_spec :: "prop_entry list \<Rightarrow> prop_record list" where
  "prop_list_spec entries = map (record_of entries) (first_handles entries)"

lemma pr_handle_apply_prop [simp]: "pr_handle (apply_prop e r) = pr_handle r"
  by (simp add: apply_prop_def split: prop_value.split)

lemma pr_handle_fold [simp]: "pr_handle (fold apply_prop es r) = pr_handle r"
  by (induction es arbitrary: r) auto

lemma pr_handle_record_of [simp]: "pr_handle (record_of es h) = h"
  by (simp add: record_of_def prop_record_default_def)

lemma distinct_first_handles: "distinct (first_handles es)"
  by (simp add: first_handles_def)

lemma set_first_handles [simp]: "set (first_handles es) = pe_handle ` set es"
  by (simp add: first_handles_def)

lemma first_handles_snoc:
  "first_handles (es @ [e]) =
     (if pe_handle e \<in> pe_handle ` set es then first_handles es
      else first_handles es @ [pe_handle e])"
  by (auto simp: first_handles_def)

lemma record_of_snoc:
  "record_of (es @ [e]) h =
     (if h = pe_handle e then apply_prop e (record_of es h) else record_of es h)"
  by (simp add: record_of_def)

lemma record_of_absent: "h \<notin> pe_handle ` set es \<Longrightarrow> record_of es h = prop_record_default h"
proof -
  assume "h \<notin> pe_handle ` set es"
  then have "filter (\<lambda>e. pe_handle e = h) es = []" by (auto simp: filter_empty_conv)
  then show ?thesis by (simp add: record_of_def)
qed

text \<open>What the map \<open>seen\<close> holds while the fold runs.\<close>

definition fold_inv :: "prop_entry list \<Rightarrow> fold_state \<Rightarrow> bool" where
  "fold_inv es st \<longleftrightarrow>
     fst st = prop_list_spec es \<and>
     (\<forall>h i. snd st h = Some i \<longleftrightarrow> i < length (first_handles es) \<and> first_handles es ! i = h)"

lemma fold_inv_None: "fold_inv es (out, seen) \<Longrightarrow> seen h = None \<longleftrightarrow> h \<notin> pe_handle ` set es"
proof -
  assume inv: "fold_inv es (out, seen)"
  have "(\<exists>i. seen h = Some i) \<longleftrightarrow> h \<in> set (first_handles es)"
    using inv by (auto simp: fold_inv_def in_set_conv_nth simp del: set_first_handles)
  then show ?thesis by (metis not_None_eq set_first_handles)
qed

lemma fold_inv_step:
  assumes inv: "fold_inv es (out, seen)"
  shows "fold_inv (es @ [e]) (fold_prop_step e (out, seen))"
proof (cases "seen (pe_handle e)")
  case None
  then have new: "pe_handle e \<notin> pe_handle ` set es" using fold_inv_None [OF inv] by blast
  have out: "out = prop_list_spec es" using inv by (simp add: fold_inv_def)
  have len: "length out = length (first_handles es)" by (simp add: out prop_list_spec_def)
  have spec: "prop_list_spec (es @ [e]) = out @ [apply_prop e (prop_record_default (pe_handle e))]"
  proof -
    have "map (record_of (es @ [e])) (first_handles es) = map (record_of es) (first_handles es)"
      by (intro map_cong refl) (use new in \<open>auto simp: record_of_snoc image_iff\<close>)
    then show ?thesis
      using new by (simp add: out prop_list_spec_def first_handles_snoc record_of_snoc record_of_absent)
  qed
  have step: "fold_prop_step e (out, seen) =
      (prop_list_spec (es @ [e]), seen(pe_handle e \<mapsto> length (first_handles es)))"
    by (simp add: fold_prop_step_def None spec flip: len)
  have seen: "seen h = Some i \<longleftrightarrow> i < length (first_handles es) \<and> first_handles es ! i = h" for h i
    using inv by (simp add: fold_inv_def)
  have absent: "first_handles es ! i \<noteq> pe_handle e" if "i < length (first_handles es)" for i
    using new nth_mem [OF that] by auto
  show ?thesis
    unfolding fold_inv_def step fst_conv snd_conv
    using new absent by (auto simp: seen first_handles_snoc nth_append less_Suc_eq)
next
  case (Some i)
  then have old: "pe_handle e \<in> pe_handle ` set es" using fold_inv_None [OF inv] by (metis option.distinct(1))
  have i: "i < length (first_handles es)" "first_handles es ! i = pe_handle e"
    using inv Some by (simp_all add: fold_inv_def)
  have out: "out = prop_list_spec es" using inv by (simp add: fold_inv_def)
  have "prop_list_spec (es @ [e]) = out[i := apply_prop e (out ! i)]"
  proof (rule nth_equalityI)
    fix j
    assume "j < length (prop_list_spec (es @ [e]))"
    then have j: "j < length (first_handles es)"
      using old by (simp add: prop_list_spec_def first_handles_snoc)
    have "first_handles es ! j = pe_handle e \<longleftrightarrow> j = i"
      using i j distinct_first_handles [of es] by (metis nth_eq_iff_index_eq)
    then show "prop_list_spec (es @ [e]) ! j = out[i := apply_prop e (out ! i)] ! j"
      using i j old by (auto simp: out prop_list_spec_def first_handles_snoc record_of_snoc nth_list_update)
  qed (use old in \<open>simp add: out prop_list_spec_def first_handles_snoc\<close>)
  then have step: "fold_prop_step e (out, seen) = (prop_list_spec (es @ [e]), seen)"
    by (simp add: fold_prop_step_def Some)
  show ?thesis
    using inv old unfolding step by (simp add: fold_inv_def first_handles_snoc)
qed

lemma fold_inv_run: "fold_inv es (fold fold_prop_step es ([], Map.empty))"
proof (induction es rule: rev_induct)
  case Nil
  then show ?case by (simp add: fold_inv_def prop_list_spec_def first_handles_def)
next
  case (snoc e es)
  then show ?case
    by (cases "fold fold_prop_step es ([], Map.empty)") (simp add: fold_inv_step)
qed

lemma fold_prop_list_eq: "fold_prop_list es = prop_list_spec es"
  using fold_inv_run [of es] by (simp add: fold_inv_def fold_prop_list_def)

section \<open>The layout of the dataset\<close>

definition value_bytes :: "prop_value \<Rightarrow> u16 \<Rightarrow> bytes \<Rightarrow> bytes" where
  "value_bytes v kind wide =
     (case v of
        Number n \<Rightarrow>
          if kind = TYPE_INT8 \<or> kind = TYPE_UINT8 then [ucast n]
          else if kind = TYPE_INT16 \<or> kind = TYPE_UINT16 then u16_to_le_bytes (ucast n)
          else if kind = TYPE_INT32 \<or> kind = TYPE_UINT32 then u32_to_le_bytes (ucast n)
          else u64_to_le_bytes n
      | Text s \<Rightarrow> push_string [] s
      | Wide \<Rightarrow> wide)"

text \<open>A value fits the data type that announces it.\<close>

definition value_fits :: "prop_value \<Rightarrow> u16 \<Rightarrow> bytes \<Rightarrow> bool" where
  "value_fits v kind wide =
     (case v of
        Number n \<Rightarrow>
          (kind \<in> {TYPE_INT8, TYPE_UINT8} \<and> unat n < 256)
          \<or> (kind \<in> {TYPE_INT16, TYPE_UINT16} \<and> unat n < 65536)
          \<or> (kind \<in> {TYPE_INT32, TYPE_UINT32} \<and> unat n < 4294967296)
          \<or> kind \<in> {TYPE_INT64, TYPE_UINT64}
      | Text s \<Rightarrow> kind = TYPE_STR \<and> valid_ustring s \<and> length (encode_utf16 s) \<le> 254
      | Wide \<Rightarrow> kind \<in> {TYPE_INT128, TYPE_UINT128} \<and> length wide = 16)"

definition entry_bytes :: "prop_entry \<times> u16 \<times> bytes \<Rightarrow> bytes" where
  "entry_bytes x =
     (case x of (e, kind, wide) \<Rightarrow>
        u32_to_le_bytes (pe_handle e) @ u16_to_le_bytes (pe_code e) @ u16_to_le_bytes kind
        @ value_bytes (pe_value e) kind wide @ [])"

lemma ucast_ucast_u8: "unat (n :: u64) < 256 \<Longrightarrow> ucast (ucast n :: u8) = n"
  by (simp add: word_unat_eq_iff unsigned_ucast_eq take_bit_eq_mod unat_mod_distrib)

lemma ucast_ucast_u16: "unat (n :: u64) < 65536 \<Longrightarrow> ucast (ucast n :: u16) = n"
  by (simp add: word_unat_eq_iff unsigned_ucast_eq take_bit_eq_mod unat_mod_distrib)

lemma ucast_ucast_u32: "unat (n :: u64) < 4294967296 \<Longrightarrow> ucast (ucast n :: u32) = n"
  by (simp add: word_unat_eq_iff unsigned_ucast_eq take_bit_eq_mod unat_mod_distrib)

lemma reads_then_ok: "reads m bs x \<Longrightarrow> g x = y \<Longrightarrow> reads (and_then m (\<lambda>x. ok (g x))) bs y"
  using reads_and_then [of m bs x "\<lambda>x. ok (g x)" "[]" y] reads_ok [of y] by simp

lemma reads_prop_value:
  assumes "value_fits v kind wide"
  shows "reads (prop_value_rd kind) (value_bytes v kind wide) v"
proof (cases v)
  case (Number n)
  with assms consider
      "kind \<in> {TYPE_INT8, TYPE_UINT8}" "unat n < 256"
    | "kind \<in> {TYPE_INT16, TYPE_UINT16}" "unat n < 65536"
    | "kind \<in> {TYPE_INT32, TYPE_UINT32}" "unat n < 4294967296"
    | "kind \<in> {TYPE_INT64, TYPE_UINT64}"
    by (auto simp: value_fits_def)
  then show ?thesis
  proof cases
    case 1
    then have "prop_value_rd kind = and_then (read_u8 ''prop_u8'') (\<lambda>v. ok (Number (ucast v)))"
      "value_bytes v kind wide = [ucast n]"
      using Number by (auto simp: prop_value_rd_def value_bytes_def)
    then show ?thesis using 1 Number by (simp only:) (rule reads_then_ok [OF reads_u8], simp add: ucast_ucast_u8)
  next
    case 2
    then have "prop_value_rd kind = and_then (read_u16 ''prop_u16'') (\<lambda>v. ok (Number (ucast v)))"
      "value_bytes v kind wide = u16_to_le_bytes (ucast n)"
      using Number by (auto simp: prop_value_rd_def value_bytes_def type_codes)
    then show ?thesis using 2 Number by (simp only:) (rule reads_then_ok [OF reads_u16], simp add: ucast_ucast_u16)
  next
    case 3
    then have "prop_value_rd kind = and_then (read_u32 ''prop_u32'') (\<lambda>v. ok (Number (ucast v)))"
      "value_bytes v kind wide = u32_to_le_bytes (ucast n)"
      using Number by (auto simp: prop_value_rd_def value_bytes_def type_codes)
    then show ?thesis using 3 Number by (simp only:) (rule reads_then_ok [OF reads_u32], simp add: ucast_ucast_u32)
  next
    case 4
    then have "prop_value_rd kind = and_then (read_u64 ''prop_u64'') (\<lambda>v. ok (Number v))"
      "value_bytes v kind wide = u64_to_le_bytes n"
      using Number by (auto simp: prop_value_rd_def value_bytes_def type_codes)
    then show ?thesis using Number by (simp only:) (rule reads_then_ok [OF reads_u64], simp)
  qed
next
  case (Text s)
  with assms have "prop_value_rd kind = and_then (read_string ''prop_str'') (\<lambda>s. ok (Text s))"
    "value_bytes v kind wide = push_string [] s" "valid_ustring s" "wire_string s = s"
    by (auto simp: prop_value_rd_def value_bytes_def value_fits_def type_codes wire_string_def fit_utf16_all)
  then show ?thesis using Text by (simp only:) (rule reads_then_ok [OF reads_string], simp_all)
next
  case Wide
  with assms have "prop_value_rd kind = and_then (take_bytes 16 ''prop_u128'') (\<lambda>_. ok Wide)"
    "value_bytes v kind wide = wide" "length wide = 16"
    by (auto simp: prop_value_rd_def value_bytes_def value_fits_def type_codes)
  then show ?thesis using Wide by (simp only:) (rule reads_then_ok [OF reads_take], simp_all)
qed

lemma reads_prop_entry:
  assumes "value_fits (pe_value e) kind wide"
  shows "reads prop_entry_rd (entry_bytes (e, kind, wide)) e"
  unfolding prop_entry_rd_def entry_bytes_def prod.case
  by (rule reads_and_then reads_u16 reads_u32 reads_prop_value assms)+
     (cases e, simp add: reads_ok del: ok_apply)

definition prop_list_bytes :: "(prop_entry \<times> u16 \<times> bytes) list \<Rightarrow> bytes" where
  "prop_list_bytes xs = u32_to_le_bytes (word_of_nat (length xs)) @ concat (map entry_bytes xs)"

definition entries_fit :: "(prop_entry \<times> u16 \<times> bytes) list \<Rightarrow> bool" where
  "entries_fit xs \<longleftrightarrow>
     length xs < 2 ^ 32 \<and> (\<forall>(e, kind, wide) \<in> set xs. value_fits (pe_value e) kind wide)"

lemma reads_prop_list:
  assumes "entries_fit xs"
  shows "reads prop_list_rd (prop_list_bytes xs) (map fst xs)"
  unfolding prop_list_rd_def prop_list_bytes_def
proof (rule reads_and_then [OF reads_u32])
  have "unat (word_of_nat (length xs) :: u32) = length xs"
    using assms by (simp add: entries_fit_def unat_of_nat)
  moreover have "reads (read_n (length xs) prop_entry_rd) (concat (map entry_bytes xs)) (map fst xs)"
  proof (rule reads_n)
    fix x
    assume x: "x \<in> set xs"
    obtain e kind wide where "x = (e, kind, wide)" by (cases x)
    with x assms show "reads prop_entry_rd (entry_bytes x) (fst x)"
      by (auto simp: entries_fit_def intro!: reads_prop_entry)
  qed
  ultimately show "reads (read_n (unat (word_of_nat (length xs) :: u32)) prop_entry_rd)
      (concat (map entry_bytes xs)) (map fst xs)" by simp
qed

lemma keeps_prop_list_rd: "keeps cursor_step prop_list_rd"
proof -
  have "keeps cursor_step (prop_value_rd k)" for k
    unfolding prop_value_rd_def by (intro cursor.keeps_intros keeps_reads)
  then have "keeps cursor_step prop_entry_rd"
    unfolding prop_entry_rd_def by (intro cursor.keeps_intros keeps_reads)
  then show ?thesis
    unfolding prop_list_rd_def by (intro cursor.keeps_intros keeps_reads)
qed

lemma inside_buffer:
  assumes "keeps cursor_step m"
  shows "rd_buf (snd (m (new_reader buf))) = buf" and "rd_pos (snd (m (new_reader buf))) \<le> length buf"
  using keepsD [OF assms, of "new_reader buf" "fst (m (new_reader buf))" "snd (m (new_reader buf))"]
  by (auto simp: cursor_step_def cursor_ok_def new_reader_def)

section \<open>Properties\<close>

text \<open>
  C15: the records \<open>fold_prop_list\<close> collects in one pass with a map of positions are the records
  of the specification: one for each object, in the order in which the objects first appear,
  with no handle twice, each made from the entries of that object alone.
\<close>

theorem fold_prop_list_spec:
  "fold_prop_list entries = prop_list_spec entries
     \<and> distinct (map pr_handle (fold_prop_list entries))
     \<and> set (map pr_handle (fold_prop_list entries)) = set (map pe_handle entries)"
proof -
  have "map pr_handle (fold_prop_list entries) = first_handles entries"
    by (simp add: fold_prop_list_eq prop_list_spec_def comp_def)
  then show ?thesis using distinct_first_handles [of entries] by (simp add: fold_prop_list_eq)
qed

text \<open>
  C16: an answer that holds properties of the types the project knows reads back entry for
  entry, whatever the widths of the values and whatever follows the list.
\<close>

theorem prop_list_round_trip:
  assumes "entries_fit xs"
  shows "parse_object_prop_list (prop_list_bytes xs @ rest) = Inr (map fst xs)"
  using reads_new [OF reads_prop_list [OF assms]] by (simp add: parse_object_prop_list_def)

lemma prop_list_round_trip_witness:
  "parse_object_prop_list (prop_list_bytes
     [(\<lparr>pe_handle = 7, pe_code = PROP_OBJECT_FILE_NAME, pe_value = Text [0x61]\<rparr>, TYPE_STR, []),
      (\<lparr>pe_handle = 7, pe_code = PROP_OBJECT_SIZE, pe_value = Number 5000000000\<rparr>, TYPE_UINT64, []),
      (\<lparr>pe_handle = 9, pe_code = PROP_OBJECT_FORMAT, pe_value = Number 0x3001\<rparr>, TYPE_UINT16, [])]
     @ [1, 2, 3])
    = Inr [\<lparr>pe_handle = 7, pe_code = PROP_OBJECT_FILE_NAME, pe_value = Text [0x61]\<rparr>,
           \<lparr>pe_handle = 7, pe_code = PROP_OBJECT_SIZE, pe_value = Number 5000000000\<rparr>,
           \<lparr>pe_handle = 9, pe_code = PROP_OBJECT_FORMAT, pe_value = Number 0x3001\<rparr>]"
proof -
  let ?xs = "[(\<lparr>pe_handle = 7, pe_code = PROP_OBJECT_FILE_NAME, pe_value = Text [0x61]\<rparr>, TYPE_STR, []),
      (\<lparr>pe_handle = 7, pe_code = PROP_OBJECT_SIZE, pe_value = Number 5000000000\<rparr>, TYPE_UINT64, []),
      (\<lparr>pe_handle = 9, pe_code = PROP_OBJECT_FORMAT, pe_value = Number 0x3001\<rparr>, TYPE_UINT16, [] :: bytes)]"
  have "entries_fit ?xs"
    by (simp add: entries_fit_def value_fits_def type_codes valid_ustring_def is_scalar_def
        encode_utf16_def utf16_units_def)
  from prop_list_round_trip [OF this, of "[1, 2, 3]"] show ?thesis by simp
qed

text \<open>
  Whatever bytes a device sends, each of the parsers of a dataset leaves its cursor inside
  the buffer and the buffer as it was: no parse reads past the end.
\<close>

theorem parsers_stay_inside:
  "list_all (\<lambda>r. rd_buf r = buf \<and> rd_pos r \<le> length buf)
     [snd (storage_info_rd (new_reader buf)), snd (object_info_rd (new_reader buf)),
      snd (device_info_rd (new_reader buf)), snd (prop_list_rd (new_reader buf)),
      snd (read_u32_array field (new_reader buf))]"
proof -
  have "keeps cursor_step (read_u32_array field)"
    unfolding read_u32_array_def by (intro keeps_reads)
  then show ?thesis
    by (simp add: inside_buffer keeps_storage_info_rd keeps_object_info_rd keeps_device_info_rd
        keeps_prop_list_rd)
qed

end
