(* ===== verification/Usb_Descriptor.thy ===== *)
theory Usb_Descriptor
  imports Rust_Text
begin

text \<open>
  USB descriptors, \<open>crates/usb-freebsd/src/descriptor.rs\<close>: the walk over a configuration
  descriptor, the choice of the MTP interface and its endpoints, and the walk over the BOS
  descriptor. Both walks advance by the length byte of the device and stop because a length
  of 0 is a fault. The configuration walk is compared with a grouping of the descriptors that
  says which interface owns which endpoint.
\<close>

unbundle bit_operations_syntax

definition TYPE_CONFIGURATION :: u8 where "TYPE_CONFIGURATION = 0x02"
definition TYPE_INTERFACE :: u8 where "TYPE_INTERFACE = 0x04"
definition TYPE_ENDPOINT :: u8 where "TYPE_ENDPOINT = 0x05"
definition MTP_CLASS :: u8 where "MTP_CLASS = 0x06"
definition MTP_SUBCLASS :: u8 where "MTP_SUBCLASS = 0x01"
definition MTP_PROTOCOL :: u8 where "MTP_PROTOCOL = 0x01"
definition VENDOR_CLASS :: u8 where "VENDOR_CLASS = 0xff"
definition VENDOR_MTP_SUBCLASS :: u8 where "VENDOR_MTP_SUBCLASS = 0xff"
definition VENDOR_MTP_PROTOCOL :: u8 where "VENDOR_MTP_PROTOCOL = 0x00"
definition VENDOR_MTP_NAME :: ustring where "VENDOR_MTP_NAME = lit ''MTP''"
definition ADB_CLASS :: u8 where "ADB_CLASS = 0xff"
definition ADB_SUBCLASS :: u8 where "ADB_SUBCLASS = 0x42"
definition ADB_PROTOCOL :: u8 where "ADB_PROTOCOL = 0x01"
definition TRANSFER_BULK :: u8 where "TRANSFER_BULK = 0x02"
definition TRANSFER_INTERRUPT :: u8 where "TRANSFER_INTERRUPT = 0x03"
definition DIRECTION_IN :: u8 where "DIRECTION_IN = 0x80"

datatype descriptor_error =
    TooShort nat nat
  | WrongType u8 u8
  | ZeroLength nat
  | RunsPastEnd nat nat nat
  | EndpointWithoutInterface
  | NoMtpInterface
  | IncompleteMtpEndpoints bool bool

record endpoint =
  ep_address :: u8
  ep_transfer_type :: u8
  ep_max_packet_size :: u16

definition ep_is_in :: "endpoint \<Rightarrow> bool" where
  "ep_is_in e \<longleftrightarrow> ep_address e AND DIRECTION_IN \<noteq> 0"

definition transfer_type_of :: "u8 \<Rightarrow> u8" where
  "transfer_type_of attributes = attributes AND 0x03"

definition ep_is_bulk :: "endpoint \<Rightarrow> bool" where
  "ep_is_bulk e \<longleftrightarrow> ep_transfer_type e = TRANSFER_BULK"

definition ep_is_interrupt :: "endpoint \<Rightarrow> bool" where
  "ep_is_interrupt e \<longleftrightarrow> ep_transfer_type e = TRANSFER_INTERRUPT"

record interface =
  if_number :: u8
  if_alternate_setting :: u8
  if_class :: u8
  if_subclass :: u8
  if_protocol :: u8
  if_string_index :: u8
  if_endpoints :: "endpoint list"

definition is_mtp :: "interface \<Rightarrow> bool" where
  "is_mtp i \<longleftrightarrow> if_class i = MTP_CLASS \<and> if_subclass i = MTP_SUBCLASS \<and> if_protocol i = MTP_PROTOCOL"

definition is_vendor_mtp_candidate :: "interface \<Rightarrow> bool" where
  "is_vendor_mtp_candidate i \<longleftrightarrow>
     if_class i = VENDOR_CLASS \<and> if_subclass i = VENDOR_MTP_SUBCLASS
     \<and> if_protocol i = VENDOR_MTP_PROTOCOL \<and> if_string_index i \<noteq> 0"

definition is_adb :: "interface \<Rightarrow> bool" where
  "is_adb i \<longleftrightarrow> if_class i = ADB_CLASS \<and> if_subclass i = ADB_SUBCLASS \<and> if_protocol i = ADB_PROTOCOL"

record config_descriptor =
  cd_total_length :: u16
  cd_num_interfaces :: u8
  cd_configuration_value :: u8
  cd_interfaces :: "interface list"

section \<open>The walk over a configuration descriptor\<close>

text \<open>What one descriptor at \<open>pos\<close>, of \<open>len\<close> bytes, does to the interfaces so far.\<close>

definition add_descriptor ::
    "bytes \<Rightarrow> nat \<Rightarrow> nat \<Rightarrow> interface list \<Rightarrow> descriptor_error + interface list" where
  "add_descriptor buf pos len interfaces =
     (let kind = buf ! (pos + 1) in
      if kind = TYPE_INTERFACE then
        (if len < 9 then Inl (TooShort 9 len)
         else Inr (interfaces @
           [\<lparr>if_number = buf ! (pos + 2), if_alternate_setting = buf ! (pos + 3),
             if_class = buf ! (pos + 5), if_subclass = buf ! (pos + 6),
             if_protocol = buf ! (pos + 7), if_string_index = buf ! (pos + 8),
             if_endpoints = []\<rparr>]))
      else if kind = TYPE_ENDPOINT then
        (if len < 7 then Inl (TooShort 7 len)
         else
           let ep = \<lparr>ep_address = buf ! (pos + 2),
                     ep_transfer_type = transfer_type_of (buf ! (pos + 3)),
                     ep_max_packet_size = u16_from_le_bytes [buf ! (pos + 4), buf ! (pos + 5)]\<rparr>
           in if interfaces = [] then Inl EndpointWithoutInterface
              else Inr (butlast interfaces @
                [last interfaces\<lparr>if_endpoints := if_endpoints (last interfaces) @ [ep]\<rparr>]))
      else Inr interfaces)"

function config_walk ::
    "bytes \<Rightarrow> nat \<Rightarrow> nat \<Rightarrow> interface list \<Rightarrow> descriptor_error + interface list" where
  "config_walk buf stop pos interfaces =
     (if pos + 2 \<le> stop then
        let len = unat (buf ! pos) in
        if len = 0 then Inl (ZeroLength pos)
        else if pos + len > stop then Inl (RunsPastEnd pos len (stop - pos))
        else case add_descriptor buf pos len interfaces of
            Inl e \<Rightarrow> Inl e
          | Inr interfaces' \<Rightarrow> config_walk buf stop (pos + len) interfaces'
      else Inr interfaces)"
  by pat_completeness auto
termination
  by (relation "measure (\<lambda>(buf, stop, pos, interfaces). stop - pos)") auto

declare config_walk.simps [simp del]

definition config_parse :: "bytes \<Rightarrow> descriptor_error + config_descriptor" where
  "config_parse buf =
     (if length buf < 9 then Inl (TooShort 9 (length buf))
      else if buf ! 1 \<noteq> TYPE_CONFIGURATION then Inl (WrongType TYPE_CONFIGURATION (buf ! 1))
      else
        let total_length = u16_from_le_bytes [buf ! 2, buf ! 3];
            stop = min (length buf) (unat total_length);
            pos = unat (buf ! 0)
        in if pos = 0 then Inl (ZeroLength 0)
           else case config_walk buf stop pos [] of
               Inl e \<Rightarrow> Inl e
             | Inr interfaces \<Rightarrow> Inr
                 \<lparr>cd_total_length = total_length, cd_num_interfaces = buf ! 4,
                  cd_configuration_value = buf ! 5, cd_interfaces = interfaces\<rparr>)"

section \<open>The MTP interface\<close>

record mtp_interface =
  mi_interface_number :: u8
  mi_alternate_setting :: u8
  mi_class :: u8
  mi_subclass :: u8
  mi_protocol :: u8
  mi_bulk_in :: u8
  mi_bulk_out :: u8
  mi_interrupt_in :: "u8 option"
  mi_max_packet_size :: u16

definition from_interface :: "interface \<Rightarrow> descriptor_error + mtp_interface" where
  "from_interface iface =
     (let bulk_in = find (\<lambda>e. ep_is_bulk e \<and> ep_is_in e) (if_endpoints iface);
          bulk_out = find (\<lambda>e. ep_is_bulk e \<and> \<not> ep_is_in e) (if_endpoints iface)
      in case (bulk_in, bulk_out) of
           (Some i, Some ou) \<Rightarrow> Inr
             \<lparr>mi_interface_number = if_number iface,
              mi_alternate_setting = if_alternate_setting iface,
              mi_class = if_class iface, mi_subclass = if_subclass iface,
              mi_protocol = if_protocol iface,
              mi_bulk_in = ep_address i, mi_bulk_out = ep_address ou,
              mi_interrupt_in = map_option ep_address
                (find (\<lambda>e. ep_is_interrupt e \<and> ep_is_in e) (if_endpoints iface)),
              mi_max_packet_size = ep_max_packet_size i\<rparr>
         | (i, ou) \<Rightarrow> Inl (IncompleteMtpEndpoints (i \<noteq> None) (ou \<noteq> None)))"

definition find_mtp_class :: "config_descriptor \<Rightarrow> descriptor_error + mtp_interface" where
  "find_mtp_class cfg =
     (case find is_mtp (cd_interfaces cfg) of
        None \<Rightarrow> Inl NoMtpInterface
      | Some i \<Rightarrow> from_interface i)"

text \<open>
  \<open>name_of\<close> asks the device for the string of an index, so it acts on the state of the device.
\<close>

type_synonym 'd naming = "u8 \<Rightarrow> 'd \<Rightarrow> ustring option \<times> 'd"

fun first_named ::
    "'d naming \<Rightarrow> interface list \<Rightarrow> ('d, descriptor_error, mtp_interface) sm" where
  "first_named name_of [] = err NoMtpInterface"
| "first_named name_of (i # is) = (\<lambda>d.
     case name_of (if_string_index i) d of
        (Some name, d') \<Rightarrow>
          if trim name = VENDOR_MTP_NAME then (from_interface i, d') else first_named name_of is d'
      | (None, d') \<Rightarrow> first_named name_of is d')"

definition find_with_names ::
    "config_descriptor \<Rightarrow> 'd naming \<Rightarrow> ('d, descriptor_error, mtp_interface) sm" where
  "find_with_names cfg name_of =
     (case find is_mtp (cd_interfaces cfg) of
        Some i \<Rightarrow> from_result (from_interface i)
      | None \<Rightarrow> first_named name_of (filter is_vendor_mtp_candidate (cd_interfaces cfg)))"

section \<open>The BOS descriptor\<close>

definition TYPE_BOS :: u8 where "TYPE_BOS = 0x0f"
definition TYPE_DEVICE_CAPABILITY :: u8 where "TYPE_DEVICE_CAPABILITY = 0x10"
definition CAPABILITY_SUPER_SPEED :: u8 where "CAPABILITY_SUPER_SPEED = 0x03"
definition CAPABILITY_SUPER_SPEED_PLUS :: u8 where "CAPABILITY_SUPER_SPEED_PLUS = 0x0a"
definition SPEED_BIT_SUPER :: u16 where "SPEED_BIT_SUPER = 0x0008"

record device_capabilities =
  dc_super_speed :: bool
  dc_super_speed_plus :: bool
  dc_speeds_supported :: "u16 option"

definition add_capability ::
    "bytes \<Rightarrow> nat \<Rightarrow> nat \<Rightarrow> device_capabilities \<Rightarrow> device_capabilities" where
  "add_capability buf pos len out =
     (if buf ! (pos + 1) = TYPE_DEVICE_CAPABILITY then
        (if buf ! (pos + 2) = CAPABILITY_SUPER_SPEED then
           let out = out\<lparr>dc_super_speed := True\<rparr> in
           if len \<ge> 6
           then out\<lparr>dc_speeds_supported :=
                  Some (u16_from_le_bytes [buf ! (pos + 4), buf ! (pos + 5)])\<rparr>
           else out
         else if buf ! (pos + 2) = CAPABILITY_SUPER_SPEED_PLUS
         then out\<lparr>dc_super_speed_plus := True\<rparr>
         else out)
      else out)"

function bos_walk ::
    "bytes \<Rightarrow> nat \<Rightarrow> nat \<Rightarrow> device_capabilities \<Rightarrow> descriptor_error + device_capabilities" where
  "bos_walk buf stop pos out =
     (if pos + 3 \<le> stop then
        let len = unat (buf ! pos) in
        if len = 0 then Inl (ZeroLength pos)
        else if pos + len > stop then Inl (RunsPastEnd pos len (stop - pos))
        else bos_walk buf stop (pos + len) (add_capability buf pos len out)
      else Inr out)"
  by pat_completeness auto
termination
  by (relation "measure (\<lambda>(buf, stop, pos, out). stop - pos)") auto

declare bos_walk.simps [simp del]

definition capabilities_parse :: "bytes \<Rightarrow> descriptor_error + device_capabilities" where
  "capabilities_parse buf =
     (if length buf < 5 then Inl (TooShort 5 (length buf))
      else if buf ! 1 \<noteq> TYPE_BOS then Inl (WrongType TYPE_BOS (buf ! 1))
      else
        let total = unat (u16_from_le_bytes [buf ! 2, buf ! 3]);
            stop = min (length buf) total;
            out = \<lparr>dc_super_speed = False, dc_super_speed_plus = False,
                   dc_speeds_supported = None\<rparr>;
            pos = unat (buf ! 0)
        in if pos = 0 then Inl (ZeroLength 0) else bos_walk buf stop pos out)"

definition supports_faster_than_high :: "device_capabilities \<Rightarrow> bool" where
  "supports_faster_than_high c \<longleftrightarrow>
     dc_super_speed_plus c \<or> dc_super_speed c \<or>
     (case dc_speeds_supported c of Some s \<Rightarrow> s AND SPEED_BIT_SUPER \<noteq> 0 | None \<Rightarrow> False)"

section \<open>No read past the end\<close>

text \<open>
  The walk over the first \<open>stop\<close> bytes gives the same answer whatever follows them, so no byte
  after \<open>stop\<close> is looked at.
\<close>

lemma config_walk_prefix:
  assumes "take stop buf = take stop buf'"
    and "stop \<le> length buf" and "stop \<le> length buf'"
  shows "config_walk buf stop pos interfaces = config_walk buf' stop pos interfaces"
  using assms
proof (induction buf stop pos interfaces rule: config_walk.induct)
  case (1 buf stop pos interfaces)
  have same: "buf ! i = buf' ! i" if "i < stop" for i
    using "1.prems"(1) that by (metis nth_take)
  have add: "add_descriptor buf pos len interfaces = add_descriptor buf' pos len interfaces"
    if "pos + 2 \<le> stop" "pos + len \<le> stop" for len
    using that by (simp add: add_descriptor_def same Let_def)
  show ?case
  proof (cases "pos + 2 \<le> stop \<and> unat (buf ! pos) \<noteq> 0 \<and> pos + unat (buf ! pos) \<le> stop")
    case True
    let ?len = "unat (buf ! pos)"
    have eq: "buf' ! pos = buf ! pos" using True same [of pos] by simp
    have "config_walk buf stop (pos + ?len) i = config_walk buf' stop (pos + ?len) i"
      if "add_descriptor buf pos ?len interfaces = Inr i" for i
      using "1.IH" [OF _ refl] True that "1.prems" by simp
    then show ?thesis
      using True add [of ?len] eq
      by (simp add: config_walk.simps [of buf stop pos] config_walk.simps [of buf' stop pos] Let_def
          split: sum.split)
  next
    case False
    then show ?thesis
      using same [of pos]
      by (auto simp: config_walk.simps [of buf stop pos] config_walk.simps [of buf' stop pos] Let_def)
  qed
qed

section \<open>Which interface owns which endpoint\<close>

text \<open>
  The descriptors of a configuration as the device means them. Interface and endpoint
  descriptors may carry bytes after the fields of the standard.
\<close>

datatype descriptor =
    DInterface interface u8 bytes
  | DEndpoint endpoint u8 u8 bytes
  | DOther u8 bytes

fun descriptor_bytes :: "descriptor \<Rightarrow> bytes" where
  "descriptor_bytes (DInterface i n extra) =
     [word_of_nat (9 + length extra), TYPE_INTERFACE, if_number i, if_alternate_setting i, n,
      if_class i, if_subclass i, if_protocol i, if_string_index i] @ extra"
| "descriptor_bytes (DEndpoint e attributes interval extra) =
     [word_of_nat (7 + length extra), TYPE_ENDPOINT, ep_address e, attributes]
     @ u16_to_le_bytes (ep_max_packet_size e) @ [interval] @ extra"
| "descriptor_bytes (DOther kind body) = [word_of_nat (2 + length body), kind] @ body"

fun descriptor_ok :: "descriptor \<Rightarrow> bool" where
  "descriptor_ok (DInterface i n extra) \<longleftrightarrow> if_endpoints i = [] \<and> 9 + length extra < 256"
| "descriptor_ok (DEndpoint e attributes interval extra) \<longleftrightarrow>
     transfer_type_of attributes = ep_transfer_type e \<and> 7 + length extra < 256"
| "descriptor_ok (DOther kind body) \<longleftrightarrow>
     kind \<noteq> TYPE_INTERFACE \<and> kind \<noteq> TYPE_ENDPOINT \<and> 2 + length body < 256"

text \<open>
  The endpoints before the first interface, and the interfaces with the endpoints that stand
  between each and the next; other descriptors change nothing.
\<close>

fun group_endpoints :: "descriptor list \<Rightarrow> endpoint list \<times> interface list" where
  "group_endpoints [] = ([], [])"
| "group_endpoints (DInterface i n x # ds) =
     (case group_endpoints ds of (eps, is) \<Rightarrow> ([], i\<lparr>if_endpoints := eps\<rparr> # is))"
| "group_endpoints (DEndpoint e a v x # ds) =
     (case group_endpoints ds of (eps, is) \<Rightarrow> (e # eps, is))"
| "group_endpoints (DOther k b # ds) = group_endpoints ds"

definition add_endpoints :: "endpoint list \<Rightarrow> interface list \<Rightarrow> descriptor_error + interface list" where
  "add_endpoints eps is =
     (if eps = [] then Inr is
      else if is = [] then Inl EndpointWithoutInterface
      else Inr (butlast is @ [last is\<lparr>if_endpoints := if_endpoints (last is) @ eps\<rparr>]))"

lemma descriptor_length:
  "descriptor_ok d \<Longrightarrow> unat (descriptor_bytes d ! 0) = length (descriptor_bytes d)"
  "2 \<le> length (descriptor_bytes d)"
  by (cases d; simp add: unat_byte_of_nat del: of_nat_add of_nat_Suc of_nat_numeral)+

lemma add_descriptor_bytes:
  assumes "descriptor_ok d"
  shows "add_descriptor (pre @ descriptor_bytes d @ post) (length pre) (length (descriptor_bytes d)) is =
    (case d of DInterface i n x \<Rightarrow> Inr (is @ [i])
     | DEndpoint e a v x \<Rightarrow> add_endpoints [e] is
     | DOther k b \<Rightarrow> Inr is)"
proof (cases d)
  case (DInterface i n x)
  then show ?thesis
    using assms by (cases i) (simp add: add_descriptor_def nth_append)
next
  case (DEndpoint e a v x)
  obtain lo hi where b: "u16_to_le_bytes (ep_max_packet_size e) = [lo, hi]"
    using length_to_le_bytes(1) [of "ep_max_packet_size e"]
    by (cases "u16_to_le_bytes (ep_max_packet_size e)" rule: list.exhaust)
       (auto simp: length_Suc_conv numeral_2_eq_2)
  then have "u16_from_le_bytes [lo, hi] = ep_max_packet_size e" by (simp flip: b)
  with DEndpoint b show ?thesis
    using assms by (cases e) (simp add: add_descriptor_def nth_append add_endpoints_def
        TYPE_INTERFACE_def TYPE_ENDPOINT_def)
next
  case (DOther k b)
  then show ?thesis using assms by (simp add: add_descriptor_def nth_append)
qed

lemma config_walk_step:
  assumes ok: "descriptor_ok d" and fit: "length pre + length (descriptor_bytes d) \<le> stop"
  shows "config_walk (pre @ descriptor_bytes d @ post) stop (length pre) is =
    (case (case d of DInterface i n x \<Rightarrow> Inr (is @ [i])
           | DEndpoint e a v x \<Rightarrow> add_endpoints [e] is
           | DOther k b \<Rightarrow> Inr is) of
       Inl e \<Rightarrow> Inl e
     | Inr is' \<Rightarrow> config_walk (pre @ descriptor_bytes d @ post) stop
                    (length pre + length (descriptor_bytes d)) is')"
proof -
  have "(pre @ descriptor_bytes d @ post) ! length pre = descriptor_bytes d ! 0"
    using descriptor_length(2) [of d] by (cases "descriptor_bytes d") auto
  then have "unat ((pre @ descriptor_bytes d @ post) ! length pre) = length (descriptor_bytes d)"
    using descriptor_length(1) [OF ok] by simp
  moreover have "descriptor_bytes d \<noteq> []" using descriptor_length(2) [of d] by auto
  ultimately show ?thesis
    using fit descriptor_length(2) [of d]
    by (subst config_walk.simps) (simp add: Let_def add_descriptor_bytes [OF ok])
qed

lemma config_walk_done: "stop < pos + 2 \<Longrightarrow> config_walk buf stop pos is = Inr is"
  by (subst config_walk.simps) simp

lemma add_endpoints_Cons:
  "is \<noteq> [] \<Longrightarrow> add_endpoints [e] is = Inr (butlast is @ [last is\<lparr>if_endpoints := if_endpoints (last is) @ [e]\<rparr>])"
  by (simp add: add_endpoints_def)

lemma add_endpoints_more:
  assumes "is \<noteq> []"
  shows "add_endpoints eps (butlast is @ [last is\<lparr>if_endpoints := if_endpoints (last is) @ [e]\<rparr>])
    = add_endpoints (e # eps) is"
  by (simp add: add_endpoints_def assms)

definition attach :: "endpoint list \<times> interface list \<Rightarrow> interface list \<Rightarrow> descriptor_error + interface list" where
  "attach g is = (case add_endpoints (fst g) is of Inl e \<Rightarrow> Inl e | Inr is' \<Rightarrow> Inr (is' @ snd g))"

lemma attach_interface:
  "attach (group_endpoints ds) (is @ [i\<lparr>if_endpoints := []\<rparr>])
     = attach (group_endpoints (DInterface i n x # ds)) is"
  by (cases "group_endpoints ds") (auto simp: attach_def add_endpoints_def)

lemma config_walk_group:
  assumes "list_all descriptor_ok ds"
  shows "config_walk (pre @ concat (map descriptor_bytes ds) @ post)
      (length pre + length (concat (map descriptor_bytes ds))) (length pre) is
    = attach (group_endpoints ds) is"
  using assms
proof (induction ds arbitrary: pre "is")
  case Nil
  then show ?case by (simp add: config_walk_done attach_def add_endpoints_def)
next
  case (Cons d ds)
  let ?body = "concat (map descriptor_bytes ds)"
  let ?buf = "pre @ descriptor_bytes d @ ?body @ post"
  let ?stop = "length pre + (length (descriptor_bytes d) + length ?body)"
  have ok: "descriptor_ok d" using Cons.prems by simp
  have IH: "config_walk ?buf ?stop (length pre + length (descriptor_bytes d)) is'
      = attach (group_endpoints ds) is'" for is'
    using Cons.IH [of "pre @ descriptor_bytes d" is'] Cons.prems by (simp add: add.assoc)
  have step: "config_walk ?buf ?stop (length pre) is =
      (case (case d of DInterface i n x \<Rightarrow> Inr (is @ [i])
           | DEndpoint e a v x \<Rightarrow> add_endpoints [e] is
           | DOther k b \<Rightarrow> Inr is) of
         Inl e \<Rightarrow> Inl e
       | Inr is' \<Rightarrow> attach (group_endpoints ds) is')"
    using config_walk_step [OF ok, of pre ?stop "?body @ post" "is"] unfolding IH by simp
  show ?case
  proof (cases d)
    case (DInterface i n x)
    then have "i\<lparr>if_endpoints := []\<rparr> = i" using ok by (cases i) simp
    then show ?thesis
      using step DInterface attach_interface [of ds "is" i n x] by simp
  next
    case (DEndpoint e a v x)
    then show ?thesis
      using step
      by (cases "is = []"; cases "group_endpoints ds")
         (simp_all add: attach_def add_endpoints_Cons add_endpoints_more, simp_all add: add_endpoints_def)
  next
    case (DOther k b)
    then show ?thesis using step by simp
  qed
qed

lemma group_no_orphan:
  "attach g [] = (if fst g = [] then Inr (snd g) else Inl EndpointWithoutInterface)"
  by (cases g) (simp add: attach_def add_endpoints_def)

definition config_bytes :: "u8 \<Rightarrow> u8 \<Rightarrow> bytes \<Rightarrow> descriptor list \<Rightarrow> bytes" where
  "config_bytes num value tail_of_header ds =
     (let body = concat (map descriptor_bytes ds)
      in [9, TYPE_CONFIGURATION] @ u16_to_le_bytes (word_of_nat (9 + length body)) @ [num, value]
         @ tail_of_header @ body)"

lemma u16_le_pair:
  "u16_from_le_bytes [u16_to_le_bytes x ! 0, u16_to_le_bytes x ! Suc 0] = x"
proof -
  have "[u16_to_le_bytes x ! 0, u16_to_le_bytes x ! Suc 0] = u16_to_le_bytes x"
    by (rule nth_equalityI) (auto simp: less_Suc_eq numeral_2_eq_2)
  then show ?thesis by simp
qed

text \<open>
  C17: a configuration descriptor with any mix of interface, endpoint and other descriptors
  reads as the interfaces in their order, each with the endpoints that stand between it and the
  next interface, class descriptors between them changing nothing; an endpoint before the first
  interface is the one fault.
\<close>

theorem config_parse_group:
  assumes ok: "list_all descriptor_ok ds" and t: "length t = 3"
    and fit: "length (config_bytes num value t ds) < 65536"
  shows "config_parse (config_bytes num value t ds @ post) =
    (if fst (group_endpoints ds) = []
     then Inr \<lparr>cd_total_length = word_of_nat (length (config_bytes num value t ds)),
               cd_num_interfaces = num, cd_configuration_value = value,
               cd_interfaces = snd (group_endpoints ds)\<rparr>
     else Inl EndpointWithoutInterface)"
proof -
  let ?body = "concat (map descriptor_bytes ds)"
  let ?w = "word_of_nat (9 + length ?body) :: u16"
  let ?pre = "[9, TYPE_CONFIGURATION] @ u16_to_le_bytes ?w @ [num, value] @ t"
  define buf where "buf = config_bytes num value t ds @ post"
  have buf: "buf = ?pre @ ?body @ post" by (simp add: buf_def config_bytes_def Let_def)
  have len: "length (config_bytes num value t ds) = 9 + length ?body"
    using t by (simp add: config_bytes_def Let_def)
  have w: "unat ?w = 9 + length ?body" using fit len by (simp add: unat_of_nat del: of_nat_add)
  have pre: "length ?pre = 9" using t by simp
  have nths: "buf ! 0 = 9" "buf ! 1 = TYPE_CONFIGURATION" "buf ! 4 = num" "buf ! 5 = value"
    "u16_from_le_bytes [buf ! 2, buf ! 3] = ?w"
    using u16_le_pair [of ?w] by (simp_all add: buf nth_append del: of_nat_add)
  have "config_walk buf (9 + length ?body) 9 [] = attach (group_endpoints ds) []"
    using config_walk_group [OF ok, of ?pre post "[]"] by (simp only: pre buf)
  moreover have "min (length buf) (unat ?w) = 9 + length ?body" "unat (buf ! 0) = 9"
    unfolding w nths(1) by (simp_all add: buf_def len)
  ultimately have "config_walk buf (min (length buf) (unat ?w)) (unat (buf ! 0)) []
      = attach (group_endpoints ds) []"
    by (simp only:)
  moreover have "\<not> length buf < 9" "unat (buf ! 0) \<noteq> 0" "\<not> buf ! 1 \<noteq> TYPE_CONFIGURATION"
    by (simp_all add: buf_def len nths(1,2) [unfolded buf_def] nths(2) [unfolded buf_def One_nat_def])
  ultimately show ?thesis
    unfolding buf_def [symmetric] config_parse_def Let_def nths(3-5)
    by (simp add: group_no_orphan len del: of_nat_add)
qed

text \<open>
  No byte after the length the header declares has a say: a buffer longer than the declared
  configuration parses as the configuration alone.
\<close>

theorem config_parse_declared:
  assumes "9 \<le> n" and "n = unat (u16_from_le_bytes [buf ! 2, buf ! 3])" and "n \<le> length buf"
  shows "config_parse (take n buf) = config_parse buf"
proof -
  have "config_walk (take n buf) n pos [] = config_walk buf n pos []" for pos
    by (rule config_walk_prefix) (use assms(3) in auto)
  moreover have nths: "take n buf ! 0 = buf ! 0" "take n buf ! 1 = buf ! 1" "take n buf ! 2 = buf ! 2"
    "take n buf ! 3 = buf ! 3" "take n buf ! 4 = buf ! 4" "take n buf ! 5 = buf ! 5"
    using assms(1) by simp_all
  moreover have "min (length (take n buf)) n = n" "min (length buf) n = n"
    using assms(3) by simp_all
  moreover have "\<not> length buf < 9" "\<not> length (take n buf) < 9" using assms by simp_all
  ultimately show ?thesis
    unfolding config_parse_def Let_def nths by (simp del: length_take nth_take flip: assms(2))
qed

section \<open>The chosen interface\<close>

lemma from_interface_Inr:
  assumes "from_interface i = Inr m"
  shows "\<exists>bi\<in>set (if_endpoints i). \<exists>bo\<in>set (if_endpoints i).
      ep_is_bulk bi \<and> ep_is_in bi \<and> ep_is_bulk bo \<and> \<not> ep_is_in bo
      \<and> mi_bulk_in m = ep_address bi \<and> mi_bulk_out m = ep_address bo
      \<and> mi_max_packet_size m = ep_max_packet_size bi"
proof -
  obtain bi bo where
    bi: "find (\<lambda>e. ep_is_bulk e \<and> ep_is_in e) (if_endpoints i) = Some bi" and
    bo: "find (\<lambda>e. ep_is_bulk e \<and> \<not> ep_is_in e) (if_endpoints i) = Some bo"
    using assms by (auto simp: from_interface_def Let_def split: option.splits)
  have m: "mi_bulk_in m = ep_address bi" "mi_bulk_out m = ep_address bo"
      "mi_max_packet_size m = ep_max_packet_size bi"
    using assms bi bo by (auto simp: from_interface_def Let_def)
  have "bi \<in> set (if_endpoints i)" "ep_is_bulk bi \<and> ep_is_in bi"
    using bi by (metis (mono_tags, lifting) find_Some_iff nth_mem)+
  moreover have "bo \<in> set (if_endpoints i)" "ep_is_bulk bo \<and> \<not> ep_is_in bo"
    using bo by (metis (mono_tags, lifting) find_Some_iff nth_mem)+
  ultimately show ?thesis using m by blast
qed

lemma from_interface_bulk_distinct:
  assumes "from_interface i = Inr m"
  shows "mi_bulk_in m AND DIRECTION_IN \<noteq> 0" "mi_bulk_out m AND DIRECTION_IN = 0"
    "mi_bulk_in m \<noteq> mi_bulk_out m"
  using from_interface_Inr [OF assms] by (auto simp: ep_is_in_def)

lemma first_named_Inr:
  "first_named name_of is d = (Inr m, d') \<Longrightarrow>
     \<exists>i\<in>set is. from_interface i = Inr m
       \<and> (\<exists>d1 name d2. name_of (if_string_index i) d1 = (Some name, d2) \<and> trim name = VENDOR_MTP_NAME)"
proof (induction "is" arbitrary: d)
  case Nil
  then show ?case by simp
next
  case (Cons i "is")
  obtain r d1 where r: "name_of (if_string_index i) d = (r, d1)" by fastforce
  show ?case
  proof (cases "map_option trim r = Some VENDOR_MTP_NAME")
    case True
    then obtain name where "r = Some name" "trim name = VENDOR_MTP_NAME" by (cases r) auto
    then show ?thesis using Cons.prems r by auto
  next
    case False
    then have "first_named name_of is d1 = (Inr m, d')"
      using Cons.prems r by (cases r) auto
    from Cons.IH [OF this] show ?thesis by auto
  qed
qed

lemma find_with_names_Inr:
  assumes "find_with_names cfg name_of d = (Inr m, d')"
  shows "\<exists>i\<in>set (cd_interfaces cfg). from_interface i = Inr m \<and>
    (is_mtp i \<or> (is_vendor_mtp_candidate i \<and> \<not> (\<exists>j\<in>set (cd_interfaces cfg). is_mtp j)
      \<and> (\<exists>d1 name d2. name_of (if_string_index i) d1 = (Some name, d2) \<and> trim name = VENDOR_MTP_NAME)))"
proof (cases "find is_mtp (cd_interfaces cfg)")
  case (Some i)
  then have "i \<in> set (cd_interfaces cfg)" "is_mtp i"
    by (metis (mono_tags, lifting) find_Some_iff nth_mem)+
  then show ?thesis using assms Some by (auto simp: find_with_names_def)
next
  case None
  then have "\<not> (\<exists>j\<in>set (cd_interfaces cfg). is_mtp j)" by (auto simp: find_None_iff)
  then show ?thesis
    using first_named_Inr [of name_of "filter is_vendor_mtp_candidate (cd_interfaces cfg)" d m d']
      assms None by (auto simp: find_with_names_def)
qed

lemma find_with_names_standard_asks_nothing:
  "i \<in> set (cd_interfaces cfg) \<Longrightarrow> is_mtp i \<Longrightarrow> snd (find_with_names cfg name_of d) = d"
  by (auto simp: find_with_names_def find_None_iff split: option.splits)

lemma first_named_pure:
  "first_named (\<lambda>k d. (names k, d)) is d =
     (case find (\<lambda>i. map_option trim (names (if_string_index i)) = Some VENDOR_MTP_NAME) is of
        None \<Rightarrow> (Inl NoMtpInterface, d)
      | Some i \<Rightarrow> (from_interface i, d))"
  by (induction "is") (auto split: option.splits)

section \<open>The capabilities of a device\<close>

text \<open>A capability descriptor: its type and the bytes after the type.\<close>

definition capability_bytes :: "u8 \<times> bytes \<Rightarrow> bytes" where
  "capability_bytes c = [word_of_nat (3 + length (snd c)), TYPE_DEVICE_CAPABILITY, fst c] @ snd c"

definition bos_bytes :: "(u8 \<times> bytes) list \<Rightarrow> bytes" where
  "bos_bytes cs =
     (let body = concat (map capability_bytes cs)
      in [5, TYPE_BOS] @ u16_to_le_bytes (word_of_nat (5 + length body)) @ [word_of_nat (length cs)] @ body)"

text \<open>What a list of capabilities says, read from the list itself; the last speed mask counts.\<close>

definition capabilities_of :: "(u8 \<times> bytes) list \<Rightarrow> device_capabilities" where
  "capabilities_of cs =
     \<lparr>dc_super_speed = list_ex (\<lambda>c. fst c = CAPABILITY_SUPER_SPEED) cs,
      dc_super_speed_plus = list_ex (\<lambda>c. fst c = CAPABILITY_SUPER_SPEED_PLUS) cs,
      dc_speeds_supported =
        (case filter (\<lambda>c. fst c = CAPABILITY_SUPER_SPEED \<and> 3 \<le> length (snd c)) (rev cs) of
           [] \<Rightarrow> None | c # _ \<Rightarrow> Some (u16_from_le_bytes (take 2 (drop 1 (snd c)))))\<rparr>"

lemma list_of_two: "2 \<le> length xs \<Longrightarrow> [xs ! 0, xs ! Suc 0] = take 2 xs"
  by (cases xs; cases "tl xs") (auto simp: numeral_2_eq_2)

lemma add_capability_snoc:
  assumes "buf ! (pos + 1) = TYPE_DEVICE_CAPABILITY" and "buf ! (pos + 2) = fst c"
    and "3 \<le> length (snd c) \<Longrightarrow> [buf ! (pos + 4), buf ! (pos + 5)] = take 2 (drop 1 (snd c))"
  shows "add_capability buf pos (3 + length (snd c)) (capabilities_of cs) = capabilities_of (cs @ [c])"
  using assms by (simp add: add_capability_def capabilities_of_def Let_def
      CAPABILITY_SUPER_SPEED_def CAPABILITY_SUPER_SPEED_PLUS_def)

lemma add_capability_bytes:
  assumes "length pre = pos"
  shows "add_capability (pre @ capability_bytes c @ post) pos (length (capability_bytes c)) (capabilities_of cs)
    = capabilities_of (cs @ [c])"
proof -
  define buf where "buf = pre @ capability_bytes c @ post"
  have "buf ! (pos + 1) = TYPE_DEVICE_CAPABILITY" "buf ! (pos + 2) = fst c"
    using assms by (simp_all add: buf_def capability_bytes_def nth_append)
  moreover have "[buf ! (pos + 4), buf ! (pos + 5)] = take 2 (drop 1 (snd c))" if "3 \<le> length (snd c)"
  proof -
    have "buf ! (pos + 4) = drop 1 (snd c) ! 0" "buf ! (pos + 5) = drop 1 (snd c) ! Suc 0"
      using assms that by (simp_all add: buf_def capability_bytes_def nth_append numeral_eq_Suc)
    then show ?thesis using list_of_two [of "drop 1 (snd c)"] that by simp
  qed
  moreover have "length (capability_bytes c) = 3 + length (snd c)" by (simp add: capability_bytes_def)
  ultimately show ?thesis using add_capability_snoc [of buf pos c cs] by (simp add: buf_def)
qed

lemma bos_walk_capabilities:
  assumes "list_all (\<lambda>c. length (snd c) < 253) ds" and "length pre = pos"
  shows "bos_walk (pre @ concat (map capability_bytes ds) @ post)
      (pos + length (concat (map capability_bytes ds))) pos (capabilities_of cs)
    = Inr (capabilities_of (cs @ ds))"
  using assms
proof (induction ds arbitrary: pre pos cs)
  case Nil
  then show ?case by (simp add: bos_walk.simps)
next
  case (Cons d ds)
  let ?body = "concat (map capability_bytes ds)"
  let ?buf = "pre @ capability_bytes d @ ?body @ post"
  let ?len = "length (capability_bytes d)"
  have d: "length (snd d) < 253" using Cons.prems by simp
  then have len: "unat (?buf ! pos) = ?len" "3 \<le> ?len" "capability_bytes d \<noteq> []"
    using Cons.prems(2) by (simp_all add: capability_bytes_def nth_append unat_of_nat del: of_nat_add)
  have IH: "bos_walk ?buf (pos + ?len + length ?body) (pos + ?len) (capabilities_of (cs @ [d]))
      = Inr (capabilities_of ((cs @ [d]) @ ds))"
    using Cons.IH [of "pre @ capability_bytes d" "pos + ?len" "cs @ [d]"] Cons.prems
    by (simp del: append_assoc add: append_assoc [symmetric])
  show ?case
    using len IH add_capability_bytes [OF Cons.prems(2), of d "?body @ post" cs]
    by (simp add: bos_walk.simps [of _ _ pos] Let_def add.assoc)
qed

section \<open>Properties\<close>

lemma config_parse_group_witness:
  "config_parse (config_bytes 1 1 [0, 0, 0]
      [DInterface \<lparr>if_number = 2, if_alternate_setting = 0, if_class = 6, if_subclass = 1,
         if_protocol = 1, if_string_index = 5, if_endpoints = []\<rparr> 2 [],
       DOther 0x24 [1, 2], DEndpoint \<lparr>ep_address = 0x81, ep_transfer_type = 2, ep_max_packet_size = 512\<rparr> 2 0 [],
       DEndpoint \<lparr>ep_address = 0x01, ep_transfer_type = 2, ep_max_packet_size = 512\<rparr> 2 0 []] @ [7])
    = Inr \<lparr>cd_total_length = 36, cd_num_interfaces = 1, cd_configuration_value = 1,
        cd_interfaces = [\<lparr>if_number = 2, if_alternate_setting = 0, if_class = 6, if_subclass = 1,
          if_protocol = 1, if_string_index = 5,
          if_endpoints = [\<lparr>ep_address = 0x81, ep_transfer_type = 2, ep_max_packet_size = 512\<rparr>,
            \<lparr>ep_address = 0x01, ep_transfer_type = 2, ep_max_packet_size = 512\<rparr>]\<rparr>]\<rparr>"
proof -
  let ?ds = "[DInterface \<lparr>if_number = 2, if_alternate_setting = 0, if_class = 6, if_subclass = 1,
         if_protocol = 1, if_string_index = 5, if_endpoints = []\<rparr> 2 [],
       DOther 0x24 [1, 2], DEndpoint \<lparr>ep_address = 0x81, ep_transfer_type = 2, ep_max_packet_size = 512\<rparr> 2 0 [],
       DEndpoint \<lparr>ep_address = 0x01, ep_transfer_type = 2, ep_max_packet_size = 512\<rparr> 2 0 []]"
  have "list_all descriptor_ok ?ds"
    by (simp add: transfer_type_of_def TYPE_INTERFACE_def TYPE_ENDPOINT_def)
  moreover have "length (config_bytes 1 1 [0, 0, 0] ?ds) = 36"
    by (simp add: config_bytes_def Let_def)
  ultimately show ?thesis
    using config_parse_group [of ?ds "[0, 0, 0]" 1 1 "[7]"] by simp
qed

lemma config_parse_declared_witness:
  "config_parse (take 9 [9, 2, 9, 0, 1, 1, 0, 0, 0, 7, 5, 0x81, 2])
    = config_parse [9, 2, 9, 0, 1, 1, 0, 0, 0, 7, 5, 0x81, 2]"
proof -
  let ?buf = "[9, 2, 9, 0, 1, 1, 0, 0, 0, 7, 5, 0x81, 2] :: bytes"
  have "9 = unat (u16_from_le_bytes [?buf ! 2, ?buf ! 3])" by code_simp
  then show ?thesis by (rule config_parse_declared [rotated]) simp_all
qed

text \<open>
  C29: the interface the search gives is one of the configuration, it has a bulk endpoint in each
  direction with different addresses, and it is a still imaging interface, or, when the
  configuration holds none, a vendor interface whose name is MTP; no adb interface comes out.
\<close>

theorem find_with_names_sound:
  assumes "find_with_names cfg name_of d = (Inr m, d')"
  shows "\<exists>i\<in>set (cd_interfaces cfg). from_interface i = Inr m
    \<and> (is_mtp i \<or> is_vendor_mtp_candidate i \<and> \<not> list_ex is_mtp (cd_interfaces cfg)
        \<and> (\<exists>d1 name d2. name_of (if_string_index i) d1 = (Some name, d2) \<and> trim name = VENDOR_MTP_NAME))
    \<and> \<not> is_adb i
    \<and> mi_bulk_in m AND DIRECTION_IN \<noteq> 0 \<and> mi_bulk_out m AND DIRECTION_IN = 0"
proof -
  obtain i where i: "i \<in> set (cd_interfaces cfg)" "from_interface i = Inr m"
    and kind: "is_mtp i \<or> is_vendor_mtp_candidate i \<and> \<not> (\<exists>j\<in>set (cd_interfaces cfg). is_mtp j)
      \<and> (\<exists>d1 name d2. name_of (if_string_index i) d1 = (Some name, d2) \<and> trim name = VENDOR_MTP_NAME)"
    using find_with_names_Inr [OF assms] by blast
  moreover have "\<not> is_adb i"
    using kind by (auto simp: is_mtp_def is_vendor_mtp_candidate_def is_adb_def MTP_CLASS_def ADB_CLASS_def
        ADB_SUBCLASS_def VENDOR_MTP_SUBCLASS_def)
  ultimately show ?thesis
    using from_interface_bulk_distinct [OF i(2)] by (auto simp: list_ex_iff)
qed

lemma find_with_names_sound_witness:
  "\<exists>i\<in>set [\<lparr>if_number = 0, if_alternate_setting = 0, if_class = 0xff, if_subclass = 0xff,
       if_protocol = 0, if_string_index = 4,
       if_endpoints = [\<lparr>ep_address = 0x81, ep_transfer_type = 2, ep_max_packet_size = 512\<rparr>,
         \<lparr>ep_address = 0x01, ep_transfer_type = 2, ep_max_packet_size = 512\<rparr>]\<rparr>]. is_vendor_mtp_candidate i"
proof -
  let ?i = "\<lparr>if_number = 0, if_alternate_setting = 0, if_class = 0xff, if_subclass = 0xff,
       if_protocol = 0, if_string_index = 4,
       if_endpoints = [\<lparr>ep_address = 0x81, ep_transfer_type = 2, ep_max_packet_size = 512\<rparr>,
         \<lparr>ep_address = 0x01, ep_transfer_type = 2, ep_max_packet_size = 512\<rparr>]\<rparr>"
  let ?cfg = "\<lparr>cd_total_length = 32, cd_num_interfaces = 1, cd_configuration_value = 1, cd_interfaces = [?i]\<rparr>"
  have "fst (find_with_names ?cfg (\<lambda>k d. (Some (lit '' MTP''), d)) ())
      = Inr \<lparr>mi_interface_number = 0, mi_alternate_setting = 0, mi_class = 0xff, mi_subclass = 0xff,
          mi_protocol = 0, mi_bulk_in = 0x81, mi_bulk_out = 1, mi_interrupt_in = None,
          mi_max_packet_size = 512\<rparr>"
    by code_simp
  then obtain m d' where "find_with_names ?cfg (\<lambda>k d. (Some (lit '' MTP''), d)) () = (Inr m, d')"
    by (metis prod.collapse)
  from find_with_names_sound [OF this] show ?thesis by (simp add: is_mtp_def MTP_CLASS_def)
qed

text \<open>
  A BOS descriptor reads as the capabilities it lists: the super speed bits say whether such
  a capability stands anywhere in the list, and the speed mask is that of the last capability
  long enough to carry one.
\<close>

theorem capabilities_parse_list:
  assumes "list_all (\<lambda>c. length (snd c) < 253) cs" and "length (bos_bytes cs) < 65536"
  shows "capabilities_parse (bos_bytes cs @ post) = Inr (capabilities_of cs)"
proof -
  let ?body = "concat (map capability_bytes cs)"
  let ?w = "word_of_nat (5 + length ?body) :: u16"
  let ?pre = "[5, TYPE_BOS] @ u16_to_le_bytes ?w @ [word_of_nat (length cs)]"
  define buf where "buf = bos_bytes cs @ post"
  have buf: "buf = ?pre @ ?body @ post" by (simp add: buf_def bos_bytes_def Let_def)
  have "length (bos_bytes cs) = 5 + length ?body" by (simp add: bos_bytes_def Let_def)
  then have w: "unat ?w = 5 + length ?body" using assms(2) by (simp add: unat_of_nat del: of_nat_add)
  have nths: "buf ! 0 = 5" "buf ! 1 = TYPE_BOS" "u16_from_le_bytes [buf ! 2, buf ! 3] = ?w"
    using u16_le_pair [of ?w] by (simp_all add: buf nth_append del: of_nat_add)
  have "capabilities_of [] = \<lparr>dc_super_speed = False, dc_super_speed_plus = False, dc_speeds_supported = None\<rparr>"
    by (simp add: capabilities_of_def)
  moreover have "bos_walk buf (5 + length ?body) 5 (capabilities_of []) = Inr (capabilities_of cs)"
    using bos_walk_capabilities [OF assms(1), of ?pre 5 post "[]"] by (simp add: buf)
  moreover have "length buf = 5 + length ?body + length post" by (simp add: buf)
  ultimately show ?thesis
    using w nths(2) by (simp add: capabilities_parse_def nths(1,3) Let_def flip: buf_def)
qed

lemma capabilities_parse_list_witness:
  "capabilities_parse (bos_bytes [(CAPABILITY_SUPER_SPEED, [0, 0x0e, 0, 1]), (2, [0])] @ [9])
    = Inr \<lparr>dc_super_speed = True, dc_super_speed_plus = False, dc_speeds_supported = Some 0x0e\<rparr>"
proof -
  let ?cs = "[(CAPABILITY_SUPER_SPEED, [0, 0x0e, 0, 1]), (2, [0])] :: (u8 \<times> bytes) list"
  have "length (bos_bytes ?cs) < 65536" by (simp add: bos_bytes_def capability_bytes_def Let_def)
  moreover have "capabilities_of ?cs =
      \<lparr>dc_super_speed = True, dc_super_speed_plus = False, dc_speeds_supported = Some 0x0e\<rparr>"
    by code_simp
  ultimately show ?thesis using capabilities_parse_list [of ?cs "[9]"] by simp
qed

end
