(* ===== verification/Usb_Device.thy ===== *)
theory Usb_Device
  imports Usb_Descriptor
begin

text \<open>
  Devices and transfers, \<open>crates/usb-freebsd/src/device.rs\<close>. The C library \<open>libusb20\<close> is not part
  of the repository: it is the record \<open>libusb20\<close> of the calls this module makes, over a state
  \<open>'d\<close> of the library and the devices behind it. A pointer is a number and null is \<open>None\<close>. A
  call that fills a buffer takes the buffer and gives it back.
\<close>

section \<open>The calls of the library\<close>

type_synonym pointer = nat
type_synonym code = int

record control_setup =
  bmRequestType :: u8
  bRequest :: u8
  wValue :: u16
  wIndex :: u16
  wLength :: u16

record 'd libusb20 =
  lib_be_alloc_default :: "'d \<Rightarrow> pointer option \<times> 'd"
  lib_be_device_foreach :: "pointer \<Rightarrow> pointer option \<Rightarrow> 'd \<Rightarrow> pointer option \<times> 'd"
  lib_be_free :: "pointer \<Rightarrow> 'd \<Rightarrow> 'd"
  lib_dev_get_bus_number :: "pointer \<Rightarrow> 'd \<Rightarrow> u8"
  lib_dev_get_address :: "pointer \<Rightarrow> 'd \<Rightarrow> u8"
  lib_dev_get_speed :: "pointer \<Rightarrow> 'd \<Rightarrow> u8"
  lib_dev_get_device_desc :: "pointer \<Rightarrow> 'd \<Rightarrow> (u16 \<times> u16) option"
  lib_dev_open :: "pointer \<Rightarrow> u16 \<Rightarrow> 'd \<Rightarrow> code \<times> 'd"
  lib_dev_close :: "pointer \<Rightarrow> 'd \<Rightarrow> 'd"
  lib_dev_request_sync ::
    "pointer \<Rightarrow> control_setup \<Rightarrow> bytes option \<Rightarrow> u32 \<Rightarrow> 'd \<Rightarrow> (code \<times> bytes \<times> u16) \<times> 'd"
  lib_dev_req_string_simple_sync :: "pointer \<Rightarrow> u8 \<Rightarrow> bytes \<Rightarrow> u16 \<Rightarrow> 'd \<Rightarrow> (code \<times> bytes) \<times> 'd"
  lib_dev_kernel_driver_active :: "pointer \<Rightarrow> u8 \<Rightarrow> 'd \<Rightarrow> code \<times> 'd"
  lib_dev_detach_kernel_driver :: "pointer \<Rightarrow> u8 \<Rightarrow> 'd \<Rightarrow> code \<times> 'd"
  lib_dev_reset :: "pointer \<Rightarrow> 'd \<Rightarrow> code \<times> 'd"
  lib_tr_get_pointer :: "pointer \<Rightarrow> u16 \<Rightarrow> 'd \<Rightarrow> pointer option"
  lib_tr_open :: "pointer \<Rightarrow> u32 \<Rightarrow> u32 \<Rightarrow> u8 \<Rightarrow> 'd \<Rightarrow> code \<times> 'd"
  lib_tr_bulk_intr_sync ::
    "pointer \<Rightarrow> bytes \<Rightarrow> u32 \<Rightarrow> u32 \<Rightarrow> 'd \<Rightarrow> (u8 \<times> bytes \<times> u32) \<times> 'd"
  lib_tr_clear_stall_sync :: "pointer \<Rightarrow> 'd \<Rightarrow> 'd"
  lib_tr_drain :: "pointer \<Rightarrow> 'd \<Rightarrow> 'd"
  lib_tr_close :: "pointer \<Rightarrow> 'd \<Rightarrow> 'd"

section \<open>Values of the module\<close>

definition MAX_DEVICES :: nat where "MAX_DEVICES = 1024"
definition CONFIG_DESCRIPTOR_MAX :: nat where "CONFIG_DESCRIPTOR_MAX = 4096"
definition REQUEST_GET_DESCRIPTOR :: u8 where "REQUEST_GET_DESCRIPTOR = 0x06"
definition REQUEST_TYPE_IN_STANDARD_DEVICE :: u8 where "REQUEST_TYPE_IN_STANDARD_DEVICE = 0x80"
definition DESCRIPTOR_TYPE_CONFIGURATION :: u16 where "DESCRIPTOR_TYPE_CONFIGURATION = 0x0200"
definition PTP_DEVICE_RESET_REQUEST :: u8 where "PTP_DEVICE_RESET_REQUEST = 0x66"
definition DESCRIPTOR_TYPE_BOS :: u16 where "DESCRIPTOR_TYPE_BOS = 0x0f00"
definition BOS_DESCRIPTOR_MAX :: nat where "BOS_DESCRIPTOR_MAX = 256"
definition REQUEST_TYPE_OUT_CLASS_INTERFACE :: u8 where "REQUEST_TYPE_OUT_CLASS_INTERFACE = 0x21"

datatype transfer_status =
    Completed | TransferError | TimedOut | Cancelled | Stall | NoDevice | Overflow | OtherStatus u8

definition status_from_wire :: "u8 \<Rightarrow> transfer_status" where
  "status_from_wire v =
     (if v = 0 then Completed
      else if v = 3 then TransferError
      else if v = 4 then TimedOut
      else if v = 5 then Cancelled
      else if v = 6 then Stall
      else if v = 7 then NoDevice
      else if v = 8 then Overflow
      else OtherStatus v)"

definition status_is_ok :: "transfer_status \<Rightarrow> bool" where
  "status_is_ok s \<longleftrightarrow> s = Completed"

datatype link_speed =
    UnknownSpeed | Low | Full | High | Variable | Super | SuperPlus | OtherSpeed u8

definition speed_from_wire :: "u8 \<Rightarrow> link_speed" where
  "speed_from_wire v =
     (if v = 0 then UnknownSpeed
      else if v = 1 then Low
      else if v = 2 then Full
      else if v = 3 then High
      else if v = 4 then Variable
      else if v = 5 then Super
      else if v = 6 then SuperPlus
      else OtherSpeed v)"

fun bits_per_second :: "link_speed \<Rightarrow> nat option" where
  "bits_per_second Low = Some 1500000"
| "bits_per_second Full = Some 12000000"
| "bits_per_second High = Some 480000000"
| "bits_per_second Super = Some 5000000000"
| "bits_per_second SuperPlus = Some 10000000000"
| "bits_per_second UnknownSpeed = None"
| "bits_per_second Variable = None"
| "bits_per_second (OtherSpeed v) = None"

fun practical_bytes_per_second :: "link_speed \<Rightarrow> nat option" where
  "practical_bytes_per_second Low = Some 150000"
| "practical_bytes_per_second Full = Some 1000000"
| "practical_bytes_per_second High = Some 42000000"
| "practical_bytes_per_second Super = Some 400000000"
| "practical_bytes_per_second SuperPlus = Some 900000000"
| "practical_bytes_per_second UnknownSpeed = None"
| "practical_bytes_per_second Variable = None"
| "practical_bytes_per_second (OtherSpeed v) = None"

datatype usb_error =
    NoBackend
  | OpenFailed code
  | ControlFailed code
  | EndpointOpen u8 code
  | Transfer u8 transfer_status
  | ShortWrite nat nat
  | Detach u8 code
  | ResetFailed code
  | Descriptor descriptor_error
  | TimeoutTooLarge nat

text \<open>A \<open>Duration\<close> is a count of nanoseconds.\<close>

type_synonym duration = nat

definition from_millis :: "nat \<Rightarrow> duration" where
  "from_millis n = n * 1000000"

definition as_millis :: "duration \<Rightarrow> nat" where
  "as_millis d = d div 1000000"

definition timeout_millis :: "duration \<Rightarrow> usb_error + u32" where
  "timeout_millis d =
     (let ms = as_millis d in
      if ms > u32_max then Inl (TimeoutTooLarge ms) else Inr (max 1 (word_of_nat ms)))"

type_synonym ('d, 'a) usb = "('d, usb_error, 'a) sm"

section \<open>The backend and its devices\<close>

definition backend_new :: "'d libusb20 \<Rightarrow> ('d, pointer) usb" where
  "backend_new L = (\<lambda>d. case lib_be_alloc_default L d of
      (None, d') \<Rightarrow> (Inl NoBackend, d')
    | (Some be, d') \<Rightarrow> (Inr be, d'))"

fun devices_from :: "'d libusb20 \<Rightarrow> pointer \<Rightarrow> nat \<Rightarrow> pointer option \<Rightarrow> 'd \<Rightarrow> pointer list \<times> 'd" where
  "devices_from L be 0 cur d = ([], d)"
| "devices_from L be (Suc n) cur d =
     (case lib_be_device_foreach L be cur d of
        (None, d') \<Rightarrow> ([], d')
      | (Some dev, d') \<Rightarrow>
          (case devices_from L be n (Some dev) d' of (devs, d'') \<Rightarrow> (dev # devs, d'')))"

definition devices :: "'d libusb20 \<Rightarrow> pointer \<Rightarrow> 'd \<Rightarrow> pointer list \<times> 'd" where
  "devices L be = devices_from L be MAX_DEVICES None"

definition ids :: "'d libusb20 \<Rightarrow> pointer \<Rightarrow> 'd \<Rightarrow> u16 \<times> u16" where
  "ids L dev d = (case lib_dev_get_device_desc L dev d of None \<Rightarrow> (0, 0) | Some i \<Rightarrow> i)"

definition dev_speed :: "'d libusb20 \<Rightarrow> pointer \<Rightarrow> 'd \<Rightarrow> link_speed" where
  "dev_speed L dev d = speed_from_wire (lib_dev_get_speed L dev d)"

definition open_device :: "'d libusb20 \<Rightarrow> pointer \<Rightarrow> u16 \<Rightarrow> ('d, pointer) usb" where
  "open_device L dev transfer_slots = (\<lambda>d. case lib_dev_open L dev transfer_slots d of
      (rc, d') \<Rightarrow> if rc \<noteq> 0 then (Inl (OpenFailed rc), d') else (Inr dev, d'))"

section \<open>Requests to an open device\<close>

definition control_request ::
    "'d libusb20 \<Rightarrow> pointer \<Rightarrow> u8 \<Rightarrow> u8 \<Rightarrow> u16 \<Rightarrow> u16 \<Rightarrow> nat \<Rightarrow> duration \<Rightarrow> ('d, bytes) usb" where
  "control_request L dev request_type request value index capacity timeout =
     and_then (from_result (timeout_millis timeout)) (\<lambda>ms d.
       let buf = replicate capacity 0;
           request_setup = \<lparr>bmRequestType = request_type, bRequest = request, wValue = value,
                    wIndex = index, wLength = word_of_nat capacity\<rparr>;
           data = (if capacity = 0 then None else Some buf)
       in case lib_dev_request_sync L dev request_setup data ms d of
            ((rc, filled, actual), d') \<Rightarrow>
              if rc \<noteq> 0 then (Inl (ControlFailed rc), d')
              else (Inr (take (unat actual) (if capacity = 0 then [] else filled)), d'))"

definition config_descriptor_raw :: "'d libusb20 \<Rightarrow> pointer \<Rightarrow> duration \<Rightarrow> ('d, bytes) usb" where
  "config_descriptor_raw L dev timeout =
     control_request L dev REQUEST_TYPE_IN_STANDARD_DEVICE REQUEST_GET_DESCRIPTOR
       DESCRIPTOR_TYPE_CONFIGURATION 0 CONFIG_DESCRIPTOR_MAX timeout"

definition bos_descriptor_raw :: "'d libusb20 \<Rightarrow> pointer \<Rightarrow> duration \<Rightarrow> ('d, bytes) usb" where
  "bos_descriptor_raw L dev timeout =
     control_request L dev REQUEST_TYPE_IN_STANDARD_DEVICE REQUEST_GET_DESCRIPTOR
       DESCRIPTOR_TYPE_BOS 0 BOS_DESCRIPTOR_MAX timeout"

definition capabilities ::
    "'d libusb20 \<Rightarrow> pointer \<Rightarrow> duration \<Rightarrow> ('d, device_capabilities) usb" where
  "capabilities L dev timeout =
     and_then (bos_descriptor_raw L dev timeout) (\<lambda>raw.
       map_err Descriptor (from_result (capabilities_parse raw)))"

definition string_descriptor :: "'d libusb20 \<Rightarrow> pointer \<Rightarrow> 'd naming" where
  "string_descriptor L dev index = (\<lambda>d.
     if index = 0 then (None, d)
     else case lib_dev_req_string_simple_sync L dev index (replicate 256 0) 256 d of
       ((rc, buf), d') \<Rightarrow>
         if rc \<noteq> 0 then (None, d')
         else (case from_utf8 (takeWhile (\<lambda>b. b \<noteq> 0) buf) of
             Some s \<Rightarrow> if s \<noteq> [] then (Some s, d') else (None, d')
           | None \<Rightarrow> (None, d')))"

definition class_request_out ::
    "'d libusb20 \<Rightarrow> pointer \<Rightarrow> u8 \<Rightarrow> u16 \<Rightarrow> u8 \<Rightarrow> duration \<Rightarrow> ('d, unit) usb" where
  "class_request_out L dev request value interface_number timeout =
     and_then (control_request L dev REQUEST_TYPE_OUT_CLASS_INTERFACE request value
                 (ucast interface_number) 0 timeout) (\<lambda>_. ok ())"

definition ptp_device_reset :: "'d libusb20 \<Rightarrow> pointer \<Rightarrow> u8 \<Rightarrow> duration \<Rightarrow> ('d, unit) usb" where
  "ptp_device_reset L dev interface_number timeout =
     class_request_out L dev PTP_DEVICE_RESET_REQUEST 0 interface_number timeout"

definition kernel_driver_active :: "'d libusb20 \<Rightarrow> pointer \<Rightarrow> u8 \<Rightarrow> 'd \<Rightarrow> bool \<times> 'd" where
  "kernel_driver_active L dev interface_number d =
     (case lib_dev_kernel_driver_active L dev interface_number d of (rc, d') \<Rightarrow> (rc = 0, d'))"

definition detach_kernel_driver :: "'d libusb20 \<Rightarrow> pointer \<Rightarrow> u8 \<Rightarrow> ('d, unit) usb" where
  "detach_kernel_driver L dev interface_number = (\<lambda>d.
     case lib_dev_detach_kernel_driver L dev interface_number d of
       (rc, d') \<Rightarrow> if rc \<noteq> 0 then (Inl (Detach interface_number rc), d') else (Inr (), d'))"

definition dev_reset :: "'d libusb20 \<Rightarrow> pointer \<Rightarrow> ('d, unit) usb" where
  "dev_reset L dev = (\<lambda>d. case lib_dev_reset L dev d of
     (rc, d') \<Rightarrow> if rc \<noteq> 0 then (Inl (ResetFailed rc), d') else (Inr (), d'))"

definition drop_open_device :: "'d libusb20 \<Rightarrow> pointer \<Rightarrow> 'd \<Rightarrow> 'd" where
  "drop_open_device L dev = lib_dev_close L dev"

section \<open>Bulk channels\<close>

record bulk_channel =
  bc_xfer :: pointer
  bc_endpoint :: u8

record mtp_device =
  md_write :: bulk_channel
  md_read :: bulk_channel
  md_device :: pointer

definition open_transfer ::
    "'d libusb20 \<Rightarrow> pointer option \<Rightarrow> u8 \<Rightarrow> u32 \<Rightarrow> ('d, bulk_channel) usb" where
  "open_transfer L xfer endpoint_address buffer_size = (\<lambda>d.
     case xfer of
       None \<Rightarrow> (Inl (EndpointOpen endpoint_address (- 1)), d)
     | Some x \<Rightarrow>
         (case lib_tr_open L x buffer_size 1 endpoint_address d of
            (rc, d') \<Rightarrow>
              if rc \<noteq> 0 then (Inl (EndpointOpen endpoint_address rc), d')
              else (Inr \<lparr>bc_xfer = x, bc_endpoint = endpoint_address\<rparr>, d')))"

definition drop_bulk_channel :: "'d libusb20 \<Rightarrow> bulk_channel \<Rightarrow> 'd \<Rightarrow> 'd" where
  "drop_bulk_channel L c d = lib_tr_close L (bc_xfer c) (lib_tr_drain L (bc_xfer c) d)"

text \<open>
  A failure drops what the function owns: the write channel when the read channel does not open,
  and the device in both cases.
\<close>

definition into_mtp :: "'d libusb20 \<Rightarrow> pointer \<Rightarrow> mtp_interface \<Rightarrow> u32 \<Rightarrow> ('d, mtp_device) usb" where
  "into_mtp L dev iface buffer_size = (\<lambda>d.
     case open_transfer L (lib_tr_get_pointer L dev 0 d) (mi_bulk_out iface) buffer_size d of
       (Inl e, d1) \<Rightarrow> (Inl e, drop_open_device L dev d1)
     | (Inr w, d1) \<Rightarrow>
         (case open_transfer L (lib_tr_get_pointer L dev 1 d1) (mi_bulk_in iface) buffer_size d1 of
            (Inl e, d2) \<Rightarrow> (Inl e, drop_open_device L dev (drop_bulk_channel L w d2))
          | (Inr r, d2) \<Rightarrow> (Inr \<lparr>md_write = w, md_read = r, md_device = dev\<rparr>, d2)))"

definition drop_mtp_device :: "'d libusb20 \<Rightarrow> mtp_device \<Rightarrow> 'd \<Rightarrow> 'd" where
  "drop_mtp_device L m d =
     drop_open_device L (md_device m)
       (drop_bulk_channel L (md_read m) (drop_bulk_channel L (md_write m) d))"

text \<open>One transfer: the buffer after it, and the count the library reports.\<close>

definition transfer ::
    "'d libusb20 \<Rightarrow> bulk_channel \<Rightarrow> bytes \<Rightarrow> duration \<Rightarrow> ('d, bytes \<times> nat) usb" where
  "transfer L c buf timeout =
     and_then (from_result (timeout_millis timeout)) (\<lambda>ms d.
       case lib_tr_bulk_intr_sync L (bc_xfer c) buf (word_of_nat (length buf)) ms d of
         ((wire, filled, actual), d') \<Rightarrow>
           let status = status_from_wire wire in
           if \<not> status_is_ok status then (Inl (Transfer (bc_endpoint c) status), d')
           else (Inr (filled, unat actual), d'))"

definition bulk_write :: "'d libusb20 \<Rightarrow> bulk_channel \<Rightarrow> bytes \<Rightarrow> duration \<Rightarrow> ('d, nat) usb" where
  "bulk_write L c data timeout =
     and_then (transfer L c data timeout) (\<lambda>(owned, n).
       if n \<noteq> length data then err (ShortWrite (length data) n) else ok n)"

definition bulk_read ::
    "'d libusb20 \<Rightarrow> bulk_channel \<Rightarrow> bytes \<Rightarrow> duration \<Rightarrow> ('d, bytes \<times> nat) usb" where
  "bulk_read L c buf timeout = transfer L c buf timeout"

definition clear_stall :: "'d libusb20 \<Rightarrow> bulk_channel \<Rightarrow> 'd \<Rightarrow> 'd" where
  "clear_stall L c = lib_tr_clear_stall_sync L (bc_xfer c)"

section \<open>Timeouts, counts and what is closed\<close>

lemma timeout_millis_Inr:
  assumes "timeout_millis t = Inr ms"
  shows "ms \<noteq> 0" and "unat ms = max 1 (as_millis t)"
proof -
  have fit: "as_millis t < 2 ^ 32" and ms: "ms = max 1 (word_of_nat (as_millis t))"
    using assms by (auto simp: timeout_millis_def u32_max_def Let_def split: if_splits)
  have u: "unat (word_of_nat (as_millis t) :: u32) = as_millis t"
    using fit by (simp add: unat_of_nat)
  then show unat: "unat ms = max 1 (as_millis t)"
    unfolding ms by (auto simp: max_def word_le_nat_alt)
  show "ms \<noteq> 0" using unat by auto
qed

lemma timeout_millis_Inl: "timeout_millis t = Inl e \<longleftrightarrow> as_millis t > u32_max \<and> e = TimeoutTooLarge (as_millis t)"
  by (auto simp: timeout_millis_def Let_def)

lemma status_ok_iff: "status_is_ok (status_from_wire v) \<longleftrightarrow> v = 0"
  by (simp add: status_is_ok_def status_from_wire_def)

lemma bulk_write_Inr: "bulk_write L c data t d = (Inr n, d') \<Longrightarrow> n = length data"
  by (auto simp: bulk_write_def and_then_Inr_iff split: if_splits prod.splits)

lemma devices_from_length: "length (fst (devices_from L be n cur d)) \<le> n"
  by (induction L be n cur d rule: devices_from.induct) (auto split: prod.splits option.splits)

lemma devices_bounded: "length (fst (devices L be d)) \<le> MAX_DEVICES"
  by (simp add: devices_def devices_from_length)

lemma control_request_bounded:
  assumes "\<And>request_setup buf ms d. length (fst (snd (fst (lib_dev_request_sync L dev request_setup (Some buf) ms d))))
      = length buf"
    and "control_request L dev ty rq v i capacity t d = (Inr bs, d')"
  shows "length bs \<le> capacity"
proof (cases "timeout_millis t")
  case (Inl e)
  then show ?thesis using assms(2) by (simp add: control_request_def and_then_def)
next
  case (Inr ms)
  let ?request_setup = "\<lparr>bmRequestType = ty, bRequest = rq, wValue = v, wIndex = i, wLength = word_of_nat capacity\<rparr>"
  show ?thesis
    using assms(2) Inr assms(1) [of ?request_setup "replicate capacity 0" ms d]
    by (auto simp: control_request_def and_then_def Let_def split: prod.splits if_splits)
qed

lemma string_descriptor_Some:
  "string_descriptor L dev k d = (Some s, d') \<Longrightarrow> s \<noteq> [] \<and> k \<noteq> 0"
  by (auto simp: string_descriptor_def split: if_splits prod.splits option.splits)

section \<open>Properties\<close>

text \<open>
  The timeout a caller gives is the timeout the library gets, in milliseconds rounded down,
  with one millisecond for anything shorter, because the library takes zero for no limit; a
  timeout 32 bits cannot hold is refused and never cut.
\<close>

theorem timeout_millis_bounds:
  "case timeout_millis t of
     Inl e \<Rightarrow> u32_max < as_millis t \<and> e = TimeoutTooLarge (as_millis t)
   | Inr ms \<Rightarrow> as_millis t \<le> u32_max \<and> ms \<noteq> 0 \<and> unat ms = max 1 (as_millis t)"
proof (cases "timeout_millis t")
  case (Inl e)
  then show ?thesis using timeout_millis_Inl [of t e] by simp
next
  case (Inr ms)
  then have "as_millis t \<le> u32_max" by (simp add: timeout_millis_def Let_def split: if_splits)
  then show ?thesis using timeout_millis_Inr [OF Inr] Inr by simp
qed

end
