(* ===== verification/Mtp_Session.thy ===== *)
theory Mtp_Session
  imports Usb_Device Ptp_Datasets
begin

text \<open>
  One MTP session over two bulk endpoints, \<open>crates/mtp-session/src/lib.rs\<close>: the transactions,
  the data phase in both directions, the recovery of the endpoints and the repair of a session
  that an earlier program left open. The device below is a \<open>transport\<close>: the bulk channels of
  a USB device, or the scripted device of the tests. The clock is not modelled, so an outcome
  has no elapsed time.
\<close>

section \<open>Configuration\<close>

definition READ_BUFFER_MIN :: nat where "READ_BUFFER_MIN = 512"
definition MAX_DATA_BYTES :: nat where "MAX_DATA_BYTES = 64 * 1024 * 1024 * 1024"
definition MAX_READ_ROUNDS :: nat where "MAX_READ_ROUNDS = MAX_DATA_BYTES div READ_BUFFER_MIN"
definition DRAIN_FIRST_MILLIS :: nat where "DRAIN_FIRST_MILLIS = 15"
definition DRAIN_REST_MILLIS :: nat where "DRAIN_REST_MILLIS = 250"
definition USB2_PACKET :: nat where "USB2_PACKET = 512"

record config =
  cfg_timeout :: duration
  cfg_read_buffer :: nat
  cfg_write_chunk :: nat
  cfg_packet :: nat

definition default_config :: config where
  "default_config = \<lparr>cfg_timeout = from_millis 10000, cfg_read_buffer = 64 * 1024,
     cfg_write_chunk = 512 * 1024, cfg_packet = USB2_PACKET\<rparr>"

definition next_multiple_of :: "nat \<Rightarrow> nat \<Rightarrow> nat" where
  "next_multiple_of x m = (if x mod m = 0 then x else x + (m - x mod m))"

definition normalised :: "config \<Rightarrow> config" where
  "normalised c =
     (let c = (if cfg_packet c = 0 then c\<lparr>cfg_packet := USB2_PACKET\<rparr> else c);
          c = (if cfg_read_buffer c < READ_BUFFER_MIN
               then c\<lparr>cfg_read_buffer := READ_BUFFER_MIN\<rparr> else c);
          packet = cfg_packet c;
          least = next_multiple_of (HEADER_LEN + 1) packet;
          c = (if cfg_write_chunk c < least then c\<lparr>cfg_write_chunk := least\<rparr> else c)
      in c\<lparr>cfg_write_chunk := cfg_write_chunk c - cfg_write_chunk c mod packet\<rparr>)"

definition needs_zero_packet :: "nat \<Rightarrow> nat \<Rightarrow> bool" where
  "needs_zero_packet total_len packet \<longleftrightarrow> packet \<noteq> 0 \<and> total_len mod packet = 0"

section \<open>The switches of the environment\<close>

definition to_ascii_lowercase :: "ustring \<Rightarrow> ustring" where
  "to_ascii_lowercase s = map (\<lambda>c. if 65 \<le> c \<and> c \<le> 90 then c + 32 else c) s"

definition env_flag :: "ustring option \<Rightarrow> bool" where
  "env_flag v =
     (case v of
        None \<Rightarrow> False
      | Some v \<Rightarrow> to_ascii_lowercase (trim v)
          \<notin> {[], lit ''0'', lit ''no'', lit ''false'', lit ''off''})"

definition env_number :: "ustring option \<Rightarrow> nat option" where
  "env_number v = Option.bind v (from_str_radix 10 u64_max)"

section \<open>Outcomes and faults\<close>

record outcome =
  o_response_code :: u16
  o_data :: bytes
  o_response_params :: "u32 list"
  o_reads :: nat

record stream_outcome =
  so_response_code :: u16
  so_response_params :: "u32 list"
  so_bytes :: nat
  so_reads :: nat

definition outcome_is_ok :: "outcome \<Rightarrow> bool" where
  "outcome_is_ok out \<longleftrightarrow> o_response_code out = RESP_OK"

definition as_u32_array :: "outcome \<Rightarrow> parse_error + u32 list" where
  "as_u32_array out = (if o_data out = [] then Inr [] else parse_u32_array (o_data out))"

record session_open =
  sop_outcome :: outcome
  sop_repaired :: bool
  sop_close_response :: "u16 option"
  sop_dropped :: nat
  sop_wedged :: bool

type_synonym io_error = int

text \<open>
  The last two constructors are not values of the code: \<open>SliceOutOfRange\<close> is the panic of
  \<open>buf[..n]\<close> for a count past the buffer, and \<open>NoReturn\<close> stands for a call that does not return.
\<close>

datatype session_error =
    SUsb string usb_error
  | SParse string parse_error
  | Unexpected string container_type container_type
  | TooLarge string nat nat
  | Incomplete string nat nat
  | SWrite string io_error
  | ShortRead string nat nat "io_error option"
  | SBuild string payload_too_large
  | SliceOutOfRange string nat nat
  | NoReturn string

section \<open>The transport\<close>

record 'd transport =
  tp_write :: "bytes \<Rightarrow> duration \<Rightarrow> ('d, nat) usb"
  tp_read :: "bytes \<Rightarrow> duration \<Rightarrow> ('d, bytes \<times> nat) usb"
  tp_clear_stalls :: "'d \<Rightarrow> 'd"
  tp_speed :: "'d \<Rightarrow> link_speed"
  tp_capabilities :: "duration \<Rightarrow> ('d, device_capabilities) usb"
  tp_reset :: "('d, unit) usb"

definition mtp_transport :: "'d libusb20 \<Rightarrow> mtp_device \<Rightarrow> 'd transport" where
  "mtp_transport L m =
     \<lparr>tp_write = bulk_write L (md_write m),
      tp_read = bulk_read L (md_read m),
      tp_clear_stalls = (\<lambda>d. clear_stall L (md_read m) (clear_stall L (md_write m) d)),
      tp_speed = dev_speed L (md_device m),
      tp_capabilities = capabilities L (md_device m),
      tp_reset = dev_reset L (md_device m)\<rparr>"

datatype answer = Bytes bytes | Empty | Fail usb_error

record fake_device =
  fk_answers :: "answer list"
  fk_at :: nat
  fk_writes :: "bytes list"
  fk_stalls_cleared :: nat

definition fake_new :: "answer list \<Rightarrow> fake_device" where
  "fake_new answers = \<lparr>fk_answers = answers, fk_at = 0, fk_writes = [], fk_stalls_cleared = 0\<rparr>"

definition fake_write :: "bytes \<Rightarrow> duration \<Rightarrow> (fake_device, nat) usb" where
  "fake_write data timeout = (\<lambda>f. (Inr (length data), f\<lparr>fk_writes := fk_writes f @ [data]\<rparr>))"

definition fake_read :: "bytes \<Rightarrow> duration \<Rightarrow> (fake_device, bytes \<times> nat) usb" where
  "fake_read buf timeout = (\<lambda>f.
     if length (fk_answers f) \<le> fk_at f then (Inr (buf, 0), f)
     else let f' = f\<lparr>fk_at := fk_at f + 1\<rparr> in
       case fk_answers f ! fk_at f of
         Empty \<Rightarrow> (Inr (buf, 0), f')
       | Fail e \<Rightarrow> (Inl e, f')
       | Bytes b \<Rightarrow> let n = min (length b) (length buf) in (Inr (take n b @ drop n buf, n), f'))"

definition fake_transport :: "fake_device transport" where
  "fake_transport =
     \<lparr>tp_write = fake_write, tp_read = fake_read,
      tp_clear_stalls = (\<lambda>f. f\<lparr>fk_stalls_cleared := fk_stalls_cleared f + 1\<rparr>),
      tp_speed = (\<lambda>_. UnknownSpeed),
      tp_capabilities = (\<lambda>_. err NoBackend),
      tp_reset = ok ()\<rparr>"

section \<open>Readers and writers of the caller\<close>

type_synonym 'w io_writer = "bytes \<Rightarrow> ('w, io_error, unit) sm"

definition vec_writer :: "bytes io_writer" where
  "vec_writer bs = modify (\<lambda>w. w @ bs)"

datatype read_result = ReadBytes bytes | ReadInterrupted | ReadFault io_error

type_synonym 'r io_reader = "nat \<Rightarrow> 'r \<Rightarrow> read_result \<times> 'r"

definition slice_reader :: "bytes io_reader" where
  "slice_reader n r = (ReadBytes (take n r), drop n r)"

text \<open>A reader that answers \<open>Interrupted\<close> for ever keeps the loop going for ever.\<close>

partial_function (option) read_exact_loop ::
    "'r io_reader \<Rightarrow> nat \<Rightarrow> bytes \<Rightarrow> 'r \<Rightarrow> ((nat \<times> io_error option + bytes) \<times> 'r) option" where
  "read_exact_loop R len filled r =
     (if len \<le> length filled then Some (Inr filled, r)
      else case R (len - length filled) r of
          (ReadBytes bs, r') \<Rightarrow>
            if bs = [] then Some (Inl (length filled, None), r')
            else read_exact_loop R len (filled @ bs) r'
        | (ReadInterrupted, r') \<Rightarrow> read_exact_loop R len filled r'
        | (ReadFault e, r') \<Rightarrow> Some (Inl (length filled, Some e), r'))"

definition read_exact_or_short ::
    "'r io_reader \<Rightarrow> nat \<Rightarrow> string \<Rightarrow> ('r, session_error, bytes) sm" where
  "read_exact_or_short R len step = (\<lambda>r.
     case read_exact_loop R len [] r of
       None \<Rightarrow> (Inl (NoReturn step), r)
     | Some (Inr bs, r') \<Rightarrow> (Inr bs, r')
     | Some (Inl (filled, cause), r') \<Rightarrow> (Inl (ShortRead step len filled cause), r'))"

section \<open>One session\<close>

record 'd session =
  ses_device :: 'd
  ses_transaction :: u32
  ses_config :: config
  ses_session_open :: bool

type_synonym ('d, 'a) ses = "('d session, session_error, 'a) sm"

definition on_device :: "('d, 'e, 'a) sm \<Rightarrow> ('d session, 'e, 'a) sm" where
  "on_device m = (\<lambda>s. case m (ses_device s) of (r, d') \<Rightarrow> (r, s\<lparr>ses_device := d'\<rparr>))"

definition clear_stalls :: "'d transport \<Rightarrow> 'd session \<Rightarrow> 'd session" where
  "clear_stalls T s = s\<lparr>ses_device := tp_clear_stalls T (ses_device s)\<rparr>"

fun drain_rounds ::
    "'d transport \<Rightarrow> nat \<Rightarrow> bytes \<Rightarrow> duration \<Rightarrow> nat \<Rightarrow> 'd session \<Rightarrow> nat \<times> 'd session" where
  "drain_rounds T 0 buf deadline dropped s = (dropped, s)"
| "drain_rounds T (Suc k) buf deadline dropped s =
     (case on_device (tp_read T buf deadline) s of
        (Inr (buf', n), s') \<Rightarrow>
          if n = 0 then (dropped, s')
          else drain_rounds T k buf' (from_millis DRAIN_REST_MILLIS) (dropped + n) s'
      | (Inl e, s') \<Rightarrow> (dropped, s'))"

definition drain :: "'d transport \<Rightarrow> 'd session \<Rightarrow> nat \<times> 'd session" where
  "drain T s = drain_rounds T MAX_READ_ROUNDS (replicate (cfg_read_buffer (ses_config s)) 0)
     (from_millis DRAIN_FIRST_MILLIS) 0 s"

definition recover :: "'d transport \<Rightarrow> 'd session \<Rightarrow> nat \<times> 'd session" where
  "recover T s = drain T (clear_stalls T s)"

definition new_without_recovery :: "'d \<Rightarrow> config \<Rightarrow> 'd session" where
  "new_without_recovery device cfg =
     \<lparr>ses_device = device, ses_transaction = 0, ses_config = normalised cfg,
      ses_session_open = False\<rparr>"

definition session_new :: "'d transport \<Rightarrow> 'd \<Rightarrow> config \<Rightarrow> 'd session \<times> nat" where
  "session_new T device cfg =
     (case recover T (new_without_recovery device cfg) of (dropped, s) \<Rightarrow> (s, dropped))"

definition set_read_buffer :: "nat \<Rightarrow> 'd session \<Rightarrow> 'd session" where
  "set_read_buffer n s =
     s\<lparr>ses_config := (ses_config s)\<lparr>cfg_read_buffer := max n READ_BUFFER_MIN\<rparr>\<rparr>"

definition device_capabilities ::
    "'d transport \<Rightarrow> ('d session, usb_error, device_capabilities) sm" where
  "device_capabilities T = (\<lambda>s. on_device (tp_capabilities T (cfg_timeout (ses_config s))) s)"

definition reset_device :: "'d transport \<Rightarrow> ('d session, usb_error, unit) sm" where
  "reset_device T = on_device (tp_reset T)"

definition next_transaction :: "('d, u32) ses" where
  "next_transaction = (\<lambda>s.
     (Inr (ses_transaction s), s\<lparr>ses_transaction := ses_transaction s + 1\<rparr>))"

definition write_all :: "'d transport \<Rightarrow> string \<Rightarrow> bytes \<Rightarrow> ('d, unit) ses" where
  "write_all T step bs = (\<lambda>s.
     map_err (SUsb step)
       (and_then (on_device (tp_write T bs (cfg_timeout (ses_config s)))) (\<lambda>_. ok ())) s)"

definition read_once :: "'d transport \<Rightarrow> string \<Rightarrow> bytes \<Rightarrow> ('d, bytes \<times> nat) ses" where
  "read_once T step buf = (\<lambda>s.
     map_err (SUsb step) (on_device (tp_read T buf (cfg_timeout (ses_config s)))) s)"

text \<open>\<open>&buf[..n]\<close>\<close>

definition slice_to :: "string \<Rightarrow> bytes \<Rightarrow> nat \<Rightarrow> ('s, session_error, bytes) sm" where
  "slice_to step buf n =
     (if n \<le> length buf then ok (take n buf) else err (SliceOutOfRange step n (length buf)))"

definition write_out ::
    "'w io_writer \<Rightarrow> string \<Rightarrow> bytes \<Rightarrow> ('d session \<times> 'w, session_error, unit) sm" where
  "write_out W step bs = on_snd (map_err (SWrite step) (W bs))"

section \<open>The answer of an operation\<close>

record progress =
  pr_have :: nat
  pr_payload_bytes :: nat
  pr_reads :: nat

fun read_rounds ::
    "'d transport \<Rightarrow> 'w io_writer \<Rightarrow> string \<Rightarrow> nat \<Rightarrow> nat \<Rightarrow> bytes \<Rightarrow> progress \<Rightarrow>
     ('d session \<times> 'w, session_error, bytes \<times> progress) sm" where
  "read_rounds T W step declared 0 buf p = ok (buf, p)"
| "read_rounds T W step declared (Suc k) buf p =
     (if declared \<le> pr_have p then ok (buf, p)
      else and_then (on_fst (read_once T step buf)) (\<lambda>(buf', more).
        let p = p\<lparr>pr_reads := pr_reads p + 1\<rparr> in
        if more = 0 then ok (buf', p)
        else and_then (slice_to step buf' more) (\<lambda>bs.
          and_then (write_out W step bs) (\<lambda>_.
            read_rounds T W step declared k buf'
              (p\<lparr>pr_payload_bytes := pr_payload_bytes p + more, pr_have := pr_have p + more\<rparr>)))))"

definition read_container ::
    "'d transport \<Rightarrow> string \<Rightarrow> bytes \<Rightarrow> ('d session \<times> 'w, session_error, container) sm" where
  "read_container T step buf =
     and_then (on_fst (read_once T step buf)) (\<lambda>(buf', n2).
     and_then (slice_to step buf' n2) (\<lambda>bs.
     map_err (SParse step) (from_result (container_parse bs))))"

definition data_phase ::
    "'d transport \<Rightarrow> 'w io_writer \<Rightarrow> string \<Rightarrow> nat \<Rightarrow> bytes \<Rightarrow> nat \<Rightarrow> header \<Rightarrow>
     ('d session \<times> 'w, session_error, container \<times> progress) sm" where
  "data_phase T W step buf_size buf n first =
     (let declared = unat (h_length first) in
      if declared > MAX_DATA_BYTES then err (TooLarge step declared MAX_DATA_BYTES)
      else
        let start = min n HEADER_LEN in
        and_then (write_out W step (drop start (take n buf))) (\<lambda>_.
        let rounds = min (declared div buf_size + 16) MAX_READ_ROUNDS in
        and_then (read_rounds T W step declared rounds buf
            \<lparr>pr_have = n, pr_payload_bytes = n - start, pr_reads = 1\<rparr>) (\<lambda>(buf', p).
        if \<not> declared \<le> pr_have p then err (Incomplete step declared (pr_have p))
        else and_then (read_container T step buf') (\<lambda>c.
          if c_kind c \<noteq> Response then err (Unexpected step Response (c_kind c))
          else ok (c, p)))))"

definition read_answer_with ::
    "'d transport \<Rightarrow> 'w io_writer \<Rightarrow> string \<Rightarrow> nat \<Rightarrow>
     ('d session \<times> 'w, session_error, stream_outcome) sm" where
  "read_answer_with T W step buf_size =
     and_then (on_fst (read_once T step (replicate buf_size 0))) (\<lambda>(buf, n).
     and_then (slice_to step buf n) (\<lambda>bs.
     and_then (map_err (SParse step) (from_result (header_parse bs))) (\<lambda>first.
     case h_kind first of
       Data \<Rightarrow> and_then (data_phase T W step buf_size buf n first) (\<lambda>(c, p).
         ok \<lparr>so_response_code = c_code c, so_response_params = parameters c,
             so_bytes = pr_payload_bytes p, so_reads = pr_reads p\<rparr>)
     | Response \<Rightarrow> and_then (map_err (SParse step) (from_result (container_parse bs))) (\<lambda>c.
         ok \<lparr>so_response_code = c_code c, so_response_params = parameters c,
             so_bytes = 0, so_reads = 1\<rparr>)
     | other \<Rightarrow> err (Unexpected step Response other))))"

definition read_answer ::
    "'d transport \<Rightarrow> 'w io_writer \<Rightarrow> string \<Rightarrow>
     ('d session \<times> 'w, session_error, stream_outcome) sm" where
  "read_answer T W step = (\<lambda>s.
     read_answer_with T W step (cfg_read_buffer (ses_config (fst s))) s)"

section \<open>Operations\<close>

definition operation_stream ::
    "'d transport \<Rightarrow> 'w io_writer \<Rightarrow> string \<Rightarrow> u16 \<Rightarrow> u32 list \<Rightarrow>
     ('d session \<times> 'w, session_error, stream_outcome) sm" where
  "operation_stream T W step code params =
     and_then (on_fst next_transaction) (\<lambda>tid.
     and_then (on_fst (write_all T step (build_command code tid params))) (\<lambda>_.
     read_answer T W step))"

text \<open>An answer collected in a vector.\<close>

definition collecting ::
    "('s \<times> bytes, session_error, stream_outcome) sm \<Rightarrow> ('s, session_error, outcome) sm" where
  "collecting m = (\<lambda>s. case m (s, []) of
       (Inl e, (s', w)) \<Rightarrow> (Inl e, s')
     | (Inr so, (s', w)) \<Rightarrow>
         (Inr \<lparr>o_response_code = so_response_code so, o_data = w,
               o_response_params = so_response_params so, o_reads = so_reads so\<rparr>, s'))"

definition operation ::
    "'d transport \<Rightarrow> string \<Rightarrow> u16 \<Rightarrow> u32 list \<Rightarrow> ('d, outcome) ses" where
  "operation T step code params = collecting (operation_stream T vec_writer step code params)"

fun send_rounds ::
    "'d transport \<Rightarrow> 'r io_reader \<Rightarrow> string \<Rightarrow> nat \<Rightarrow> nat \<Rightarrow> nat \<Rightarrow> nat \<Rightarrow>
     ('d session \<times> 'r, session_error, nat) sm" where
  "send_rounds T R step chunk sz 0 sent = ok sent"
| "send_rounds T R step chunk sz (Suc k) sent =
     (if sz \<le> sent then ok sent
      else let want = min chunk (sz - sent) in
        and_then (on_snd (read_exact_or_short R want step)) (\<lambda>buf.
        and_then (on_fst (write_all T step buf)) (\<lambda>_.
        send_rounds T R step chunk sz k (sent + want))))"

definition operation_sending ::
    "'d transport \<Rightarrow> 'r io_reader \<Rightarrow> string \<Rightarrow> u16 \<Rightarrow> u32 list \<Rightarrow> nat \<Rightarrow>
     ('d session \<times> 'r, session_error, outcome) sm" where
  "operation_sending T R step code params sz =
     and_then (map_err (SBuild step) (from_result (container_length sz))) (\<lambda>total_len.
     and_then (on_fst next_transaction) (\<lambda>tid.
     and_then (on_fst (write_all T step (build_command code tid params))) (\<lambda>_.
     and_then (gets (\<lambda>s. ses_config (fst s))) (\<lambda>cfg.
     let chunk = cfg_write_chunk cfg in
     and_then (map_err (SBuild step) (from_result (build_data_header code tid sz))) (\<lambda>first.
     let room = chunk - HEADER_LEN; want = min room sz in
     and_then (on_snd (read_exact_or_short R want step)) (\<lambda>buf.
     and_then (on_fst (write_all T step (first @ buf))) (\<lambda>_.
     and_then (send_rounds T R step chunk sz (sz div chunk + 4) want) (\<lambda>sent.
     if sent < sz then err (ShortRead step sz sent None)
     else
       and_then (if needs_zero_packet (unat total_len) (cfg_packet cfg)
                 then on_fst (write_all T step []) else ok ()) (\<lambda>_.
       on_fst (collecting (read_answer T vec_writer step)))))))))))"

definition operation_with_data ::
    "'d transport \<Rightarrow> string \<Rightarrow> u16 \<Rightarrow> u32 list \<Rightarrow> bytes \<Rightarrow> ('d, outcome) ses" where
  "operation_with_data T step code params payload = (\<lambda>s.
     case operation_sending T slice_reader step code params (length payload) (s, payload) of
       (r, (s', rest)) \<Rightarrow> (r, s'))"

section \<open>Opening, closing and repair\<close>

definition open_session :: "'d transport \<Rightarrow> u32 \<Rightarrow> ('d, outcome) ses" where
  "open_session T sid =
     and_then (operation T ''OpenSession'' OPEN_SESSION [sid]) (\<lambda>out.
     and_then (if outcome_is_ok out \<or> o_response_code out = RESP_SESSION_ALREADY_OPEN
               then modify (\<lambda>s. s\<lparr>ses_session_open := True\<rparr>) else ok ()) (\<lambda>_.
     ok out))"

definition close_session :: "'d transport \<Rightarrow> ('d, outcome) ses" where
  "close_session T =
     and_then (operation T ''CloseSession'' CLOSE_SESSION []) (\<lambda>out.
     and_then (if outcome_is_ok out
               then modify (\<lambda>s. s\<lparr>ses_session_open := False\<rparr>) else ok ()) (\<lambda>_.
     ok out))"

definition open_session_or_repair :: "'d transport \<Rightarrow> u32 \<Rightarrow> ('d, session_open) ses" where
  "open_session_or_repair T sid =
     and_then (open_session T sid) (\<lambda>first.
     if o_response_code first \<noteq> RESP_SESSION_ALREADY_OPEN
     then ok \<lparr>sop_outcome = first, sop_repaired = False, sop_close_response = None,
              sop_dropped = 0, sop_wedged = False\<rparr>
     else
       and_then (unwrap_or None (and_then (close_session T) (\<lambda>out. ok (Some (o_response_code out)))))
         (\<lambda>close_response.
       and_then (\<lambda>s. case recover T s of (dropped, s') \<Rightarrow> (Inr dropped, s')) (\<lambda>dropped.
       and_then (open_session T sid) (\<lambda>second.
       ok \<lparr>sop_outcome = second, sop_repaired = True, sop_close_response = close_response,
           sop_dropped = dropped,
           sop_wedged = (o_response_code second = RESP_SESSION_ALREADY_OPEN)\<rparr>))))"

definition drop_session :: "'d transport \<Rightarrow> 'd session \<Rightarrow> 'd session" where
  "drop_session T s =
     (if \<not> ses_session_open s then s
      else snd (close_session T (snd (recover T s))))"

end
