(* ===== verification/Mtp_Session_Laws.thy ===== *)
theory Mtp_Session_Laws
  imports Mtp_Session
begin

text \<open>
  Lemmas about the session: the contract of a transport, the faults a session can end with, and the
  configuration every operation keeps.
\<close>

section \<open>The contract of a transport\<close>

text \<open>
  A read fills at most the buffer, and a write that succeeds sent everything. The scripted
  device of the tests keeps the contract, and so do the bulk channels when the library does.
\<close>

fun panics :: "session_error \<Rightarrow> bool" where
  "panics (SliceOutOfRange step n len) \<longleftrightarrow> True"
| "panics _ \<longleftrightarrow> False"

locale transport =
  fixes T :: "'d transport"
  assumes read_fits: "tp_read T buf t d = (Inr (buf', n), d') \<Longrightarrow> length buf' = length buf \<and> n \<le> length buf"
    and write_whole: "tp_write T data t d = (Inr m, d') \<Longrightarrow> m = length data"
begin

lemma read_once_yields:
  "yields (read_once T step buf) (\<lambda>(buf', n). length buf' = length buf \<and> n \<le> length buf)
     (\<lambda>e. \<not> panics e)"
  by (rule yieldsI)
     (auto simp: read_once_def map_err_Inl_iff on_device_def dest: read_fits split: prod.splits)

lemma slice_yields:
  "n \<le> length buf \<Longrightarrow> yields (slice_to step buf n) (\<lambda>bs. bs = take n buf) E"
  by (simp add: slice_to_def yields_ok)

lemma write_out_yields: "yields (write_out W step bs) (\<lambda>_. True) (\<lambda>e. \<not> panics e)"
  by (rule yieldsI) (auto simp: write_out_def on_snd_def map_err_Inl_iff split: prod.splits)

lemma read_rounds_yields:
  "yields (read_rounds T W step declared k buf p) (\<lambda>(buf', p'). length buf' = length buf)
     (\<lambda>e. \<not> panics e)"
proof (induction k arbitrary: buf p)
  case 0
  then show ?case by (simp add: yields_ok del: ok_apply)
next
  case (Suc k)
  show ?case
    by (auto simp: Let_def simp del: ok_apply intro!: yields_ok yields_and_then [OF yields_on_fst [OF read_once_yields]]
         yields_and_then [OF slice_yields] yields_and_then [OF write_out_yields]
         yields_weaken [OF Suc.IH])
qed

lemma read_container_yields: "yields (read_container T step buf) (\<lambda>_. True) (\<lambda>e. \<not> panics e)"
  unfolding read_container_def
  by (rule yields_and_then [OF yields_on_fst [OF read_once_yields]])
     (auto intro!: yields_and_then [OF slice_yields] yields_map_err yields_from_result)

lemma data_phase_yields:
  "n \<le> length buf \<Longrightarrow> yields (data_phase T W step sz buf n h) (\<lambda>_. True) (\<lambda>e. \<not> panics e)"
  unfolding data_phase_def Let_def
  by (auto intro!: yields_err yields_ok yields_and_then [OF write_out_yields]
      yields_and_then [OF read_rounds_yields] yields_and_then [OF read_container_yields])

lemma read_answer_with_yields:
  "yields (read_answer_with T W step sz) (\<lambda>_. True) (\<lambda>e. \<not> panics e)"
  unfolding read_answer_with_def
  by (rule yields_and_then [OF yields_on_fst [OF read_once_yields]])
     (auto intro!: yields_and_then [OF slice_yields] yields_and_then [OF yields_map_err [OF yields_from_result]]
       yields_and_then [OF data_phase_yields] yields_err yields_ok split: container_type.split)

lemma read_answer_yields: "yields (read_answer T W step) (\<lambda>_. True) (\<lambda>e. \<not> panics e)"
  by (rule yieldsI) (auto simp: read_answer_def dest: yieldsD(1) [OF read_answer_with_yields])

end

interpretation fake: transport fake_transport
  by unfold_locales
     (auto simp: fake_transport_def fake_read_def fake_write_def Let_def
       split: if_splits answer.splits)

definition bulk_contract :: "'d libusb20 \<Rightarrow> bool" where
  "bulk_contract L \<longleftrightarrow>
     (\<forall>x buf n ms d. case lib_tr_bulk_intr_sync L x buf n ms d of
        ((wire, filled, actual), d') \<Rightarrow> length filled = length buf \<and> unat actual \<le> length buf)"

lemma mtp_transport_contract:
  assumes "bulk_contract L"
  shows "transport (mtp_transport L m)"
proof
  fix buf buf' :: bytes and t n d d'
  assume "tp_read (mtp_transport L m) buf t d = (Inr (buf', n), d')"
  then obtain ms wire actual where
    "lib_tr_bulk_intr_sync L (bc_xfer (md_read m)) buf (word_of_nat (length buf)) ms d
       = ((wire, buf', actual), d')" and "n = unat actual"
    by (auto simp: mtp_transport_def bulk_read_def transfer_def and_then_def Let_def
        split: prod.splits if_splits sum.splits)
  then show "length buf' = length buf \<and> n \<le> length buf"
    using assms by (fastforce simp: bulk_contract_def split: prod.splits)
next
  fix data :: bytes and t k d d'
  assume "tp_write (mtp_transport L m) data t d = (Inr k, d')"
  then show "k = length data" by (auto simp: mtp_transport_def dest: bulk_write_Inr)
qed

section \<open>The configuration\<close>

definition config_ok :: "config \<Rightarrow> bool" where
  "config_ok c \<longleftrightarrow> 0 < cfg_packet c \<and> READ_BUFFER_MIN \<le> cfg_read_buffer c
     \<and> HEADER_LEN < cfg_write_chunk c \<and> cfg_write_chunk c mod cfg_packet c = 0"

lemma next_multiple_of:
  assumes "0 < m"
  shows "x \<le> next_multiple_of x m" and "next_multiple_of x m mod m = 0"
proof -
  show "x \<le> next_multiple_of x m" by (simp add: next_multiple_of_def)
  have "x + (m - x mod m) = x div m * m + m"
    using mod_less_divisor [OF assms, of x] div_mult_mod_eq [of x m] by linarith
  then show "next_multiple_of x m mod m = 0" by (simp add: next_multiple_of_def)
qed

lemma mod_floor_ge:
  fixes n l p :: nat
  assumes "l \<le> n" and "l mod p = 0" and "0 < p"
  shows "l \<le> n - n mod p" and "(n - n mod p) mod p = 0"
proof -
  have n: "n - n mod p = n div p * p" by (simp add: minus_mod_eq_div_mult)
  have "l = l div p * p" using assms(2) by auto
  also have "\<dots> \<le> n div p * p" using assms(1) by (simp add: div_le_mono)
  finally show "l \<le> n - n mod p" by (simp add: n)
  show "(n - n mod p) mod p = 0" by (simp add: n)
qed

lemma normalised_ok: "config_ok (normalised c)"
proof -
  define p where "p = (if cfg_packet c = 0 then USB2_PACKET else cfg_packet c)"
  define least where "least = next_multiple_of (HEADER_LEN + 1) p"
  define w where "w = max (cfg_write_chunk c) least"
  have p: "0 < p" by (simp add: p_def USB2_PACKET_def)
  have l: "HEADER_LEN + 1 \<le> least" "least mod p = 0"
    using next_multiple_of [OF p] by (simp_all add: least_def)
  have "least \<le> w - w mod p" "(w - w mod p) mod p = 0"
    using mod_floor_ge [OF _ l(2) p, of w] by (simp_all add: w_def)
  moreover have "cfg_write_chunk (normalised c) = w - w mod p"
    by (simp add: normalised_def Let_def w_def p_def least_def max_def)
  moreover have "cfg_packet (normalised c) = p"
    by (simp add: normalised_def Let_def p_def)
  moreover have "READ_BUFFER_MIN \<le> cfg_read_buffer (normalised c)"
    by (simp add: normalised_def Let_def)
  ultimately show ?thesis using l(1) p by (simp add: config_ok_def)
qed

lemma normalised_same:
  assumes "config_ok c"
  shows "normalised c = c"
proof -
  have "\<not> cfg_write_chunk c < next_multiple_of (HEADER_LEN + 1) (cfg_packet c)"
  proof -
    let ?p = "cfg_packet c" and ?w = "cfg_write_chunk c" and ?h = "HEADER_LEN + 1"
    have w: "?w mod ?p = 0" "?h \<le> ?w" "0 < ?p" using assms by (simp_all add: config_ok_def)
    show ?thesis
    proof (cases "?h mod ?p = 0")
      case True
      then show ?thesis using w by (simp add: next_multiple_of_def)
    next
      case False
      have "?h div ?p \<le> ?w div ?p" using w(2) by (rule div_le_mono)
      moreover have "?w = ?w div ?p * ?p" using w(1) by auto
      moreover have "?h div ?p * ?p < ?h"
        using False div_mult_mod_eq [of ?h ?p] by linarith
      ultimately have "?h div ?p < ?w div ?p"
        using w(2) by (cases "?h div ?p = ?w div ?p") auto
      then have "(?h div ?p + 1) * ?p \<le> ?w div ?p * ?p" by (intro mult_le_mono1) simp
      moreover have "?w div ?p * ?p = ?w" using w by auto
      moreover have "?h + (?p - ?h mod ?p) = (?h div ?p + 1) * ?p"
        using mod_less_divisor [OF w(3), of ?h] div_mult_mod_eq [of ?h ?p]
        by (simp only: add_mult_distrib)
      ultimately show ?thesis using False by (simp add: next_multiple_of_def)
    qed
  qed
  then show ?thesis using assms by (simp add: normalised_def Let_def config_ok_def)
qed

definition keeps_config :: "'d session \<Rightarrow> 'd session \<Rightarrow> bool" where
  "keeps_config s s' \<longleftrightarrow> ses_config s' = ses_config s"

interpretation config_step: step_order keeps_config
  by unfold_locales (auto simp: keeps_config_def)

lemma keeps_on_device: "keeps keeps_config (on_device m)"
  by (rule keepsI) (auto simp: on_device_def keeps_config_def split: prod.splits)

lemma keeps_write_all: "keeps keeps_config (write_all T step bs)"
  by (rule keepsI)
     (auto simp: write_all_def keeps_config_def on_device_def map_err_def and_then_def
       split: prod.splits sum.splits)

lemma keeps_read_once: "keeps keeps_config (read_once T step buf)"
  by (rule keepsI)
     (auto simp: read_once_def keeps_config_def on_device_def map_err_def
       split: prod.splits sum.splits)

lemma keeps_next_transaction: "keeps keeps_config next_transaction"
  by (rule keepsI) (auto simp: next_transaction_def keeps_config_def)

text \<open>The same for an operation that also acts on a reader or a writer.\<close>

definition keeps_config2 :: "'d session \<times> 'w \<Rightarrow> 'd session \<times> 'w \<Rightarrow> bool" where
  "keeps_config2 s s' \<longleftrightarrow> keeps_config (fst s) (fst s')"

interpretation config_step2: step_order keeps_config2
  by unfold_locales (auto simp: keeps_config2_def keeps_config_def)

lemma keeps_on_fst: "keeps keeps_config m \<Longrightarrow> keeps keeps_config2 (on_fst m)"
  by (rule keepsI) (auto simp: on_fst_def keeps_config2_def dest: keepsD split: prod.splits)

lemma keeps_on_snd: "keeps keeps_config2 (on_snd m)"
  by (rule keepsI) (auto simp: on_snd_def keeps_config2_def keeps_config_def split: prod.splits)

lemma keeps_collecting: "keeps keeps_config2 m \<Longrightarrow> keeps keeps_config (collecting m)"
  by (rule keepsI)
     (fastforce simp: collecting_def keeps_config2_def dest: keepsD split: prod.splits sum.splits)

lemma keeps_slice: "keeps keeps_config2 (slice_to step buf n)"
  by (simp add: slice_to_def config_step2.keeps_ok config_step2.keeps_err)

lemmas keeps_session =
  config_step2.keeps_and_then config_step2.keeps_ok config_step2.keeps_err
  config_step2.keeps_map_err config_step2.keeps_from_result config_step2.keeps_gets
  keeps_on_fst keeps_on_snd keeps_slice keeps_read_once keeps_write_all keeps_next_transaction

lemma keeps_read_rounds: "keeps keeps_config2 (read_rounds T W step declared k buf p)"
  by (induction k arbitrary: buf p)
     (auto simp: Let_def write_out_def simp del: ok_apply intro!: keeps_session)

lemma keeps_read_answer: "keeps keeps_config2 (read_answer T W step)"
proof -
  have "keeps keeps_config2 (read_answer_with T W step sz)" for sz
    unfolding read_answer_with_def data_phase_def read_container_def write_out_def Let_def
    by (auto intro!: keeps_session keeps_read_rounds split: container_type.split prod.split)
  then show ?thesis by (simp add: keeps_def read_answer_def)
qed

lemma keeps_operation: "keeps keeps_config (operation T step code params)"
  unfolding operation_def operation_stream_def
  by (intro keeps_collecting) (auto intro!: keeps_session keeps_read_answer)

lemma keeps_send_rounds: "keeps keeps_config2 (send_rounds T R step chunk sz k sent)"
  by (induction k arbitrary: sent)
     (auto simp: Let_def simp del: ok_apply intro!: keeps_session)

lemma keeps_operation_sending: "keeps keeps_config2 (operation_sending T R step code params sz)"
  unfolding operation_sending_def Let_def
  by (auto intro!: keeps_session keeps_send_rounds keeps_collecting keeps_read_answer)

lemma drain_rounds_config: "ses_config (snd (drain_rounds T k buf t n s)) = ses_config s"
  by (induction T k buf t n s rule: drain_rounds.induct)
     (auto simp: on_device_def split: prod.splits sum.splits)

lemma recover_config: "ses_config (snd (recover T s)) = ses_config s"
  by (simp add: recover_def drain_def drain_rounds_config clear_stalls_def)

lemma keeps_modify_open: "keeps keeps_config (modify (\<lambda>s. s\<lparr>ses_session_open := b\<rparr>))"
  by (simp add: keeps_def keeps_config_def)

lemma keeps_open_session: "keeps keeps_config (open_session T sid)"
  unfolding open_session_def
  by (auto intro!: config_step.keeps_and_then keeps_operation keeps_modify_open config_step.keeps_ok)

lemma keeps_close_session: "keeps keeps_config (close_session T)"
  unfolding close_session_def
  by (auto intro!: config_step.keeps_and_then keeps_operation keeps_modify_open config_step.keeps_ok)

lemma keeps_recover:
  "keeps keeps_config (\<lambda>s. case recover T s of (dropped, s') \<Rightarrow> (Inr dropped, s'))"
  by (simp add: keeps_def keeps_config_def case_prod_beta recover_config)

lemma keeps_open_session_or_repair: "keeps keeps_config (open_session_or_repair T sid)"
  unfolding open_session_or_repair_def
  by (auto intro!: config_step.keeps_and_then keeps_open_session keeps_close_session keeps_recover
      config_step.keeps_unwrap_or config_step.keeps_ok)

end
