(* ===== verification/Mtp_Session_Data.thy ===== *)
theory Mtp_Session_Data
  imports Mtp_Session_Laws
begin

text \<open>
  The two data phases. To the device: the writes of \<open>operation_sending\<close> are the frames of a
  specification that cuts the container, and the frames end the data phase where the container
  ends. From the device: a container cut into any transfers within the round limit is put
  together again, and a container that stops early is a fault.
\<close>

section \<open>Filling a buffer\<close>

lemma read_exact_loop_slice:
  "read_exact_loop slice_reader len filled r =
     (if len \<le> length filled then Some (Inr filled, r)
      else if length filled + length r < len
           then Some (Inl (length filled + length r, None), [])
           else Some (Inr (filled @ take (len - length filled) r), drop (len - length filled) r))"
proof (cases "len \<le> length filled")
  case True
  then show ?thesis by (subst read_exact_loop.simps) simp
next
  case False
  show ?thesis
  proof (cases "r = []")
    case True
    then show ?thesis using False by (subst read_exact_loop.simps) (simp add: slice_reader_def)
  next
    case nonempty: False
    let ?m = "len - length filled"
    have one: "read_exact_loop slice_reader len filled r
        = read_exact_loop slice_reader len (filled @ take ?m r) (drop ?m r)"
      using False nonempty by (subst read_exact_loop.simps) (simp add: slice_reader_def)
    show ?thesis
    proof (cases "length filled + length r < len")
      case True
      then have "take ?m r = r" "drop ?m r = []" by simp_all
      then show ?thesis
        using one True False by (subst (asm) (2) read_exact_loop.simps) (simp add: slice_reader_def)
    next
      case enough: False
      then show ?thesis
        using one False by (subst (asm) (2) read_exact_loop.simps) (simp add: min_def)
    qed
  qed
qed

lemma read_exact_slice:
  "read_exact_or_short slice_reader len step r =
     (if len \<le> length r then (Inr (take len r), drop len r)
      else (Inl (ShortRead step len (length r) None), []))"
  by (cases "len = 0") (simp_all add: read_exact_or_short_def read_exact_loop_slice)

text \<open>
  A reader that gives the bytes \<open>left r\<close> and no fault: a slice in memory, or the spool file of a
  program that writes.
\<close>

locale byte_source =
  fixes R :: "'r io_reader"
    and left :: "'r \<Rightarrow> bytes"
  assumes gives: "n \<le> length (left r) \<Longrightarrow>
    \<exists>r'. read_exact_or_short R n step r = (Inr (take n (left r)), r') \<and> left r' = drop n (left r)"

section \<open>The frames of a data phase to the device\<close>

function chunks_of :: "nat \<Rightarrow> bytes \<Rightarrow> bytes list" where
  "chunks_of n xs = (if xs = [] \<or> n = 0 then [] else take n xs # chunks_of n (drop n xs))"
  by pat_completeness auto
termination by (relation "measure (\<lambda>(n, xs). length xs)") auto

declare chunks_of.simps [simp del]

lemma chunks_of_Nil [simp]: "chunks_of n [] = []"
  by (simp add: chunks_of.simps)

lemma concat_chunks_of: "0 < n \<Longrightarrow> concat (chunks_of n xs) = xs"
proof (induction n xs rule: chunks_of.induct)
  case (1 n xs)
  then show ?case by (cases "xs = []") (simp_all add: chunks_of.simps [of n xs])
qed

lemma chunks_of_sizes:
  "f \<in> set (chunks_of n xs) \<Longrightarrow> f \<noteq> [] \<and> length f \<le> n"
proof (induction n xs rule: chunks_of.induct)
  case (1 n xs)
  then show ?case by (auto simp: chunks_of.simps [of n xs] split: if_splits)
qed

lemma chunks_of_full: "f \<in> set (butlast (chunks_of n xs)) \<Longrightarrow> length f = n"
proof (induction n xs rule: chunks_of.induct)
  case (1 n xs)
  show ?case
  proof (cases "xs = [] \<or> n = 0")
    case True
    then show ?thesis using 1(2) by (simp add: chunks_of.simps [of n xs] split: if_splits)
  next
    case False
    then have c: "chunks_of n xs = take n xs # chunks_of n (drop n xs)"
      by (simp add: chunks_of.simps [of n xs])
    show ?thesis
    proof (cases "drop n xs = []")
      case True
      then show ?thesis using 1(2) c by simp
    next
      case more: False
      then have "chunks_of n (drop n xs) \<noteq> []" using False by (simp add: chunks_of.simps)
      then have "f = take n xs \<or> f \<in> set (butlast (chunks_of n (drop n xs)))"
        using 1(2) c by simp
      then show ?thesis using 1(1) [OF False] more by auto
    qed
  qed
qed

definition data_frames :: "config \<Rightarrow> bytes \<Rightarrow> bytes \<Rightarrow> bytes list" where
  "data_frames cfg h payload =
     (let room = cfg_write_chunk cfg - HEADER_LEN in
      (h @ take room payload) # chunks_of (cfg_write_chunk cfg) (drop room payload)
      @ (if needs_zero_packet (HEADER_LEN + length payload) (cfg_packet cfg) then [[]] else []))"

fun write_frames :: "'d transport \<Rightarrow> string \<Rightarrow> bytes list \<Rightarrow> ('d, unit) ses" where
  "write_frames T step [] = ok ()"
| "write_frames T step (f # fs) = and_then (write_all T step f) (\<lambda>_. write_frames T step fs)"

lemma concat_data_frames:
  assumes "config_ok cfg"
  shows "concat (data_frames cfg h payload) = h @ payload"
  using assms by (simp add: data_frames_def Let_def concat_chunks_of config_ok_def)

lemma mod_concat:
  "(\<And>f. f \<in> set (butlast fs) \<Longrightarrow> length f mod p = (0::nat)) \<Longrightarrow> fs \<noteq> [] \<Longrightarrow>
     length (concat fs) mod p = length (last fs) mod p"
proof (induction fs)
  case (Cons f fs)
  show ?case
  proof (cases "fs = []")
    case False
    then have "length (concat fs) mod p = length (last fs) mod p" "length f mod p = 0"
      using Cons by simp_all
    then show ?thesis using False by (simp add: mod_add_eq [symmetric, of "length f"])
  qed simp
qed simp

text \<open>
  Every frame but the last is a whole number of packets, and the last is not, or is empty: the
  device sees the end of the data phase at the last frame and not before.
\<close>

lemma data_frames_packets:
  assumes ok: "config_ok cfg" and h: "length h = HEADER_LEN"
  shows "\<And>f. f \<in> set (butlast (data_frames cfg h payload)) \<Longrightarrow> length f mod cfg_packet cfg = 0 \<and> f \<noteq> []"
    and "last (data_frames cfg h payload) = []
       \<or> length (last (data_frames cfg h payload)) mod cfg_packet cfg \<noteq> 0"
proof -
  let ?w = "cfg_write_chunk cfg" and ?p = "cfg_packet cfg"
  let ?room = "?w - HEADER_LEN"
  define fs where "fs = (h @ take ?room payload) # chunks_of ?w (drop ?room payload)"
  let ?z = "needs_zero_packet (HEADER_LEN + length payload) ?p"
  have w: "?w mod ?p = 0" "HEADER_LEN < ?w" "0 < ?p" using ok by (simp_all add: config_ok_def)
  have frames: "data_frames cfg h payload = fs @ (if ?z then [[]] else [])"
    by (simp add: data_frames_def Let_def fs_def)
  have full: "length f = ?w" if "f \<in> set (butlast fs)" for f
  proof (cases "drop ?room payload = []")
    case True
    then show ?thesis using that by (simp add: fs_def)
  next
    case False
    then have "chunks_of ?w (drop ?room payload) \<noteq> []" using w by (simp add: chunks_of.simps [of ?w "drop ?room payload"])
    then have "f = h @ take ?room payload \<or> f \<in> set (butlast (chunks_of ?w (drop ?room payload)))"
      using that by (simp add: fs_def)
    moreover have "length (h @ take ?room payload) = ?w" using False w h by simp
    ultimately show ?thesis using chunks_of_full by metis
  qed
  have conc: "length (concat fs) = HEADER_LEN + length payload"
    using concat_chunks_of [of ?w "drop ?room payload"] w h by (simp add: fs_def)
  have last: "(HEADER_LEN + length payload) mod ?p = length (last fs) mod ?p"
    unfolding conc [symmetric] by (rule mod_concat) (simp_all add: full w(1), simp add: fs_def)
  have nonempty: "f \<noteq> []" if "f \<in> set fs" for f
    using that chunks_of_sizes [of f ?w "drop ?room payload"] h
    by (auto simp: fs_def HEADER_LEN_def)
  show "length f mod ?p = 0 \<and> f \<noteq> []" if f: "f \<in> set (butlast (data_frames cfg h payload))" for f
  proof (cases ?z)
    case True
    then have zero: "length (last fs) mod ?p = 0" using last by (simp add: needs_zero_packet_def)
    have fin: "f \<in> set fs" using f True frames by (simp add: butlast_append)
    moreover have "set fs = insert (last fs) (set (butlast fs))"
      by (subst append_butlast_last_id [symmetric]) (simp_all add: fs_def)
    ultimately have "f \<in> set (butlast fs) \<or> f = last fs" by blast
    then show ?thesis using full w(1) nonempty [OF fin] zero by auto
  next
    case False
    then have "f \<in> set (butlast fs)" using f frames by simp
    then show ?thesis using full [of f] w(1) nonempty [of f] in_set_butlastD [of f fs] by simp
  qed
  show "last (data_frames cfg h payload) = []
       \<or> length (last (data_frames cfg h payload)) mod ?p \<noteq> 0"
    using last w(3) by (cases ?z) (auto simp: frames needs_zero_packet_def)
qed

lemma length_chunks_of:
  assumes "0 < n"
  shows "length (chunks_of n xs) \<le> length xs div n + 1"
proof (induction n xs rule: chunks_of.induct)
  case (1 n xs)
  show ?case
  proof (cases "xs = [] \<or> n = 0")
    case True
    then show ?thesis by (simp add: chunks_of.simps [of n xs])
  next
    case False
    then have "length (chunks_of n (drop n xs)) \<le> (length xs - n) div n + 1" using 1 by simp
    moreover have "n \<le> length xs \<Longrightarrow> (length xs - n) div n + 1 = length xs div n"
      using False by (simp add: le_div_geq)
    moreover have "length xs < n \<Longrightarrow> chunks_of n (drop n xs) = []" by simp
    ultimately show ?thesis
      using False by (cases "n \<le> length xs") (simp_all add: chunks_of.simps [of n xs])
  qed
qed

context byte_source
begin

lemma send_rounds_source:
  assumes "0 < chunk" and "length (chunks_of chunk (left r)) \<le> k"
  shows "\<exists>r'. send_rounds T R step chunk (sent + length (left r)) k sent (s, r) =
    (case write_frames T step (chunks_of chunk (left r)) s of
       (Inl e, s') \<Rightarrow> (Inl e, (s', r'))
     | (Inr _, s') \<Rightarrow> (Inr (sent + length (left r)), (s', r')))"
  using assms(2)
proof (induction k arbitrary: sent r s)
  case 0
  then have "left r = []" using assms(1) by (cases "left r") (simp_all add: chunks_of.simps)
  then show ?case by simp
next
  case (Suc k)
  show ?case
  proof (cases "left r = []")
    case True
    then show ?thesis by simp
  next
    case False
    let ?n = "min chunk (length (left r))"
    have c: "chunks_of chunk (left r) = take chunk (left r) # chunks_of chunk (drop chunk (left r))"
      using False assms(1) by (simp add: chunks_of.simps [of chunk "left r"])
    have tk: "take ?n (left r) = take chunk (left r)" "drop ?n (left r) = drop chunk (left r)"
      by (simp_all add: min_def)
    obtain r1 where r1: "read_exact_or_short R ?n step r = (Inr (take chunk (left r)), r1)"
      "left r1 = drop chunk (left r)"
      using gives [of ?n r step] tk by auto
    have tot: "sent + ?n + length (left r1) = sent + length (left r)" by (simp add: r1(2) min_def)
    obtain q s1 where q: "write_all T step (take chunk (left r)) s = (q, s1)" by fastforce
    have unfold: "send_rounds T R step chunk (sent + length (left r)) (Suc k) sent (s, r)
      = (case q of Inl e \<Rightarrow> (Inl e, (s1, r1))
         | Inr _ \<Rightarrow> send_rounds T R step chunk (sent + length (left r)) k (sent + ?n) (s1, r1))"
      using False q r1(1) by (simp add: Let_def and_then_def split: sum.split)
    show ?thesis
    proof (cases q)
      case (Inl e)
      then show ?thesis unfolding unfold c using q by simp
    next
      case (Inr u)
      have "length (chunks_of chunk (left r1)) \<le> k" using Suc.prems c r1(2) by simp
      from Suc.IH [OF this, of "sent + ?n" s1] show ?thesis
        unfolding unfold c tot using Inr q r1(2) by auto
    qed
  qed
qed

end

definition data_header :: "u16 \<Rightarrow> u32 \<Rightarrow> nat \<Rightarrow> bytes" where
  "data_header code tid n = push_header [] (word_of_nat (HEADER_LEN + n)) Data code tid"

lemma length_data_header [simp]: "length (data_header code tid n) = HEADER_LEN"
  by (simp add: data_header_def HEADER_LEN_def)

lemma write_frames_append:
  "write_frames T step (fs @ gs) s =
     and_then (write_frames T step fs) (\<lambda>_. write_frames T step gs) s"
proof (induction fs arbitrary: s)
  case (Cons f fs)
  obtain r s1 where "write_all T step f s = (r, s1)" by fastforce
  then show ?case using Cons [of s1] by (cases r) (simp_all add: and_then_def)
qed simp

lemma keeps_write_frames: "keeps keeps_config (write_frames T step fs)"
  by (induction fs)
     (auto simp del: ok_apply intro!: config_step.keeps_intros keeps_write_all)

fun answer_fst :: "('e + 'a) \<times> ('s \<times> 'w) \<Rightarrow> ('e + 'a) \<times> 's" where
  "answer_fst (r, (s, w)) = (r, s)"

lemma answer_fst_on_fst [simp]: "answer_fst (on_fst m (s, w)) = m s"
  by (simp split: prod.splits)

context byte_source
begin

lemma sending_data_phase:
  assumes ok: "config_ok cfg" and cfg: "ses_config s = cfg" and payload: "left r = payload"
    and tot: "container_length (length payload) = Inr total_len"
  shows "answer_fst (and_then (on_snd (read_exact_or_short R
            (min (cfg_write_chunk cfg - HEADER_LEN) (length payload)) step)) (\<lambda>buf.
     and_then (on_fst (write_all T step (h @ buf))) (\<lambda>_.
     and_then (send_rounds T R step (cfg_write_chunk cfg) (length payload)
         (length payload div cfg_write_chunk cfg + 4)
         (min (cfg_write_chunk cfg - HEADER_LEN) (length payload))) (\<lambda>sent.
     if sent < length payload then err (ShortRead step (length payload) sent None)
     else
       and_then (if needs_zero_packet (unat total_len) (cfg_packet cfg)
                 then on_fst (write_all T step []) else ok ()) (\<lambda>_.
       on_fst k)))) (s, r))
   = and_then (write_frames T step (data_frames cfg h payload)) (\<lambda>_. k) s"
proof -
  let ?w = "cfg_write_chunk cfg" and ?n = "length payload"
  let ?want = "min (?w - HEADER_LEN) ?n"
  let ?rest = "drop (?w - HEADER_LEN) payload"
  have w: "0 < ?w" using ok by (simp add: config_ok_def)
  have u: "unat total_len = HEADER_LEN + ?n" using unat_container_length(1) [OF tot] .
  have rest: "drop ?want payload = ?rest" "?n = ?want + length ?rest" "take ?want payload = take (?w - HEADER_LEN) payload"
    by (simp_all add: min_def)
  have short: "length (chunks_of ?w ?rest) \<le> ?n div ?w + 4"
  proof -
    have "length ?rest div ?w \<le> ?n div ?w" by (intro div_le_mono) simp
    then show ?thesis using length_chunks_of [OF w, of ?rest] by linarith
  qed
  define zero where "zero = needs_zero_packet (HEADER_LEN + ?n) (cfg_packet cfg)"
  have frames: "data_frames cfg h payload =
      (h @ take (?w - HEADER_LEN) payload) # chunks_of ?w ?rest @ (if zero then [[]] else [])"
    by (simp add: data_frames_def Let_def zero_def)
  obtain r1 s1 where r1: "write_all T step (h @ take (?w - HEADER_LEN) payload) s = (r1, s1)"
    by fastforce
  obtain r0 where first: "on_snd (read_exact_or_short R ?want step) (s, r)
      = (Inr (take (?w - HEADER_LEN) payload), (s, r0))" and r0: "left r0 = ?rest"
    using gives [of ?want r step] payload rest(1,3) by auto
  obtain r4 where send: "send_rounds T R step ?w ?n (?n div ?w + 4) ?want (s1, r0) =
    (case write_frames T step (chunks_of ?w ?rest) s1 of
       (Inl e, s') \<Rightarrow> (Inl e, (s', r4)) | (Inr _, s') \<Rightarrow> (Inr ?n, (s', r4)))"
    using send_rounds_source [OF w, of r0 "?n div ?w + 4" T step ?want s1] short
    unfolding r0 rest(2) [symmetric] by blast
  obtain r2 s2 where r2: "write_frames T step (chunks_of ?w ?rest) s1 = (r2, s2)" by fastforce
  obtain r3 s3 where r3: "write_all T step [] s2 = (r3, s3)" by fastforce
  show ?thesis
  proof (cases r1)
    case (Inl e)
    then show ?thesis unfolding frames using first r1 by (simp add: and_then_def)
  next
    case r1': (Inr u1)
    show ?thesis
    proof (cases r2)
      case (Inl e)
      then show ?thesis
        unfolding frames using first r1 r1' r2 send by (simp add: and_then_def write_frames_append)
    next
      case (Inr u2)
      then show ?thesis
        unfolding frames u zero_def [symmetric] using first r1 r1' r2 send r3
        by (cases r3; cases zero) (simp_all add: and_then_def write_frames_append split: prod.splits)
    qed
  qed
qed

lemma operation_sending_frames:
  assumes ok: "config_ok (ses_config s)" and payload: "left r = payload"
    and fit: "length payload \<le> MAX_PAYLOAD_LEN"
  shows "answer_fst (operation_sending T R step code params (length payload) (s, r)) =
    and_then next_transaction (\<lambda>tid.
    and_then (write_all T step (build_command code tid params)) (\<lambda>_.
    and_then (write_frames T step
      (data_frames (ses_config s) (data_header code tid (length payload)) payload)) (\<lambda>_.
    collecting (read_answer T vec_writer step)))) s"
proof -
  obtain total_len where tot: "container_length (length payload) = Inr total_len"
    using container_length_Inr_iff fit by blast
  define tid where "tid = ses_transaction s"
  obtain s1 where s1: "next_transaction s = (Inr tid, s1)"
    by (simp add: next_transaction_def tid_def)
  obtain r2 s2 where r2: "write_all T step (build_command code tid params) s1 = (r2, s2)"
    by fastforce
  have cfg: "ses_config s2 = ses_config s"
    using keepsD [OF keeps_next_transaction s1] keepsD [OF keeps_write_all r2]
    by (simp add: keeps_config_def)
  have head: "build_data_header code tid (length payload) = Inr (data_header code tid (length payload))"
    using tot by (auto simp: build_data_header_def data_header_def container_length_def split: if_splits)
  show ?thesis
  proof (cases r2)
    case (Inl e)
    then show ?thesis
      unfolding operation_sending_def using tot s1 r2 by (simp add: and_then_def map_err_def)
  next
    case (Inr u)
    have run: "operation_sending T R step code params (length payload) (s, r) =
      and_then (on_snd (read_exact_or_short R
            (min (cfg_write_chunk (ses_config s) - HEADER_LEN) (length payload)) step)) (\<lambda>buf.
     and_then (on_fst (write_all T step (data_header code tid (length payload) @ buf))) (\<lambda>_.
     and_then (send_rounds T R step (cfg_write_chunk (ses_config s)) (length payload)
         (length payload div cfg_write_chunk (ses_config s) + 4)
         (min (cfg_write_chunk (ses_config s) - HEADER_LEN) (length payload))) (\<lambda>sent.
     if sent < length payload then err (ShortRead step (length payload) sent None)
     else
       and_then (if needs_zero_packet (unat total_len) (cfg_packet (ses_config s))
                 then on_fst (write_all T step []) else ok ()) (\<lambda>_.
       on_fst (collecting (read_answer T vec_writer step)))))) (s2, r)"
      unfolding operation_sending_def using tot s1 r2 Inr head cfg
      by (simp add: map_err_def Let_def)
    show ?thesis
      unfolding run sending_data_phase [OF ok cfg payload tot] using s1 r2 Inr by simp
  qed
qed

end

interpretation slice: byte_source slice_reader "\<lambda>r. r"
  by unfold_locales (simp add: read_exact_slice)

lemma operation_with_data_eq:
  "operation_with_data T step code params payload s
     = answer_fst (operation_sending T slice_reader step code params (length payload) (s, payload))"
  by (simp add: operation_with_data_def split: prod.splits)

lemmas operation_with_data_frames =
  slice.operation_sending_frames [OF _ refl, folded operation_with_data_eq]

section \<open>The data phase from the device\<close>

text \<open>A scripted device, seen by a session that reads: the answers it has left.\<close>

definition left_answers :: "fake_device \<Rightarrow> answer list" where
  "left_answers f = drop (fk_at f) (fk_answers f)"

definition after_answers :: "nat \<Rightarrow> fake_device \<Rightarrow> fake_device" where
  "after_answers n f = f\<lparr>fk_at := fk_at f + n\<rparr>"

lemma left_after [simp]: "left_answers (after_answers n f) = drop n (left_answers f)"
  by (simp add: left_answers_def after_answers_def add.commute)

lemma after_after [simp]: "after_answers n (after_answers m f) = after_answers (m + n) f"
  by (simp add: after_answers_def add.assoc)

lemma after_0 [simp]: "after_answers 0 f = f"
  by (simp add: after_answers_def)

lemma after_fields [simp]:
  "fk_writes (after_answers n f) = fk_writes f"
  "fk_stalls_cleared (after_answers n f) = fk_stalls_cleared f"
  by (simp_all add: after_answers_def)

definition at_device :: "('d \<Rightarrow> 'd) \<Rightarrow> 'd session \<Rightarrow> 'd session" where
  "at_device g s = s\<lparr>ses_device := g (ses_device s)\<rparr>"

lemma at_device_fields [simp]:
  "ses_device (at_device g s) = g (ses_device s)" "ses_config (at_device g s) = ses_config s"
  "ses_transaction (at_device g s) = ses_transaction s"
  "ses_session_open (at_device g s) = ses_session_open s"
  "at_device g (at_device h s) = at_device (\<lambda>d. g (h d)) s"
  by (simp_all add: at_device_def)

lemma fake_read_left:
  "fake_read buf t f =
     (case left_answers f of
        [] \<Rightarrow> (Inr (buf, 0), f)
      | Empty # _ \<Rightarrow> (Inr (buf, 0), after_answers 1 f)
      | Fail e # _ \<Rightarrow> (Inl e, after_answers 1 f)
      | Bytes b # _ \<Rightarrow>
          (Inr (take (length buf) b @ drop (length b) buf, min (length b) (length buf)),
           after_answers 1 f))"
proof (cases "fk_at f < length (fk_answers f)")
  case True
  then have "left_answers f = fk_answers f ! fk_at f # drop (Suc (fk_at f)) (fk_answers f)"
    by (simp add: left_answers_def Cons_nth_drop_Suc)
  then show ?thesis
    using True
    by (simp add: fake_read_def after_answers_def Let_def min_def split: answer.split)
next
  case False
  then show ?thesis by (simp add: fake_read_def left_answers_def)
qed

lemma fake_read_once:
  assumes "left_answers (ses_device s) = Bytes b # as" and "length b \<le> length buf"
  shows "read_once fake_transport step buf s =
    (Inr (b @ drop (length b) buf, length b), at_device (after_answers 1) s)"
  using assms
  by (simp add: read_once_def map_err_def on_device_def fake_transport_def fake_read_left
      at_device_def min_def)

lemma fake_read_once_nothing:
  assumes "left_answers (ses_device s) = [] \<or> left_answers (ses_device s) = Empty # as"
  shows "\<exists>n. read_once fake_transport step buf s = (Inr (buf, 0), at_device (after_answers n) s)"
  using assms
  by (auto simp: read_once_def map_err_def on_device_def fake_transport_def fake_read_left
      at_device_def intro: exI [of _ 0] exI [of _ 1])

lemma write_out_vec [simp]: "write_out vec_writer step bs (s, w) = (Inr (), (s, w @ bs))"
  by (simp add: write_out_def vec_writer_def map_err_def)

text \<open>The loop takes one transfer a round, as long as the data phase is not complete.\<close>

lemma read_rounds_transfers:
  assumes "\<forall>t\<in>set ts. t \<noteq> [] \<and> length t \<le> n"
    and "left_answers (ses_device s) = map Bytes ts @ as"
    and "length ts \<le> k" and "length buf = n"
    and "\<forall>j<length ts. got + length (concat (take j ts)) < declared"
  shows "\<exists>buf'. length buf' = n \<and>
    read_rounds fake_transport vec_writer step declared k buf
      \<lparr>pr_have = got, pr_payload_bytes = paid, pr_reads = cnt\<rparr> (s, w)
    = read_rounds fake_transport vec_writer step declared (k - length ts) buf'
      \<lparr>pr_have = got + length (concat ts), pr_payload_bytes = paid + length (concat ts),
       pr_reads = cnt + length ts\<rparr>
      (at_device (after_answers (length ts)) s, w @ concat ts)"
  using assms
proof (induction ts arbitrary: k got paid cnt buf s w)
  case Nil
  then show ?case by (auto simp: at_device_def)
next
  case (Cons t ts)
  then obtain k' where k: "k = Suc k'" "length ts \<le> k'" by (cases k) auto
  let ?buf = "t @ drop (length t) buf" and ?s = "at_device (after_answers 1) s"
  have t: "t \<noteq> []" "length t \<le> length buf" using Cons.prems by auto
  have one: "read_once fake_transport step buf s = (Inr (?buf, length t), ?s)"
    by (rule fake_read_once) (use Cons.prems t in auto)
  have "got + length (concat (take 0 (t # ts))) < declared" using Cons.prems(5) by blast
  then have open1: "\<not> declared \<le> got" by simp
  have step1: "read_rounds fake_transport vec_writer step declared k buf
      \<lparr>pr_have = got, pr_payload_bytes = paid, pr_reads = cnt\<rparr> (s, w)
    = read_rounds fake_transport vec_writer step declared k' ?buf
      \<lparr>pr_have = got + length t, pr_payload_bytes = paid + length t, pr_reads = cnt + 1\<rparr>
      (?s, w @ t)"
    using open1 one t k by (simp add: and_then_def slice_to_def Let_def)
  have "\<exists>buf'. length buf' = n \<and>
    read_rounds fake_transport vec_writer step declared k' ?buf
      \<lparr>pr_have = got + length t, pr_payload_bytes = paid + length t, pr_reads = cnt + 1\<rparr> (?s, w @ t)
    = read_rounds fake_transport vec_writer step declared (k' - length ts) buf'
      \<lparr>pr_have = got + length t + length (concat ts),
       pr_payload_bytes = paid + length t + length (concat ts),
       pr_reads = cnt + 1 + length ts\<rparr>
      (at_device (after_answers (length ts)) ?s, (w @ t) @ concat ts)"
  proof (rule Cons.IH)
    show "\<forall>j<length ts. got + length t + length (concat (take j ts)) < declared"
    proof (intro allI impI)
      fix j assume "j < length ts"
      then have "got + length (concat (take (Suc j) (t # ts))) < declared"
        using Cons.prems(5) by (metis Suc_less_eq length_Cons)
      then show "got + length t + length (concat (take j ts)) < declared" by simp
    qed
  qed (use Cons.prems t k in auto)
  then show ?case unfolding step1 using k by (simp add: ac_simps)
qed

lemma read_rounds_done: "declared \<le> pr_have p \<Longrightarrow> read_rounds T W step declared k buf p s = (Inr (buf, p), s)"
  by (cases k) simp_all

text \<open>
  What the loop makes of the transfers after the first: all of them when they complete the data
  phase, and what came before the device stopped or the rounds ran out otherwise.
\<close>

lemma read_rounds_complete:
  assumes ts: "\<forall>t\<in>set ts. t \<noteq> [] \<and> length t \<le> length buf"
    and "left_answers (ses_device s) = map Bytes ts @ as" and "length ts \<le> k"
    and sum: "got + length (concat ts) = declared"
  shows "\<exists>buf'. length buf' = length buf \<and>
    read_rounds fake_transport vec_writer step declared k buf
      \<lparr>pr_have = got, pr_payload_bytes = paid, pr_reads = cnt\<rparr> (s, w)
    = (Inr (buf', \<lparr>pr_have = declared, pr_payload_bytes = paid + length (concat ts),
                   pr_reads = cnt + length ts\<rparr>),
       (at_device (after_answers (length ts)) s, w @ concat ts))"
proof -
  have "\<forall>j<length ts. got + length (concat (take j ts)) < declared"
  proof (intro allI impI)
    fix j assume j: "j < length ts"
    then have "ts = take j ts @ ts ! j # drop (Suc j) ts" by (simp add: id_take_nth_drop)
    then have "length (concat ts)
        = length (concat (take j ts)) + length (ts ! j) + length (concat (drop (Suc j) ts))"
      by (metis add.assoc concat.simps(2) concat_append length_append)
    moreover have "ts ! j \<noteq> []" using ts j by simp
    ultimately show "got + length (concat (take j ts)) < declared"
      using sum by (cases "ts ! j") simp_all
  qed
  from read_rounds_transfers [OF ts assms(2,3) refl this, of step paid cnt w] show ?thesis
    by (simp add: sum read_rounds_done)
qed

lemma read_rounds_stopped:
  assumes ts: "\<forall>t\<in>set ts. t \<noteq> [] \<and> length t \<le> length buf"
    and "left_answers (ses_device s) = map Bytes ts @ as" and "length ts \<le> k"
    and less: "got + length (concat ts) < declared"
    and stop: "as = [] \<or> as = Empty # as' \<or> length ts = k"
  shows "\<exists>buf' p s'.
    read_rounds fake_transport vec_writer step declared k buf
      \<lparr>pr_have = got, pr_payload_bytes = paid, pr_reads = cnt\<rparr> (s, w)
    = (Inr (buf', p), (s', w @ concat ts)) \<and> pr_have p = got + length (concat ts)"
proof -
  have "\<forall>j<length ts. got + length (concat (take j ts)) < declared"
  proof (intro allI impI)
    fix j
    have "length (concat (take j ts)) \<le> length (concat ts)"
      by (metis append_take_drop_id concat_append le_add1 length_append)
    then show "got + length (concat (take j ts)) < declared" using less by simp
  qed
  then obtain buf' where run: "read_rounds fake_transport vec_writer step declared k buf
      \<lparr>pr_have = got, pr_payload_bytes = paid, pr_reads = cnt\<rparr> (s, w)
    = read_rounds fake_transport vec_writer step declared (k - length ts) buf'
      \<lparr>pr_have = got + length (concat ts), pr_payload_bytes = paid + length (concat ts),
       pr_reads = cnt + length ts\<rparr>
      (at_device (after_answers (length ts)) s, w @ concat ts)"
    using read_rounds_transfers [OF ts assms(2,3) refl, of got declared step paid cnt w] by blast
  show ?thesis
  proof (cases "k - length ts")
    case 0
    then show ?thesis unfolding run by auto
  next
    case (Suc m)
    let ?s = "at_device (after_answers (length ts)) s"
    have "left_answers (ses_device ?s) = [] \<or> left_answers (ses_device ?s) = Empty # as'"
      using stop Suc assms(2) by auto
    from fake_read_once_nothing [OF this, of step buf'] obtain n where
      "read_once fake_transport step buf' ?s = (Inr (buf', 0), at_device (after_answers n) ?s)"
      by blast
    then show ?thesis unfolding run Suc using less by (auto simp: and_then_def Let_def)
  qed
qed

text \<open>The configuration of the tests, \<open>fake::config\<close>, and a session over a script.\<close>

definition fake_config :: config where
  "fake_config = \<lparr>cfg_timeout = from_millis 1, cfg_read_buffer = READ_BUFFER_MIN,
     cfg_write_chunk = 1024, cfg_packet = 512\<rparr>"

definition fake_session :: "answer list \<Rightarrow> fake_device session" where
  "fake_session answers = new_without_recovery (fake_new answers) fake_config"

lemma fake_session_fields [simp]:
  "ses_config (fake_session as) = fake_config" "ses_transaction (fake_session as) = 0"
  "ses_session_open (fake_session as) = False" "left_answers (ses_device (fake_session as)) = as"
  "fk_writes (ses_device (fake_session as)) = []"
proof -
  have "config_ok fake_config" by (simp add: config_ok_def fake_config_def HEADER_LEN_def)
  then show "ses_config (fake_session as) = fake_config"
    by (simp add: fake_session_def new_without_recovery_def normalised_same)
qed (simp_all add: fake_session_def new_without_recovery_def fake_new_def left_answers_def)

lemma fake_config_ok: "config_ok fake_config"
  by (simp add: config_ok_def fake_config_def HEADER_LEN_def)

definition response_bytes :: "u16 \<Rightarrow> u32 \<Rightarrow> u32 list \<Rightarrow> bytes" where
  "response_bytes code tid ps =
     push_header [] (word_of_nat (HEADER_LEN + 4 * length ps)) Response code tid
     @ concat (map u32_to_le_bytes ps)"

lemma length_response_bytes: "length (response_bytes code tid ps) = 12 + 4 * length ps"
  by (simp add: response_bytes_def)

lemma container_parse_response:
  assumes "12 + 4 * length ps < 2 ^ 32"
  shows "\<exists>c. container_parse (response_bytes code tid ps) = Inr c \<and> c_kind c = Response
    \<and> c_code c = code \<and> parameters c = ps"
proof -
  have "unat (word_of_nat (HEADER_LEN + 4 * length ps) :: u32) = HEADER_LEN + length (concat (map u32_to_le_bytes ps))"
    using assms by (simp add: unat_of_nat HEADER_LEN_def del: of_nat_add)
  from container_parse_push_header [OF this, of Response code tid "[]"] show ?thesis
    by (simp add: response_bytes_def parameters_def u32_chunks_append_le)
qed

text \<open>The rounds the host allows for the transfers after the first.\<close>

definition rounds_for :: "nat \<Rightarrow> nat \<Rightarrow> nat" where
  "rounds_for declared buf_size = declared div buf_size + 16"

lemma rounds_bound:
  assumes "READ_BUFFER_MIN \<le> b" and "declared < 2 ^ 32"
  shows "min (declared div b + 16) MAX_READ_ROUNDS = rounds_for declared b"
proof -
  have "declared div b \<le> declared div 512"
    using assms(1) by (intro div_le_mono2) (simp_all add: READ_BUFFER_MIN_def)
  also have "\<dots> \<le> 2 ^ 32 div 512" using assms(2) by (intro div_le_mono) simp
  finally show ?thesis
    by (simp add: rounds_for_def MAX_READ_ROUNDS_def MAX_DATA_BYTES_def READ_BUFFER_MIN_def)
qed

text \<open>
  The scripted device is about to send a data container, cut into the transfers \<open>t # ts\<close>, of
  which the bytes \<open>missing\<close> never come; \<open>as\<close> is what it answers after those transfers.
\<close>

definition device_sends ::
    "fake_device session \<Rightarrow> u16 \<Rightarrow> u32 \<Rightarrow> bytes \<Rightarrow> bytes \<Rightarrow> bytes list \<Rightarrow> bytes \<Rightarrow> answer list \<Rightarrow> bool" where
  "device_sends s code tid payload t ts missing as \<longleftrightarrow>
     READ_BUFFER_MIN \<le> cfg_read_buffer (ses_config s)
     \<and> length payload \<le> MAX_PAYLOAD_LEN
     \<and> t @ concat ts @ missing = data_header code tid (length payload) @ payload
     \<and> list_all (\<lambda>x. x \<noteq> [] \<and> length x \<le> cfg_read_buffer (ses_config s)) ts
     \<and> HEADER_LEN \<le> length t \<and> length t \<le> cfg_read_buffer (ses_config s)
     \<and> left_answers (ses_device s) = Bytes t # map Bytes ts @ as"

lemma device_sendsD:
  assumes "device_sends s code tid payload t ts missing as"
  shows "unat (word_of_nat (HEADER_LEN + length payload) :: u32) = HEADER_LEN + length payload"
    and "\<not> HEADER_LEN + length payload > MAX_DATA_BYTES"
    and "min ((HEADER_LEN + length payload) div cfg_read_buffer (ses_config s) + 16) MAX_READ_ROUNDS
      = rounds_for (HEADER_LEN + length payload) (cfg_read_buffer (ses_config s))"
    and "left_answers (ses_device (at_device (after_answers 1) s)) = map Bytes ts @ as"
    and "\<forall>x\<in>set ts. x \<noteq> [] \<and> length x \<le> cfg_read_buffer (ses_config s)"
    and "length t + length (concat ts) + length missing = HEADER_LEN + length payload"
    and "drop HEADER_LEN t @ concat ts @ missing = payload"
proof -
  note d = assms [unfolded device_sends_def]
  have fits: "HEADER_LEN + length payload < 2 ^ 32"
    using d by (simp add: MAX_PAYLOAD_LEN_def u32_max_def HEADER_LEN_def)
  show "unat (word_of_nat (HEADER_LEN + length payload) :: u32) = HEADER_LEN + length payload"
    using fits by (simp add: unat_of_nat del: of_nat_add)
  show "\<not> HEADER_LEN + length payload > MAX_DATA_BYTES"
    using fits by (simp add: MAX_DATA_BYTES_def)
  show "min ((HEADER_LEN + length payload) div cfg_read_buffer (ses_config s) + 16) MAX_READ_ROUNDS
      = rounds_for (HEADER_LEN + length payload) (cfg_read_buffer (ses_config s))"
    using d fits by (intro rounds_bound) auto
  show "left_answers (ses_device (at_device (after_answers 1) s)) = map Bytes ts @ as"
    using d by simp
  show "\<forall>x\<in>set ts. x \<noteq> [] \<and> length x \<le> cfg_read_buffer (ses_config s)"
    using d by (simp add: list_all_iff)
  have cut: "t @ concat ts @ missing = data_header code tid (length payload) @ payload" using d by simp
  from arg_cong [OF cut, of length]
  show "length t + length (concat ts) + length missing = HEADER_LEN + length payload" by simp
  have "HEADER_LEN \<le> length t" using d by simp
  with arg_cong [OF cut, of "drop HEADER_LEN"]
  show "drop HEADER_LEN t @ concat ts @ missing = payload" by simp
qed

lemma read_answer_start:
  assumes "device_sends s code tid payload t ts missing as"
  shows "read_answer fake_transport vec_writer step (s, w) =
   and_then (data_phase fake_transport vec_writer step (cfg_read_buffer (ses_config s))
       (t @ drop (length t) (replicate (cfg_read_buffer (ses_config s)) 0)) (length t)
       \<lparr>h_length = word_of_nat (HEADER_LEN + length payload), h_kind = Data, h_code = code,
        h_transaction_id = tid\<rparr>) (\<lambda>(c, p).
     ok \<lparr>so_response_code = c_code c, so_response_params = parameters c,
         so_bytes = pr_payload_bytes p, so_reads = pr_reads p\<rparr>)
   (at_device (after_answers 1) s, w)"
proof -
  note d = assms [unfolded device_sends_def]
  have cut: "t @ concat ts @ missing = data_header code tid (length payload) @ payload"
    and first: "HEADER_LEN \<le> length t" "length t \<le> cfg_read_buffer (ses_config s)"
    and script: "left_answers (ses_device s) = Bytes t # map Bytes ts @ as"
    using d by simp_all
  have "take HEADER_LEN t = take HEADER_LEN (t @ concat ts @ missing)" using first(1) by simp
  also have "\<dots> = data_header code tid (length payload)" unfolding cut by simp
  finally have "t = data_header code tid (length payload) @ drop HEADER_LEN t"
    by (metis append_take_drop_id)
  then have "header_parse t = Inr \<lparr>h_length = word_of_nat (HEADER_LEN + length payload),
      h_kind = Data, h_code = code, h_transaction_id = tid\<rparr>"
    unfolding data_header_def using header_parse_push_header by metis
  moreover have "read_once fake_transport step (replicate (cfg_read_buffer (ses_config s)) 0) s
    = (Inr (t @ drop (length t) (replicate (cfg_read_buffer (ses_config s)) 0), length t),
       at_device (after_answers 1) s)"
    by (rule fake_read_once) (use script first in auto)
  ultimately show ?thesis
    by (simp add: read_answer_def read_answer_with_def and_then_def slice_to_def map_err_def)
qed

lemma read_answer_transfers:
  assumes d: "device_sends s code tid payload t ts [] (Bytes (response_bytes rc rtid ps) # later)"
    and rounds: "length ts \<le> rounds_for (HEADER_LEN + length payload) (cfg_read_buffer (ses_config s))"
    and resp: "12 + 4 * length ps \<le> cfg_read_buffer (ses_config s)" "12 + 4 * length ps < 2 ^ 32"
  shows "read_answer fake_transport vec_writer step (s, w) =
    (Inr \<lparr>so_response_code = rc, so_response_params = ps, so_bytes = length payload,
          so_reads = length ts + 1\<rparr>,
     (at_device (after_answers (length ts + 2)) s, w @ payload))"
proof -
  let ?b = "cfg_read_buffer (ses_config s)" and ?s1 = "at_device (after_answers 1) s"
  let ?n = "HEADER_LEN + length payload"
  let ?buf = "t @ drop (length t) (replicate ?b 0)"
  note f = device_sendsD [OF d]
  have lt: "HEADER_LEN \<le> length t" "length t \<le> ?b" using d by (simp_all add: device_sends_def)
  have lb: "length ?buf = ?b" using lt by simp
  have sum: "length t + length (concat ts) = ?n" using f(6) by simp
  let ?w = "w @ drop HEADER_LEN t"
  obtain buf' where lb': "length buf' = length ?buf" and run: "read_rounds fake_transport vec_writer step ?n
      (rounds_for ?n ?b) ?buf \<lparr>pr_have = length t, pr_payload_bytes = length t - HEADER_LEN, pr_reads = 1\<rparr> (?s1, ?w)
    = (Inr (buf', \<lparr>pr_have = ?n, pr_payload_bytes = length t - HEADER_LEN + length (concat ts),
                   pr_reads = 1 + length ts\<rparr>),
       (at_device (after_answers (length ts)) ?s1, ?w @ concat ts))"
    using read_rounds_complete [OF _ f(4) rounds sum, of ?buf step "length t - HEADER_LEN" 1 ?w]
      f(5) unfolding lb by blast
  have out: "drop HEADER_LEN t @ concat ts = payload" using f(7) by simp
  have paid: "length t - HEADER_LEN + length (concat ts) = length payload" using sum lt by simp
  let ?s2 = "at_device (after_answers (length ts)) ?s1"
  obtain c where c: "container_parse (response_bytes rc rtid ps) = Inr c" "c_kind c = Response"
      "c_code c = rc" "parameters c = ps"
    using container_parse_response [OF resp(2)] by blast
  have "read_once fake_transport step buf' ?s2 =
    (Inr (response_bytes rc rtid ps @ drop (length (response_bytes rc rtid ps)) buf',
          length (response_bytes rc rtid ps)), at_device (after_answers 1) ?s2)"
    by (rule fake_read_once) (use d resp(1) lb lb' in \<open>auto simp: length_response_bytes device_sends_def\<close>)
  then have response: "read_container fake_transport step buf' (?s2, w @ payload)
      = (Inr c, (at_device (after_answers 1) ?s2, w @ payload))"
    by (simp add: read_container_def slice_to_def map_err_def c)
  have "data_phase fake_transport vec_writer step ?b ?buf (length t)
     \<lparr>h_length = word_of_nat ?n, h_kind = Data, h_code = code, h_transaction_id = tid\<rparr> (?s1, w)
    = (Inr (c, \<lparr>pr_have = ?n, pr_payload_bytes = length payload, pr_reads = 1 + length ts\<rparr>),
       (at_device (after_answers 1) ?s2, w @ payload))"
    unfolding data_phase_def Let_def header.select_convs f(1) f(3)
    using f(2) lt run response c(2) by (simp add: out paid min_absorb2)
  then show ?thesis
    unfolding read_answer_start [OF d] using c by simp
qed

text \<open>
  C12: a data phase joins into the payload the device sent, which goes to the writer whole, and the
  response that follows is the answer, wherever the device cuts the transfers, as long as the first
  holds the header of twelve bytes, every other holds something, none is longer than the buffer,
  and there are no more of them than the rounds the host allows: the length of the container over
  the size of the buffer, and sixteen. Shorter transfers than that end as in the next property.
\<close>

theorem read_answer_joins:
  assumes d: "device_sends s code tid payload t ts [] (Bytes (response_bytes rc rtid ps) # later)"
    and rounds: "length ts \<le> rounds_for (HEADER_LEN + length payload) (cfg_read_buffer (ses_config s))"
    and resp: "12 + 4 * length ps \<le> cfg_read_buffer (ses_config s)" "12 + 4 * length ps < 2 ^ 32"
  shows "read_answer fake_transport vec_writer step (s, w) =
    (Inr \<lparr>so_response_code = rc, so_response_params = ps, so_bytes = length payload,
          so_reads = length ts + 1\<rparr>,
     (at_device (after_answers (length ts + 2)) s, w @ payload))"
  using assms by (rule read_answer_transfers)

lemma read_answer_joins_witness:
  "fst (read_answer fake_transport vec_writer ''GetObject''
      (fake_session [Bytes (data_header GET_OBJECT 0 5 @ [1, 2]), Bytes [3], Bytes [4, 5],
        Bytes (response_bytes RESP_OK 0 [])], []))
    = Inr \<lparr>so_response_code = RESP_OK, so_response_params = [], so_bytes = 5, so_reads = 3\<rparr>"
proof -
  let ?s = "fake_session [Bytes (data_header GET_OBJECT 0 5 @ [1, 2]), Bytes [3], Bytes [4, 5],
        Bytes (response_bytes RESP_OK 0 [])]"
  have five: "Suc (Suc (Suc (Suc (Suc 0)))) = 5" by simp
  have "device_sends ?s GET_OBJECT 0 [1, 2, 3, 4, 5] (data_header GET_OBJECT 0 5 @ [1, 2]) [[3], [4, 5]] []
      (Bytes (response_bytes RESP_OK 0 []) # [])"
    by (simp add: device_sends_def fake_config_def READ_BUFFER_MIN_def HEADER_LEN_def MAX_PAYLOAD_LEN_def
        u32_max_def five)
  from read_answer_joins [OF this, of "''GetObject''" "[]"]
  show ?thesis by (simp add: rounds_for_def fake_config_def READ_BUFFER_MIN_def)
qed

text \<open>
  C13: a data phase that stops before the length the device declared is a fault and never a short
  answer: whatever is missing, the operation fails and says how much arrived, and the writer has
  the bytes that did.
\<close>

theorem read_answer_incomplete:
  assumes d: "device_sends s code tid payload t ts missing as" and missing: "missing \<noteq> []"
    and rounds: "length ts \<le> rounds_for (HEADER_LEN + length payload) (cfg_read_buffer (ses_config s))"
    and stop: "as = [] \<or> as = Empty # as'
      \<or> length ts = rounds_for (HEADER_LEN + length payload) (cfg_read_buffer (ses_config s))"
  shows "\<exists>s'. read_answer fake_transport vec_writer step (s, w) =
    (Inl (Incomplete step (HEADER_LEN + length payload) (length (t @ concat ts))),
     (s', w @ take (length payload - length missing) payload))"
proof -
  let ?b = "cfg_read_buffer (ses_config s)" and ?s1 = "at_device (after_answers 1) s"
  let ?n = "HEADER_LEN + length payload"
  let ?buf = "t @ drop (length t) (replicate ?b 0)"
  let ?w = "w @ drop HEADER_LEN t"
  note f = device_sendsD [OF d]
  have lt: "HEADER_LEN \<le> length t" "length t \<le> ?b" using d by (simp_all add: device_sends_def)
  have lb: "length ?buf = ?b" using lt by simp
  have less: "length t + length (concat ts) < ?n" using f(6) missing by (cases missing) simp_all
  obtain buf' p s' where run: "read_rounds fake_transport vec_writer step ?n
      (rounds_for ?n ?b) ?buf \<lparr>pr_have = length t, pr_payload_bytes = length t - HEADER_LEN, pr_reads = 1\<rparr> (?s1, ?w)
    = (Inr (buf', p), (s', ?w @ concat ts))" and p: "pr_have p = length t + length (concat ts)"
    using read_rounds_stopped [OF _ f(4) rounds less stop, of ?buf step "length t - HEADER_LEN" 1 ?w]
      f(5) unfolding lb by blast
  have out: "drop HEADER_LEN t @ concat ts = take (length payload - length missing) payload"
    by (simp add: f(7) [symmetric])
  have "data_phase fake_transport vec_writer step ?b ?buf (length t)
     \<lparr>h_length = word_of_nat ?n, h_kind = Data, h_code = code, h_transaction_id = tid\<rparr> (?s1, w)
    = (Inl (Incomplete step ?n (length t + length (concat ts))),
       (s', w @ take (length payload - length missing) payload))"
    unfolding data_phase_def Let_def header.select_convs f(1) f(3)
    using f(2) lt run less p by (simp add: out min_absorb2)
  then show ?thesis
    unfolding read_answer_start [OF d] by simp
qed

lemma read_answer_incomplete_witness:
  "fst (read_answer fake_transport vec_writer ''GetDeviceInfo''
      (fake_session [Bytes (data_header GET_DEVICE_INFO 0 5 @ [1, 2]), Bytes [3], Empty], []))
    = Inl (Incomplete ''GetDeviceInfo'' 17 15)"
proof -
  let ?s = "fake_session [Bytes (data_header GET_DEVICE_INFO 0 5 @ [1, 2]), Bytes [3], Empty]"
  have five: "Suc (Suc (Suc (Suc (Suc 0)))) = 5" by simp
  have "device_sends ?s GET_DEVICE_INFO 0 [1, 2, 3, 4, 5] (data_header GET_DEVICE_INFO 0 5 @ [1, 2]) [[3]] [4, 5] [Empty]"
    by (simp add: device_sends_def fake_config_def READ_BUFFER_MIN_def HEADER_LEN_def MAX_PAYLOAD_LEN_def
        u32_max_def five)
  from read_answer_incomplete [OF this, of "[]" "''GetDeviceInfo''" "[]"]
  show ?thesis by (auto simp: rounds_for_def HEADER_LEN_def)
qed

text \<open>A response with no data phase.\<close>

lemma read_answer_response:
  assumes "left_answers (ses_device s) = Bytes (response_bytes rc tid ps) # later"
    and "12 + 4 * length ps \<le> cfg_read_buffer (ses_config s)" "12 + 4 * length ps < 2 ^ 32"
  shows "read_answer fake_transport vec_writer step (s, w) =
    (Inr \<lparr>so_response_code = rc, so_response_params = ps, so_bytes = 0, so_reads = 1\<rparr>,
     (at_device (after_answers 1) s, w))"
proof -
  let ?r = "response_bytes rc tid ps"
  obtain c where c: "container_parse ?r = Inr c" "c_kind c = Response"
      "c_code c = rc" "parameters c = ps"
    using container_parse_response [OF assms(3)] by blast
  have "read_once fake_transport step (replicate (cfg_read_buffer (ses_config s)) 0) s
    = (Inr (?r @ drop (length ?r) (replicate (cfg_read_buffer (ses_config s)) 0), length ?r),
       at_device (after_answers 1) s)"
    by (rule fake_read_once) (use assms in \<open>auto simp: length_response_bytes\<close>)
  moreover have "header_parse ?r = Inr \<lparr>h_length = word_of_nat (HEADER_LEN + 4 * length ps),
      h_kind = Response, h_code = rc, h_transaction_id = tid\<rparr>"
    unfolding response_bytes_def by (rule header_parse_push_header)
  ultimately show ?thesis
    by (simp add: read_answer_def read_answer_with_def and_then_def slice_to_def map_err_def c)
qed

end
