(* ===== verification/Mtp_Session_Life.thy ===== *)
theory Mtp_Session_Life
  imports Mtp_Session_Data
begin

text \<open>
  The life of a session: what every reachable session keeps, the commands the opening, the
  repair and the drop of a session send, and the answers they give.
\<close>

section \<open>Reachable sessions\<close>

inductive session_step ::
    "'d transport \<Rightarrow> 'w io_writer \<Rightarrow> 'r io_reader \<Rightarrow> 'd session \<Rightarrow> 'd session \<Rightarrow> bool"
  for T W R where
  Operation: "operation T step code ps s = (x, s') \<Longrightarrow> session_step T W R s s'"
| Stream: "operation_stream T W step code ps (s, w) = (x', (s', w')) \<Longrightarrow> session_step T W R s s'"
| Sending: "operation_sending T R step code ps n (s, r) = (y, (s', r')) \<Longrightarrow> session_step T W R s s'"
| Open: "open_session T sid s = (y, s') \<Longrightarrow> session_step T W R s s'"
| Close: "close_session T s = (y, s') \<Longrightarrow> session_step T W R s s'"
| Repair: "open_session_or_repair T sid s = (z, s') \<Longrightarrow> session_step T W R s s'"
| Recover: "recover T s = (k, s') \<Longrightarrow> session_step T W R s s'"
| Resize: "s' = set_read_buffer n s \<Longrightarrow> session_step T W R s s'"
| Capabilities: "device_capabilities T s = (c, s') \<Longrightarrow> session_step T W R s s'"
| Reset: "reset_device T s = (u, s') \<Longrightarrow> session_step T W R s s'"

inductive reachable_session ::
    "'d transport \<Rightarrow> 'w io_writer \<Rightarrow> 'r io_reader \<Rightarrow> 'd session \<Rightarrow> bool"
  for T W R where
  New: "session_new T d cfg = (s, n) \<Longrightarrow> reachable_session T W R s"
| Without: "reachable_session T W R (new_without_recovery d cfg)"
| Step: "reachable_session T W R s \<Longrightarrow> session_step T W R s s' \<Longrightarrow> reachable_session T W R s'"

inductive_cases session_stepE: "session_step T W R s s'"

lemma keeps_operation_stream: "keeps keeps_config2 (operation_stream T W step code ps)"
  unfolding operation_stream_def by (auto intro!: keeps_session keeps_read_answer)

lemma config_ok_resize: "config_ok (ses_config s) \<Longrightarrow> config_ok (ses_config (set_read_buffer n s))"
  by (simp add: set_read_buffer_def config_ok_def)

lemma session_step_config:
  assumes "session_step T W R s s'" and "config_ok (ses_config s)"
  shows "config_ok (ses_config s')"
  using assms(1)
proof cases
  case (Operation step code ps x)
  then show ?thesis using keepsD [OF keeps_operation] assms(2) by (metis keeps_config_def)
next
  case (Stream step code ps w x' w')
  from keepsD [OF keeps_operation_stream this] show ?thesis
    using assms(2) by (simp add: keeps_config2_def keeps_config_def)
next
  case (Sending step code ps n r y r')
  from keepsD [OF keeps_operation_sending this] show ?thesis
    using assms(2) by (simp add: keeps_config2_def keeps_config_def)
next
  case (Open sid y)
  then show ?thesis using keepsD [OF keeps_open_session] assms(2) by (metis keeps_config_def)
next
  case (Close y)
  then show ?thesis using keepsD [OF keeps_close_session] assms(2) by (metis keeps_config_def)
next
  case (Repair sid z)
  then show ?thesis using keepsD [OF keeps_open_session_or_repair] assms(2) by (metis keeps_config_def)
next
  case (Recover k)
  then show ?thesis using recover_config [of T s] assms(2) by simp
next
  case (Resize n)
  then show ?thesis using config_ok_resize assms(2) by simp
next
  case (Capabilities c)
  then show ?thesis using assms(2) by (auto simp: device_capabilities_def on_device_def split: prod.splits)
next
  case (Reset u)
  then show ?thesis using assms(2) by (auto simp: reset_device_def on_device_def split: prod.splits)
qed

text \<open>
  Every session that a program can reach, over any transport and with any answers of the
  device, keeps a usable configuration: whatever operations it runs, resizes and resets included.
\<close>

theorem reachable_config_ok: "reachable_session T W R s \<Longrightarrow> config_ok (ses_config s)"
proof (induction rule: reachable_session.induct)
  case (New d cfg s n)
  then show ?case
    using recover_config [of T "new_without_recovery d cfg"]
    by (auto simp: session_new_def new_without_recovery_def normalised_ok split: prod.splits)
next
  case (Without d cfg)
  then show ?case by (simp add: new_without_recovery_def normalised_ok)
next
  case (Step s s')
  then show ?case using session_step_config by blast
qed

section \<open>Transactions\<close>

definition keeps_transaction :: "'d session \<times> 'w \<Rightarrow> 'd session \<times> 'w \<Rightarrow> bool" where
  "keeps_transaction s s' \<longleftrightarrow> ses_transaction (fst s') = ses_transaction (fst s)"

interpretation tid_step: step_order keeps_transaction
  by unfold_locales (auto simp: keeps_transaction_def)

lemma keeps_tid_device:
  "keeps keeps_transaction (on_fst (read_once T step buf))"
  "keeps keeps_transaction (on_fst (write_all T step bs))"
  "keeps keeps_transaction (on_snd m)"
  "keeps keeps_transaction (slice_to step buf n)"
  by (rule keepsI; auto simp: keeps_transaction_def read_once_def write_all_def on_device_def
      map_err_def and_then_def slice_to_def on_fst_def on_snd_def split: prod.splits sum.splits if_splits)+

lemmas keeps_tid =
  tid_step.keeps_and_then tid_step.keeps_ok tid_step.keeps_err tid_step.keeps_map_err
  tid_step.keeps_from_result keeps_tid_device

lemma keeps_tid_rounds: "keeps keeps_transaction (read_rounds T W step declared k buf p)"
  by (induction k arbitrary: buf p)
     (auto simp: Let_def write_out_def simp del: ok_apply intro!: keeps_tid)

lemma keeps_tid_answer: "keeps keeps_transaction (read_answer T W step)"
proof -
  have "keeps keeps_transaction (read_answer_with T W step sz)" for sz
    unfolding read_answer_with_def data_phase_def read_container_def write_out_def Let_def
    by (auto intro!: keeps_tid keeps_tid_rounds split: container_type.split prod.split)
  then show ?thesis by (simp add: keeps_def read_answer_def)
qed

lemma operation_transaction:
  assumes "operation T step code ps s = (x, s')"
  shows "ses_transaction s' = ses_transaction s + 1"
proof -
  obtain y s1 w where run: "operation_stream T vec_writer step code ps (s, []) = (y, (s1, w))"
    by (metis prod.exhaust)
  then have s': "s' = s1" using assms by (auto simp: operation_def collecting_def split: sum.splits)
  let ?s1 = "s\<lparr>ses_transaction := ses_transaction s + 1\<rparr>"
  have "keeps keeps_transaction
      (and_then (on_fst (write_all T step (build_command code (ses_transaction s) ps)))
        (\<lambda>_. read_answer T vec_writer step))"
    by (intro tid_step.keeps_and_then keeps_tid keeps_tid_answer)
  moreover have "and_then (on_fst (write_all T step (build_command code (ses_transaction s) ps)))
        (\<lambda>_. read_answer T vec_writer step) (?s1, []) = (y, (s1, w))"
    using run by (simp add: operation_stream_def next_transaction_def)
  ultimately have "keeps_transaction (?s1, []) (s1, w)" by (rule keepsD)
  then show ?thesis using s' by (simp add: keeps_transaction_def)
qed

section \<open>Commands on the scripted device\<close>

definition record_write :: "bytes \<Rightarrow> fake_device \<Rightarrow> fake_device" where
  "record_write bs f = f\<lparr>fk_writes := fk_writes f @ [bs]\<rparr>"

lemma record_write_fields [simp]:
  "fk_writes (record_write bs f) = fk_writes f @ [bs]"
  "left_answers (record_write bs f) = left_answers f"
  "fk_stalls_cleared (record_write bs f) = fk_stalls_cleared f"
  by (simp_all add: record_write_def left_answers_def)

lemma fake_write_all: "write_all fake_transport step bs s = (Inr (), at_device (record_write bs) s)"
  by (simp add: write_all_def map_err_def and_then_def on_device_def fake_transport_def
      fake_write_def at_device_def record_write_def)

lemma write_frames_fake:
  "\<exists>g. write_frames fake_transport step fs s = (Inr (), at_device g s)
     \<and> (\<forall>f. fk_writes (g f) = fk_writes f @ fs \<and> left_answers (g f) = left_answers f)"
proof (induction fs arbitrary: s)
  case Nil
  have "write_frames fake_transport step [] s = (Inr (), at_device id s)"
    by (simp add: at_device_def)
  then show ?case by (intro exI [of _ id]) simp
next
  case (Cons b fs)
  from Cons [of "at_device (record_write b) s"] obtain g where
    "write_frames fake_transport step fs (at_device (record_write b) s) = (Inr (), at_device (\<lambda>d. g (record_write b d)) s)"
    "\<forall>f. fk_writes (g f) = fk_writes f @ fs \<and> left_answers (g f) = left_answers f"
    by auto
  then show ?case
    by (intro exI [of _ "\<lambda>d. g (record_write b d)"]) (simp add: fake_write_all and_then_def)
qed

definition issue :: "u16 \<Rightarrow> u32 list \<Rightarrow> fake_device session \<Rightarrow> fake_device session" where
  "issue code ps s =
     at_device (record_write (build_command code (ses_transaction s) ps))
       (s\<lparr>ses_transaction := ses_transaction s + 1\<rparr>)"

lemma operation_stream_fake:
  "operation_stream fake_transport W step code ps (s, w) = read_answer fake_transport W step (issue code ps s, w)"
  by (simp add: operation_stream_def next_transaction_def fake_write_all issue_def)

lemma issue_fields [simp]:
  "ses_config (issue code ps s) = ses_config s"
  "ses_session_open (issue code ps s) = ses_session_open s"
  "ses_transaction (issue code ps s) = ses_transaction s + 1"
  "left_answers (ses_device (issue code ps s)) = left_answers (ses_device s)"
  "fk_writes (ses_device (issue code ps s)) = fk_writes (ses_device s) @ [build_command code (ses_transaction s) ps]"
  by (simp_all add: issue_def)

lemma operation_fake_response:
  assumes "left_answers (ses_device s) = Bytes (response_bytes rc tid rps) # later"
    and "12 + 4 * length rps \<le> cfg_read_buffer (ses_config s)" "12 + 4 * length rps < 2 ^ 32"
  shows "operation fake_transport step code ps s =
    (Inr \<lparr>o_response_code = rc, o_data = [], o_response_params = rps, o_reads = 1\<rparr>,
     at_device (after_answers 1) (issue code ps s))"
  using read_answer_response [of "issue code ps s" rc tid rps later step "[]"] assms
  by (simp add: operation_def collecting_def operation_stream_fake)

section \<open>What the session writes\<close>

text \<open>No read and no recovery writes to the device.\<close>

definition same_writes :: "fake_device session \<times> 'w \<Rightarrow> fake_device session \<times> 'w \<Rightarrow> bool" where
  "same_writes s s' \<longleftrightarrow> fk_writes (ses_device (fst s')) = fk_writes (ses_device (fst s))"

interpretation quiet: step_order same_writes
  by unfold_locales (auto simp: same_writes_def)

lemma fake_read_quiet: "fk_writes (snd (fake_read buf t f)) = fk_writes f"
  by (simp add: fake_read_def Let_def split: answer.split)

lemma quiet_device:
  "keeps same_writes (on_fst (read_once fake_transport step buf))"
  "keeps same_writes (on_snd m)"
  "keeps same_writes (slice_to step buf n)"
proof -
  have "snd (read_once fake_transport step buf s) = at_device (\<lambda>f. snd (fake_read buf (cfg_timeout (ses_config s)) f)) s" for s
    by (simp add: read_once_def map_err_def on_device_def fake_transport_def at_device_def
        split: prod.split sum.split)
  then show "keeps same_writes (on_fst (read_once fake_transport step buf))"
    by (simp add: keeps_def same_writes_def on_fst_def case_prod_beta fake_read_quiet)
  show "keeps same_writes (on_snd m)"
    by (simp add: keeps_def same_writes_def on_snd_def case_prod_beta)
  show "keeps same_writes (slice_to step buf n)"
    by (simp add: slice_to_def quiet.keeps_ok quiet.keeps_err)
qed

lemmas keeps_quiet =
  quiet.keeps_and_then quiet.keeps_ok quiet.keeps_err quiet.keeps_map_err
  quiet.keeps_from_result quiet_device

lemma quiet_rounds: "keeps same_writes (read_rounds fake_transport W step declared k buf p)"
  by (induction k arbitrary: buf p)
     (auto simp: Let_def write_out_def simp del: ok_apply intro!: keeps_quiet)

lemma quiet_answer: "keeps same_writes (read_answer fake_transport W step)"
proof -
  have "keeps same_writes (read_answer_with fake_transport W step sz)" for sz
    unfolding read_answer_with_def data_phase_def read_container_def write_out_def Let_def
    by (auto intro!: keeps_quiet quiet_rounds split: container_type.split prod.split)
  then show ?thesis by (simp add: keeps_def read_answer_def)
qed

lemma operation_writes:
  assumes "operation fake_transport step code ps s = (x, s')"
  shows "fk_writes (ses_device s') = fk_writes (ses_device s) @ [build_command code (ses_transaction s) ps]"
proof -
  obtain y s1 w where run: "read_answer fake_transport vec_writer step (issue code ps s, []) = (y, (s1, w))"
    by (metis prod.exhaust)
  then have "s' = s1"
    using assms by (auto simp: operation_def collecting_def operation_stream_fake split: sum.splits)
  then show ?thesis using keepsD [OF quiet_answer run] by (simp add: same_writes_def)
qed

lemma drain_writes: "fk_writes (ses_device (snd (drain_rounds fake_transport k buf t n s))) = fk_writes (ses_device s)"
proof (induction fake_transport k buf t n s rule: drain_rounds.induct)
  case (2 k buf t n s)
  obtain r f where r: "fake_read buf t (ses_device s) = (r, f)" by fastforce
  then have "fk_writes f = fk_writes (ses_device s)" using fake_read_quiet [of buf t] by (metis snd_conv)
  then show ?case
    using 2 r by (auto simp: on_device_def fake_transport_def split: sum.splits)
qed simp

lemma fake_clear_stalls: "clear_stalls fake_transport s = at_device (fk_stalls_cleared_update (\<lambda>n. n + 1)) s"
  by (simp add: clear_stalls_def fake_transport_def at_device_def)

lemma recover_writes: "fk_writes (ses_device (snd (recover fake_transport s))) = fk_writes (ses_device s)"
  by (simp add: recover_def drain_def drain_writes fake_clear_stalls)

lemma drain_transaction: "ses_transaction (snd (drain_rounds T k buf t n s)) = ses_transaction s
    \<and> ses_session_open (snd (drain_rounds T k buf t n s)) = ses_session_open s"
  by (induction T k buf t n s rule: drain_rounds.induct)
     (auto simp: on_device_def split: prod.splits sum.splits)

lemma recover_fields:
  "ses_transaction (snd (recover T s)) = ses_transaction s"
  "ses_session_open (snd (recover T s)) = ses_session_open s"
  by (simp_all add: recover_def drain_def drain_transaction clear_stalls_def)

lemma close_session_writes:
  "fk_writes (ses_device (snd (close_session fake_transport s)))
     = fk_writes (ses_device s) @ [build_command CLOSE_SESSION (ses_transaction s) []]"
proof -
  obtain x s1 where run: "operation fake_transport ''CloseSession'' CLOSE_SESSION [] s = (x, s1)"
    by fastforce
  then show ?thesis
    using operation_writes [OF run]
    by (cases x) (simp_all add: close_session_def and_then_def)
qed

text \<open>
  C32: dropping a session sends exactly one \<open>CloseSession\<close> when the session is open, with the next
  transaction number, and nothing when it is not, whatever the device answers.
\<close>

theorem drop_session_writes:
  "fk_writes (ses_device (drop_session fake_transport s)) = fk_writes (ses_device s) @
     (if ses_session_open s then [build_command CLOSE_SESSION (ses_transaction s) []] else [])"
  by (simp add: drop_session_def close_session_writes recover_writes recover_fields)

section \<open>Opening and repair on the scripted device\<close>

lemma left_stalls [simp]: "left_answers (fk_stalls_cleared_update g f) = left_answers f"
  by (simp add: left_answers_def)

lemma drain_rounds_fake:
  assumes "\<forall>j\<in>set js. j \<noteq> [] \<and> length j \<le> length buf" and "length js < k"
    and "left_answers (ses_device s) = map Bytes js @ Empty # later"
  shows "drain_rounds fake_transport k buf t n s =
    (n + length (concat js), at_device (after_answers (length js + 1)) s)"
  using assms
proof (induction js arbitrary: k buf t n s)
  case Nil
  then obtain k' where "k = Suc k'" by (cases k) auto
  then show ?case using Nil
    by (simp add: on_device_def fake_transport_def fake_read_left at_device_def)
next
  case (Cons j js)
  then obtain k' where k: "k = Suc k'" by (cases k) auto
  let ?s = "at_device (after_answers 1) s"
  have j: "j \<noteq> []" "length j \<le> length buf" using Cons.prems by auto
  then have one: "on_device (tp_read fake_transport buf t) s
      = (Inr (j @ drop (length j) buf, length j), ?s)"
    using Cons.prems by (simp add: on_device_def fake_transport_def fake_read_left at_device_def min_def)
  have "drain_rounds fake_transport k buf t n s
      = drain_rounds fake_transport k' (j @ drop (length j) buf) (from_millis DRAIN_REST_MILLIS) (n + length j) ?s"
    using j by (simp add: k one)
  also have "\<dots> = (n + length j + length (concat js), at_device (after_answers (length js + 1)) ?s)"
    by (rule Cons.IH) (use Cons.prems j k in auto)
  finally show ?case by simp
qed

lemma recover_fake:
  assumes "\<forall>j\<in>set js. j \<noteq> [] \<and> length j \<le> cfg_read_buffer (ses_config s)"
    and "length js < MAX_READ_ROUNDS"
    and "left_answers (ses_device s) = map Bytes js @ Empty # later"
  shows "\<exists>s'. recover fake_transport s = (length (concat js), s')
    \<and> left_answers (ses_device s') = later \<and> fk_writes (ses_device s') = fk_writes (ses_device s)
    \<and> ses_config s' = ses_config s \<and> ses_transaction s' = ses_transaction s
    \<and> ses_session_open s' = ses_session_open s"
proof -
  let ?s = "at_device (fk_stalls_cleared_update (\<lambda>n. n + 1)) s"
  have "recover fake_transport s = (0 + length (concat js), at_device (after_answers (length js + 1)) ?s)"
    unfolding recover_def drain_def fake_clear_stalls
    by (rule drain_rounds_fake [where later = later]) (use assms in simp_all)
  then show ?thesis using assms(3) by simp
qed

definition code_only :: "u16 \<Rightarrow> outcome" where
  "code_only c = \<lparr>o_response_code = c, o_data = [], o_response_params = [], o_reads = 1\<rparr>"

lemma open_session_fake:
  assumes "left_answers (ses_device s) = Bytes (response_bytes rc tid []) # later"
    and "12 \<le> cfg_read_buffer (ses_config s)"
  shows "\<exists>s'. open_session fake_transport sid s = (Inr (code_only rc), s')
    \<and> left_answers (ses_device s') = later
    \<and> fk_writes (ses_device s') = fk_writes (ses_device s) @ [build_command OPEN_SESSION (ses_transaction s) [sid]]
    \<and> ses_config s' = ses_config s \<and> ses_transaction s' = ses_transaction s + 1
    \<and> ses_session_open s' = (ses_session_open s \<or> rc = RESP_OK \<or> rc = RESP_SESSION_ALREADY_OPEN)"
proof -
  have run: "operation fake_transport ''OpenSession'' OPEN_SESSION [sid] s
      = (Inr (code_only rc), at_device (after_answers 1) (issue OPEN_SESSION [sid] s))"
    unfolding code_only_def by (rule operation_fake_response) (use assms in simp_all)
  show ?thesis
    by (cases "rc = RESP_OK \<or> rc = RESP_SESSION_ALREADY_OPEN")
       (simp_all add: open_session_def run outcome_is_ok_def code_only_def assms)
qed

lemma close_session_fake:
  assumes "left_answers (ses_device s) = Bytes (response_bytes rc tid []) # later"
    and "12 \<le> cfg_read_buffer (ses_config s)"
  shows "\<exists>s'. close_session fake_transport s = (Inr (code_only rc), s')
    \<and> left_answers (ses_device s') = later
    \<and> fk_writes (ses_device s') = fk_writes (ses_device s) @ [build_command CLOSE_SESSION (ses_transaction s) []]
    \<and> ses_config s' = ses_config s \<and> ses_transaction s' = ses_transaction s + 1
    \<and> ses_session_open s' = (ses_session_open s \<and> rc \<noteq> RESP_OK)"
proof -
  have run: "operation fake_transport ''CloseSession'' CLOSE_SESSION [] s
      = (Inr (code_only rc), at_device (after_answers 1) (issue CLOSE_SESSION [] s))"
    unfolding code_only_def by (rule operation_fake_response) (use assms in simp_all)
  show ?thesis
    by (cases "rc = RESP_OK")
       (simp_all add: close_session_def run outcome_is_ok_def code_only_def assms)
qed

text \<open>
  C18: an open that meets a session an earlier program left behind closes it, drops every byte the
  device still held, and opens again, and reports each of these; the three commands carry three
  transaction numbers in a row.
\<close>

theorem open_session_or_repair_repairs:
  assumes buffer: "READ_BUFFER_MIN \<le> cfg_read_buffer (ses_config s)"
    and junk: "\<forall>j\<in>set js. j \<noteq> [] \<and> length j \<le> cfg_read_buffer (ses_config s)"
      "length js < MAX_READ_ROUNDS"
    and script: "left_answers (ses_device s) =
      Bytes (response_bytes RESP_SESSION_ALREADY_OPEN t1 []) # Bytes (response_bytes c2 t2 [])
      # map Bytes js @ Empty # Bytes (response_bytes c3 t3 []) # later"
  shows "\<exists>s'. open_session_or_repair fake_transport sid s =
      (Inr \<lparr>sop_outcome = code_only c3, sop_repaired = True, sop_close_response = Some c2,
            sop_dropped = length (concat js),
            sop_wedged = (c3 = RESP_SESSION_ALREADY_OPEN)\<rparr>, s')
    \<and> fk_writes (ses_device s') = fk_writes (ses_device s) @
        [build_command OPEN_SESSION (ses_transaction s) [sid],
         build_command CLOSE_SESSION (ses_transaction s + 1) [],
         build_command OPEN_SESSION (ses_transaction s + 2) [sid]]
    \<and> ses_session_open s' = (c2 \<noteq> RESP_OK \<or> c3 = RESP_OK \<or> c3 = RESP_SESSION_ALREADY_OPEN)"
proof -
  have b: "12 \<le> cfg_read_buffer (ses_config s)" using buffer by (simp add: READ_BUFFER_MIN_def)
  from open_session_fake [OF script b, of sid] obtain s1 where
    s1: "open_session fake_transport sid s = (Inr (code_only RESP_SESSION_ALREADY_OPEN), s1)"
      "left_answers (ses_device s1) = Bytes (response_bytes c2 t2 [])
        # map Bytes js @ Empty # Bytes (response_bytes c3 t3 []) # later"
      "fk_writes (ses_device s1) = fk_writes (ses_device s) @ [build_command OPEN_SESSION (ses_transaction s) [sid]]"
      "ses_config s1 = ses_config s" "ses_transaction s1 = ses_transaction s + 1" "ses_session_open s1"
    by auto
  have "12 \<le> cfg_read_buffer (ses_config s1)" using b s1(4) by simp
  from close_session_fake [OF s1(2) this] obtain s2 where
    s2: "close_session fake_transport s1 = (Inr (code_only c2), s2)"
      "left_answers (ses_device s2) = map Bytes js @ Empty # Bytes (response_bytes c3 t3 []) # later"
      "fk_writes (ses_device s2) = fk_writes (ses_device s1) @ [build_command CLOSE_SESSION (ses_transaction s1) []]"
      "ses_config s2 = ses_config s1" "ses_transaction s2 = ses_transaction s1 + 1"
      "ses_session_open s2 = (c2 \<noteq> RESP_OK)"
    using s1(6) by auto
  have "\<forall>j\<in>set js. j \<noteq> [] \<and> length j \<le> cfg_read_buffer (ses_config s2)"
    using junk s1(4) s2(4) by simp
  from recover_fake [OF this junk(2) s2(2)] obtain s3 where
    s3: "recover fake_transport s2 = (length (concat js), s3)"
      "left_answers (ses_device s3) = Bytes (response_bytes c3 t3 []) # later"
      "fk_writes (ses_device s3) = fk_writes (ses_device s2)"
      "ses_config s3 = ses_config s2" "ses_transaction s3 = ses_transaction s2"
      "ses_session_open s3 = ses_session_open s2"
    by auto
  have "12 \<le> cfg_read_buffer (ses_config s3)" using b s1(4) s2(4) s3(4) by simp
  from open_session_fake [OF s3(2) this, of sid] obtain s4 where
    s4: "open_session fake_transport sid s3 = (Inr (code_only c3), s4)"
      "fk_writes (ses_device s4) = fk_writes (ses_device s3) @ [build_command OPEN_SESSION (ses_transaction s3) [sid]]"
      "ses_session_open s4 = (ses_session_open s3 \<or> c3 = RESP_OK \<or> c3 = RESP_SESSION_ALREADY_OPEN)"
    by auto
  have tid: "ses_transaction s3 = ses_transaction s + 2"
    using s1(5) s2(5) s3(5) by simp
  have "open_session_or_repair fake_transport sid s =
      (Inr \<lparr>sop_outcome = code_only c3, sop_repaired = True, sop_close_response = Some c2,
            sop_dropped = length (concat js),
            sop_wedged = (c3 = RESP_SESSION_ALREADY_OPEN)\<rparr>, s4)"
    using s1(1) s2(1) s3(1) s4(1)
    by (simp add: open_session_or_repair_def code_only_def unwrap_or_def)
  then show ?thesis
    using s1(3,5) s2(3,6) s3(3,6) s4(2,3) tid by simp
qed

text \<open>What a device puts together from the writes of a data phase.\<close>

lemma data_frames_container:
  assumes "config_ok cfg" and "length payload \<le> MAX_PAYLOAD_LEN"
  shows "\<exists>c. container_parse (concat (data_frames cfg (data_header code tid (length payload)) payload)) = Inr c
    \<and> c_kind c = Data \<and> c_code c = code \<and> c_transaction_id c = tid \<and> c_payload c = payload"
proof -
  obtain len where len: "container_length (length payload) = Inr len"
    using container_length_Inr_iff assms(2) by blast
  have "concat (data_frames cfg (data_header code tid (length payload)) payload)
      = push_header [] len Data code tid @ payload @ []"
    using concat_data_frames [OF assms(1)] len
    by (simp add: data_header_def container_length_def split: if_splits)
  then show ?thesis
    using container_parse_push_header [OF unat_container_length(1) [OF len],
        where kind = Data and code = code and tid = tid and rest = "[]"]
    by simp
qed

section \<open>Properties\<close>

text \<open>
  C11: a payload goes to the device as one command and then one data container, cut into writes of
  which every one but the last is a whole number of packets, and of which the last is not: the
  device sees the end of the data phase at the last write and not before, and the container it
  puts together holds the payload.
\<close>

theorem operation_with_data_sends:
  assumes "config_ok (ses_config s)" and "length payload \<le> MAX_PAYLOAD_LEN"
    and "frames = data_frames (ses_config s) (data_header code (ses_transaction s) (length payload)) payload"
  shows "operation_with_data T step code params payload s =
      and_then (write_frames T step (build_command code (ses_transaction s) params # frames)) (\<lambda>_.
        collecting (read_answer T vec_writer step))
      (s\<lparr>ses_transaction := ses_transaction s + 1\<rparr>)
    \<and> (\<forall>f\<in>set (butlast frames). f \<noteq> [] \<and> length f mod cfg_packet (ses_config s) = 0)
    \<and> (last frames = [] \<or> length (last frames) mod cfg_packet (ses_config s) \<noteq> 0)
    \<and> (\<exists>c. container_parse (concat frames) = Inr c \<and> c_kind c = Data \<and> c_code c = code
        \<and> c_transaction_id c = ses_transaction s \<and> c_payload c = payload)"
proof (intro conjI)
  let ?h = "data_header code (ses_transaction s) (length payload)"
  have h: "length ?h = HEADER_LEN" by simp
  show "operation_with_data T step code params payload s =
      and_then (write_frames T step (build_command code (ses_transaction s) params # frames)) (\<lambda>_.
        collecting (read_answer T vec_writer step))
      (s\<lparr>ses_transaction := ses_transaction s + 1\<rparr>)"
    using operation_with_data_frames [OF assms(1,2), of T step code params]
    by (simp add: and_then_def next_transaction_def assms(3) split: prod.split sum.split)
  show "\<forall>f\<in>set (butlast frames). f \<noteq> [] \<and> length f mod cfg_packet (ses_config s) = 0"
    and "last frames = [] \<or> length (last frames) mod cfg_packet (ses_config s) \<noteq> 0"
    using data_frames_packets [OF assms(1) h, where payload = payload] unfolding assms(3) by blast+
  show "\<exists>c. container_parse (concat frames) = Inr c \<and> c_kind c = Data \<and> c_code c = code
        \<and> c_transaction_id c = ses_transaction s \<and> c_payload c = payload"
    unfolding assms(3) by (rule data_frames_container [OF assms(1,2)])
qed

lemma operation_with_data_sends_witness:
  "data_frames fake_config (data_header SEND_OBJECT 0 500) (replicate 500 7) =
      [data_header SEND_OBJECT 0 500 @ replicate 500 7, []]
    \<and> (\<exists>c. container_parse (data_header SEND_OBJECT 0 500 @ replicate 500 7) = Inr c \<and> c_payload c = replicate 500 7)"
proof -
  let ?s = "fake_session []" and ?p = "replicate 500 7 :: bytes"
  have frames: "data_frames (ses_config ?s) (data_header SEND_OBJECT (ses_transaction ?s) (length ?p)) ?p
      = [data_header SEND_OBJECT 0 500 @ ?p, []]"
    by (simp add: data_frames_def fake_config_def HEADER_LEN_def needs_zero_packet_def chunks_of.simps)
  have "length ?p \<le> MAX_PAYLOAD_LEN" by (simp add: MAX_PAYLOAD_LEN_def u32_max_def HEADER_LEN_def)
  moreover have "config_ok (ses_config ?s)" by (simp add: fake_config_ok)
  ultimately show ?thesis
    using operation_with_data_sends [of ?s ?p _ SEND_OBJECT fake_transport "''Send''" "[]", OF _ _ frames [symmetric]]
      frames by auto
qed

lemma open_session_or_repair_repairs_witness:
  "\<exists>s'. open_session_or_repair fake_transport 1 (fake_session
      [Bytes (response_bytes RESP_SESSION_ALREADY_OPEN 0 []), Bytes (response_bytes RESP_OK 1 []),
       Bytes [9, 9, 9], Empty, Bytes (response_bytes RESP_OK 2 [])]) =
     (Inr \<lparr>sop_outcome = code_only RESP_OK, sop_repaired = True, sop_close_response = Some RESP_OK,
           sop_dropped = 3, sop_wedged = False\<rparr>, s') \<and> ses_session_open s'"
proof -
  let ?s = "fake_session [Bytes (response_bytes RESP_SESSION_ALREADY_OPEN 0 []), Bytes (response_bytes RESP_OK 1 []),
       Bytes [9, 9, 9], Empty, Bytes (response_bytes RESP_OK 2 [])]"
  have "left_answers (ses_device ?s) = Bytes (response_bytes RESP_SESSION_ALREADY_OPEN 0 []) #
      Bytes (response_bytes RESP_OK 1 []) # map Bytes [[9, 9, 9]] @ Empty # Bytes (response_bytes RESP_OK 2 []) # []"
    by simp
  from open_session_or_repair_repairs [OF _ _ _ this, of 1]
  show ?thesis
    by (auto simp: fake_config_def READ_BUFFER_MIN_def MAX_READ_ROUNDS_def MAX_DATA_BYTES_def
        RESP_OK_def RESP_SESSION_ALREADY_OPEN_def)
qed

text \<open>
  A configuration comes out of \<open>normalised\<close> with a packet of at least one byte, a read buffer
  of at least the least one, and a write chunk that is a whole number of packets and larger than
  a header; one that already is so is left alone, so normalising twice changes nothing.
\<close>

theorem normalised_is_ok:
  "config_ok (normalised c) \<and> normalised (normalised c) = normalised c
     \<and> (normalised c = c) = config_ok c"
  using normalised_ok [of c] normalised_same by metis

lemma reachable_config_ok_witness:
  "config_ok (ses_config (set_read_buffer 7 (snd (operation fake_transport ''GetDeviceInfo'' GET_DEVICE_INFO []
     (new_without_recovery (fake_new []) default_config)))))"
proof -
  let ?s = "new_without_recovery (fake_new []) default_config"
  obtain x s1 where run: "operation fake_transport ''GetDeviceInfo'' GET_DEVICE_INFO [] ?s = (x, s1)" by fastforce
  have "reachable_session fake_transport vec_writer slice_reader (set_read_buffer 7 s1)"
    by (rule reachable_session.Step [OF reachable_session.Step [OF reachable_session.Without]])
       (rule session_step.Operation [OF run], rule session_step.Resize [OF refl])
  from reachable_config_ok [OF this] run show ?thesis by simp
qed

text \<open>
  Every operation takes the transaction number the session holds and leaves the next one, with
  the wrap of 32 bits, and sends exactly one command that carries it, whether it succeeds or not.
\<close>

theorem operation_takes_transaction:
  "case operation fake_transport step code ps s of (x, s') \<Rightarrow>
     ses_transaction s' = ses_transaction s + 1
     \<and> fk_writes (ses_device s') = fk_writes (ses_device s) @ [build_command code (ses_transaction s) ps]"
  by (auto dest: operation_transaction operation_writes split: prod.split)

end
