(* ===== verification/Usb_Discover.thy ===== *)
theory Usb_Discover
  imports Usb_Device
begin

text \<open>
  Finding the devices with an MTP interface, \<open>crates/usb-freebsd/src/discover.rs\<close>: the look at
  one device, the search with its selector, and the two readers of a device name. The names the
  program prints read back as the device they name, and a search leaves open only the device
  it gives.
\<close>

section \<open>The names of a device\<close>

fun decimal :: "nat \<Rightarrow> ustring" where
  "decimal n = (if n < 10 then [48 + n] else decimal (n div 10) @ [48 + n mod 10])"

declare decimal.simps [simp del]

definition hex_digit :: "nat \<Rightarrow> nat" where
  "hex_digit k = (if k < 10 then 48 + k else 87 + k)"

definition hex4 :: "u16 \<Rightarrow> ustring" where
  "hex4 w = (let n = unat w in
     map hex_digit [n div 4096, n div 256 mod 16, n div 16 mod 16, n mod 16])"

type_synonym node = "u8 \<times> u8"

datatype selector = Node node | Ids u16 u16

definition parse_u8 :: "ustring \<Rightarrow> u8 option" where
  "parse_u8 s = map_option word_of_nat (from_str_radix 10 255 s)"

definition parse_hex_u16 :: "ustring \<Rightarrow> u16 option" where
  "parse_hex_u16 s = map_option word_of_nat (from_str_radix 16 65535 s)"

text \<open>\<open>trim_start_matches("0x")\<close>\<close>

fun trim_0x :: "ustring \<Rightarrow> ustring" where
  "trim_0x (a # b # s) = (if a = 48 \<and> b = 120 then trim_0x s else a # b # s)"
| "trim_0x s = s"

definition parse_node :: "ustring \<Rightarrow> node option" where
  "parse_node s =
     (let s = (case strip_prefix (lit ''/dev/'') s of Some r \<Rightarrow> r | None \<Rightarrow> s) in
      Option.bind (strip_prefix (lit ''ugen'') s) (\<lambda>s.
      Option.bind (split_once 46 s) (\<lambda>(bus, addr).
      Option.bind (parse_u8 bus) (\<lambda>b.
      Option.bind (parse_u8 addr) (\<lambda>a. Some (b, a))))))"

definition parse_selector :: "ustring \<Rightarrow> selector option" where
  "parse_selector s =
     (case split_once 58 s of
        Some (v, p) \<Rightarrow>
          Option.bind (parse_hex_u16 (trim_0x v)) (\<lambda>vendor.
          Option.bind (parse_hex_u16 (trim_0x p)) (\<lambda>product.
          Some (Ids vendor product)))
      | None \<Rightarrow> map_option Node (parse_node s))"

definition node_name :: "u8 \<Rightarrow> u8 \<Rightarrow> ustring" where
  "node_name bus address = lit ''ugen'' @ decimal (unat bus) @ [46] @ decimal (unat address)"

section \<open>The look at one device\<close>

record found =
  fd_device :: pointer
  fd_iface :: mtp_interface
  fd_config :: config_descriptor
  fd_bus :: u8
  fd_address :: u8
  fd_vendor_id :: u16
  fd_product_id :: u16

definition found_node :: "found \<Rightarrow> ustring" where
  "found_node f = node_name (fd_bus f) (fd_address f)"

definition found_name :: "'d libusb20 \<Rightarrow> found \<Rightarrow> 'd \<Rightarrow> ustring \<times> 'd" where
  "found_name L f d =
     (case string_descriptor L (fd_device f) 1 d of (maker, d1) \<Rightarrow>
      case string_descriptor L (fd_device f) 2 d1 of (model, d2) \<Rightarrow>
        (trim (case_option [] id maker @ [32] @ case_option [] id model), d2))"

fun read_names ::
    "'d libusb20 \<Rightarrow> pointer \<Rightarrow> interface list \<Rightarrow> 'd \<Rightarrow> (u8 \<times> ustring option) list \<times> 'd" where
  "read_names L dev [] d = ([], d)"
| "read_names L dev (i # is) d =
     (case string_descriptor L dev (if_string_index i) d of (name, d1) \<Rightarrow>
      case read_names L dev is d1 of (names, d2) \<Rightarrow> ((if_string_index i, name) # names, d2))"

definition name_from :: "(u8 \<times> ustring option) list \<Rightarrow> unit naming" where
  "name_from names idx u = (Option.bind (map_of names idx) id, u)"

definition inspect :: "'d libusb20 \<Rightarrow> pointer \<Rightarrow> duration \<Rightarrow> 'd \<Rightarrow> found option \<times> 'd" where
  "inspect L handle timeout d =
     (case ids L handle d of (vendor_id, product_id) \<Rightarrow>
      let bus = lib_dev_get_bus_number L handle d;
          address = lib_dev_get_address L handle d
      in case open_device L handle 4 d of
        (Inl e, d1) \<Rightarrow> (None, d1)
      | (Inr device, d1) \<Rightarrow>
        (case config_descriptor_raw L device timeout d1 of
           (Inl e, d2) \<Rightarrow> (None, drop_open_device L device d2)
         | (Inr raw, d2) \<Rightarrow>
           (case config_parse raw of
              Inl e \<Rightarrow> (None, drop_open_device L device d2)
            | Inr config \<Rightarrow>
              (case read_names L device (filter is_vendor_mtp_candidate (cd_interfaces config)) d2 of
                (names, d3) \<Rightarrow>
                  (case fst (find_with_names config (name_from names) ()) of
                     Inl e \<Rightarrow> (None, drop_open_device L device d3)
                   | Inr iface \<Rightarrow>
                       (Some \<lparr>fd_device = device, fd_iface = iface, fd_config = config,
                              fd_bus = bus, fd_address = address,
                              fd_vendor_id = vendor_id, fd_product_id = product_id\<rparr>, d3))))))"

section \<open>The searches\<close>

fun selector_matches :: "'d libusb20 \<Rightarrow> selector \<Rightarrow> pointer \<Rightarrow> 'd \<Rightarrow> bool" where
  "selector_matches L (Node (bus, address)) handle d \<longleftrightarrow>
     lib_dev_get_bus_number L handle d = bus \<and> lib_dev_get_address L handle d = address"
| "selector_matches L (Ids vendor product) handle d \<longleftrightarrow> ids L handle d = (vendor, product)"

fun list_in :: "'d libusb20 \<Rightarrow> duration \<Rightarrow> pointer list \<Rightarrow> 'd \<Rightarrow> found list \<times> 'd" where
  "list_in L timeout [] d = ([], d)"
| "list_in L timeout (h # hs) d =
     (case inspect L h timeout d of (r, d1) \<Rightarrow>
      case list_in L timeout hs d1 of (fs, d2) \<Rightarrow>
        (case r of None \<Rightarrow> fs | Some f \<Rightarrow> f # fs, d2))"

definition list_devices :: "'d libusb20 \<Rightarrow> pointer \<Rightarrow> duration \<Rightarrow> 'd \<Rightarrow> found list \<times> 'd" where
  "list_devices L be timeout d =
     (case devices L be d of (hs, d1) \<Rightarrow> list_in L timeout hs d1)"

fun find_in ::
    "'d libusb20 \<Rightarrow> selector option \<Rightarrow> duration \<Rightarrow> pointer list \<Rightarrow> 'd \<Rightarrow> found option \<times> 'd" where
  "find_in L want timeout [] d = (None, d)"
| "find_in L want timeout (h # hs) d =
     (if (case want of Some sel \<Rightarrow> \<not> selector_matches L sel h d | None \<Rightarrow> False)
      then find_in L want timeout hs d
      else case inspect L h timeout d of
          (Some f, d1) \<Rightarrow> (Some f, d1)
        | (None, d1) \<Rightarrow> find_in L want timeout hs d1)"

definition find_device ::
    "'d libusb20 \<Rightarrow> pointer \<Rightarrow> selector option \<Rightarrow> duration \<Rightarrow> 'd \<Rightarrow> found option \<times> 'd" where
  "find_device L be want timeout d =
     (case devices L be d of (hs, d1) \<Rightarrow> find_in L want timeout hs d1)"

definition any_device :: "'d libusb20 \<Rightarrow> pointer \<Rightarrow> duration \<Rightarrow> 'd \<Rightarrow> bool \<times> 'd" where
  "any_device L be timeout d =
     (case find_device L be None timeout d of
        (None, d1) \<Rightarrow> (False, d1)
      | (Some f, d1) \<Rightarrow> (True, drop_open_device L (fd_device f) d1))"

fun android_in ::
    "'d libusb20 \<Rightarrow> duration \<Rightarrow> pointer list \<Rightarrow> 'd \<Rightarrow> (u8 \<times> u8 \<times> u16 \<times> u16) list \<times> 'd" where
  "android_in L timeout [] d = ([], d)"
| "android_in L timeout (h # hs) d =
     (case ids L h d of (vid, pid) \<Rightarrow>
      let bus = lib_dev_get_bus_number L h d; address = lib_dev_get_address L h d in
      case open_device L h 4 d of
        (Inl e, d1) \<Rightarrow> android_in L timeout hs d1
      | (Inr device, d1) \<Rightarrow>
        (case config_descriptor_raw L device timeout d1 of
           (Inl e, d2) \<Rightarrow> android_in L timeout hs (drop_open_device L device d2)
         | (Inr raw, d2) \<Rightarrow>
           (case config_parse raw of
              Inl e \<Rightarrow> android_in L timeout hs (drop_open_device L device d2)
            | Inr config \<Rightarrow>
              (case android_in L timeout hs (drop_open_device L device d2) of (out, d3) \<Rightarrow>
                 (if list_ex is_adb (cd_interfaces config) \<and> \<not> list_ex is_mtp (cd_interfaces config)
                  then (bus, address, vid, pid) # out else out, d3)))))"

definition android_without_mtp ::
    "'d libusb20 \<Rightarrow> pointer \<Rightarrow> duration \<Rightarrow> 'd \<Rightarrow> (u8 \<times> u8 \<times> u16 \<times> u16) list \<times> 'd" where
  "android_without_mtp L be timeout d =
     (case devices L be d of (hs, d1) \<Rightarrow> android_in L timeout hs d1)"

section \<open>A printed name reads back\<close>

lemma decimal_shape: "decimal n \<noteq> [] \<and> (\<forall>c\<in>set (decimal n). 48 \<le> c \<and> c \<le> 57)"
proof (induction n rule: decimal.induct)
  case (1 n)
  then show ?case by (cases "n < 10") (auto simp: decimal.simps [of n])
qed

lemma read_digits_append:
  "read_digits r m acc (xs @ ys) =
     (case read_digits r m acc xs of None \<Rightarrow> None | Some k \<Rightarrow> read_digits r m k ys)"
  by (induction xs arbitrary: acc) (auto split: option.splits)

lemma read_digits_decimal: "n \<le> m \<Longrightarrow> read_digits 10 m 0 (decimal n) = Some n"
proof (induction n rule: decimal.induct)
  case (1 n)
  show ?case
  proof (cases "n < 10")
    case True
    then show ?thesis
      using 1 by (simp add: decimal.simps [of n] to_digit_def)
  next
    case False
    then have "read_digits 10 m 0 (decimal (n div 10)) = Some (n div 10)"
      using 1 by simp
    then show ?thesis
      using False 1(2) by (simp add: decimal.simps [of n] read_digits_append to_digit_def)
  qed
qed

lemma from_str_radix_decimal: "n \<le> m \<Longrightarrow> from_str_radix 10 m (decimal n) = Some n"
  using decimal_shape [of n]
  by (cases "decimal n") (auto simp: from_str_radix_def simp flip: read_digits_decimal)

lemma parse_u8_decimal: "parse_u8 (decimal (unat w)) = Some w"
  using unat_u8_bound [of w] by (simp add: parse_u8_def from_str_radix_decimal del: unat_u8_bound)

lemma to_digit_hex: "k < 16 \<Longrightarrow> to_digit 16 (hex_digit k) = Some k"
  by (auto simp: to_digit_def hex_digit_def)

lemma hex_digit_plain: "k < 16 \<Longrightarrow> hex_digit k \<noteq> 43 \<and> hex_digit k \<noteq> 120 \<and> hex_digit k \<noteq> 58"
  by (auto simp: hex_digit_def)

lemma hex4_list:
  "\<exists>a b c d. hex4 w = map hex_digit [a, b, c, d] \<and> a < 16 \<and> b < 16 \<and> c < 16 \<and> d < 16
     \<and> unat w = ((a * 16 + b) * 16 + c) * 16 + d"
proof -
  let ?n = "unat w"
  have split16: "k = k div 16 * 16 + k mod 16" for k :: nat by simp
  have join: "n = ((q3 * 16 + r2) * 16 + r1) * 16 + r0"
    if "n = q1 * 16 + r0" "q1 = q2 * 16 + r1" "q2 = q3 * 16 + r2" for n q1 q2 q3 r0 r1 r2 :: nat
    using that by simp
  have q: "?n div 256 = ?n div 16 div 16" "?n div 4096 = ?n div 16 div 16 div 16"
    by (simp_all add: div_mult2_eq [symmetric])
  have "?n < 16 * 4096" by simp
  then have "?n div 4096 < 16" by (rule less_mult_imp_div_less)
  moreover have "?n = ((?n div 4096 * 16 + ?n div 256 mod 16) * 16 + ?n div 16 mod 16) * 16 + ?n mod 16"
    unfolding q
    by (rule join [OF split16 split16 split16])
  ultimately show ?thesis
    unfolding hex4_def Let_def by (intro exI conjI) (rule refl, simp_all)
qed

lemma parse_hex4: "parse_hex_u16 (trim_0x (hex4 w)) = Some w" "58 \<notin> set (hex4 w)"
proof -
  obtain a b c d where h: "hex4 w = map hex_digit [a, b, c, d]"
      and lt: "a < 16" "b < 16" "c < 16" "d < 16"
      and n: "unat w = ((a * 16 + b) * 16 + c) * 16 + d"
    using hex4_list by blast
  have bound: "((a * 16 + b) * 16 + c) * 16 + d \<le> 65535"
    using unat_u16_bound [of w] by (simp add: n del: unat_u16_bound)
  then have "read_digits 16 65535 0 (hex4 w) = Some (unat w)"
    by (simp add: h n lt to_digit_hex)
  moreover have "trim_0x (hex4 w) = hex4 w" using hex_digit_plain [OF lt(2)] by (simp add: h)
  ultimately show "parse_hex_u16 (trim_0x (hex4 w)) = Some w"
    using hex_digit_plain [OF lt(1)] by (simp add: parse_hex_u16_def from_str_radix_def h)
  show "58 \<notin> set (hex4 w)"
    using hex_digit_plain lt by (auto simp: h)
qed

lemma parse_node_name: "parse_node (node_name b a) = Some (b, a)"
proof -
  have "strip_prefix (lit ''/dev/'') (node_name b a) = None"
    by (simp add: node_name_def lit_def)
  moreover have "46 \<notin> set (decimal (unat b))" using decimal_shape by fastforce
  then have "split_once 46 (decimal (unat b) @ [46] @ decimal (unat a))
      = Some (decimal (unat b), decimal (unat a))"
    by (simp add: split_once_append)
  ultimately show ?thesis
    by (simp add: parse_node_def node_name_def parse_u8_decimal)
qed

lemma parse_selector_ids: "parse_selector (hex4 v @ [58] @ hex4 p) = Some (Ids v p)"
  using parse_hex4 by (simp add: parse_selector_def split_once_append)

lemma parse_selector_node: "parse_selector (node_name b a) = Some (Node (b, a))"
proof -
  have "58 \<notin> set (node_name b a)"
    using decimal_shape [of "unat b"] decimal_shape [of "unat a"]
    by (fastforce simp: node_name_def lit_def)
  then show ?thesis
    by (simp add: parse_selector_def split_once_None [THEN iffD2] parse_node_name)
qed

section \<open>What a search leaves open\<close>

text \<open>
  \<open>opened\<close> tells which devices are open: opening adds one, closing takes it away, and no
  request changes it.
\<close>

definition tracks_open :: "'d libusb20 \<Rightarrow> ('d \<Rightarrow> pointer set) \<Rightarrow> bool" where
  "tracks_open L opened \<longleftrightarrow>
     (\<forall>dev slots d. opened (snd (lib_dev_open L dev slots d)) =
        (if fst (lib_dev_open L dev slots d) = 0 then insert dev (opened d) else opened d))
   \<and> (\<forall>dev d. opened (lib_dev_close L dev d) = opened d - {dev})
   \<and> (\<forall>dev request_setup data ms d. opened (snd (lib_dev_request_sync L dev request_setup data ms d)) = opened d)
   \<and> (\<forall>dev k buf n d. opened (snd (lib_dev_req_string_simple_sync L dev k buf n d)) = opened d)
   \<and> (\<forall>be cur d. opened (snd (lib_be_device_foreach L be cur d)) = opened d)"

lemma tracks_openD:
  assumes "tracks_open L opened"
  shows "lib_dev_open L dev slots d = (rc, d') \<Longrightarrow>
      opened d' = (if rc = 0 then insert dev (opened d) else opened d)"
    and "opened (lib_dev_close L dev d) = opened d - {dev}"
    and "lib_dev_request_sync L dev request_setup data ms d = (x, d') \<Longrightarrow> opened d' = opened d"
    and "lib_dev_req_string_simple_sync L dev k buf n d = (y, d') \<Longrightarrow> opened d' = opened d"
    and "lib_be_device_foreach L be cur d = (z, d') \<Longrightarrow> opened d' = opened d"
  using assms unfolding tracks_open_def by (metis fst_conv snd_conv)+

lemma opened_request:
  assumes tr: "tracks_open L opened"
    and run: "control_request L dev ty rq v i cap t d = (r, d')"
  shows "opened d' = opened d"
proof (cases "timeout_millis t")
  case (Inl e)
  then show ?thesis using run by (simp add: control_request_def and_then_def)
next
  case (Inr ms)
  let ?request_setup = "\<lparr>bmRequestType = ty, bRequest = rq, wValue = v, wIndex = i, wLength = word_of_nat cap\<rparr>"
  obtain x d1 where
    r: "lib_dev_request_sync L dev ?request_setup (if cap = 0 then None else Some (replicate cap 0)) ms d = (x, d1)"
    by fastforce
  have "d' = d1"
    using run Inr r by (cases x) (auto simp: control_request_def and_then_def Let_def split: if_splits)
  then show ?thesis using tracks_openD(3) [OF tr r] by simp
qed

lemma opened_string:
  assumes tr: "tracks_open L opened" and run: "string_descriptor L dev k d = (r, d')"
  shows "opened d' = opened d"
proof (cases "k = 0")
  case True
  then show ?thesis using run by (simp add: string_descriptor_def)
next
  case False
  obtain x d1 where r: "lib_dev_req_string_simple_sync L dev k (replicate 256 0) 256 d = (x, d1)"
    by fastforce
  have "d' = d1"
    using run False r by (cases x) (auto simp: string_descriptor_def split: if_splits option.splits)
  then show ?thesis using tracks_openD(4) [OF tr r] by simp
qed

lemma opened_names:
  "tracks_open L opened \<Longrightarrow> read_names L dev is d = (r, d') \<Longrightarrow> opened d' = opened d"
proof (induction "is" arbitrary: d r d')
  case (Cons i "is")
  obtain x d1 where x: "string_descriptor L dev (if_string_index i) d = (x, d1)" by fastforce
  obtain y d2 where y: "read_names L dev is d1 = (y, d2)" by fastforce
  have "opened d2 = opened d" using opened_string [OF _ x] Cons.IH [OF _ y] Cons.prems(1) by simp
  then show ?case using Cons.prems(2) x y by simp
qed simp

lemma opened_open:
  assumes "tracks_open L opened" and "open_device L dev n d = (r, d')"
  shows "(\<exists>e. r = Inl e) \<and> opened d' = opened d \<or> r = Inr dev \<and> opened d' = insert dev (opened d)"
proof -
  obtain rc d1 where "lib_dev_open L dev n d = (rc, d1)" by fastforce
  then show ?thesis
    using assms(2) tracks_openD(1) [OF assms(1)] by (fastforce simp: open_device_def split: if_splits)
qed

lemma opened_drop:
  "tracks_open L opened \<Longrightarrow> opened (drop_open_device L dev d) = opened d - {dev}"
  by (simp add: tracks_openD(2) drop_open_device_def)

lemma opened_inspect:
  assumes tr: "tracks_open L opened" and new: "dev \<notin> opened d"
    and run: "inspect L dev t d = (r, d')"
  shows "r = None \<and> opened d' = opened d
    \<or> (\<exists>f. r = Some f \<and> fd_device f = dev \<and> opened d' = insert dev (opened d))"
proof -
  obtain o1 d1 where o1: "open_device L dev 4 d = (o1, d1)" by fastforce
  show ?thesis
  proof (cases o1)
    case (Inl e)
    then show ?thesis using run o1 opened_open [OF tr o1] by (auto simp: inspect_def split: prod.splits)
  next
    case (Inr dv)
    then have dv: "dv = dev" and d1: "opened d1 = insert dev (opened d)"
      using opened_open [OF tr o1] by auto
    obtain o2 d2 where o2: "config_descriptor_raw L dev t d1 = (o2, d2)" by fastforce
    have d2: "opened d2 = insert dev (opened d)"
      using opened_request [OF tr o2 [unfolded config_descriptor_raw_def]] d1 by simp
    obtain raw cfg where good: "o2 = Inr raw \<and> config_parse raw = Inr cfg
        \<or> r = None \<and> opened d' = opened d"
      using run o1 Inr dv o2 new d2 opened_drop [OF tr, of dev d2]
      by (auto simp: inspect_def split: prod.splits sum.splits)
    obtain names d3 where
      o3: "read_names L dev (filter is_vendor_mtp_candidate (cd_interfaces cfg)) d2 = (names, d3)"
      by fastforce
    have d3: "opened d3 = insert dev (opened d)" using opened_names [OF tr o3] d2 by simp
    show ?thesis
      using good run o1 Inr dv o2 o3 new d3 opened_drop [OF tr, of dev d3]
      by (auto simp: inspect_def split: prod.splits sum.splits)
  qed
qed

lemma opened_find_in:
  assumes tr: "tracks_open L opened"
  shows "set hs \<inter> opened d = {} \<Longrightarrow> find_in L want t hs d = (r, d') \<Longrightarrow>
    r = None \<and> opened d' = opened d
    \<or> (\<exists>f. r = Some f \<and> fd_device f \<in> set hs \<and> opened d' = insert (fd_device f) (opened d))"
proof (induction hs arbitrary: d)
  case Nil
  then show ?case by simp
next
  case (Cons h hs)
  obtain x d1 where x: "inspect L h t d = (x, d1)" by fastforce
  have step: "x = None \<and> opened d1 = opened d
      \<or> (\<exists>f. x = Some f \<and> fd_device f = h \<and> opened d1 = insert h (opened d))"
    using opened_inspect [OF tr _ x] Cons.prems(1) by simp
  show ?case
  proof (cases "case want of Some sel \<Rightarrow> \<not> selector_matches L sel h d | None \<Rightarrow> False")
    case True
    then have "find_in L want t hs d = (r, d')" using Cons.prems(2) by simp
    then show ?thesis using Cons.IH [of d] Cons.prems(1) by auto
  next
    case False
    show ?thesis
    proof (cases x)
      case None
      then have "find_in L want t hs d1 = (r, d')" using Cons.prems(2) x False by simp
      then show ?thesis using Cons.IH [of d1] Cons.prems(1) step None by auto
    next
      case (Some f)
      then show ?thesis using Cons.prems(2) x False step by auto
    qed
  qed
qed

lemma opened_devices_from:
  "tracks_open L opened \<Longrightarrow> devices_from L be n cur d = (hs, d') \<Longrightarrow> opened d' = opened d"
proof (induction n arbitrary: cur d hs d')
  case (Suc n)
  obtain x d1 where x: "lib_be_device_foreach L be cur d = (x, d1)" by fastforce
  have d1: "opened d1 = opened d" using tracks_openD(5) [OF Suc.prems(1) x] .
  show ?case
  proof (cases x)
    case None
    then show ?thesis using Suc.prems(2) x d1 by simp
  next
    case (Some dev)
    obtain y d2 where y: "devices_from L be n (Some dev) d1 = (y, d2)" by fastforce
    then show ?thesis using Suc.IH [OF Suc.prems(1) y] Suc.prems(2) x Some d1 by simp
  qed
qed simp

lemma find_device_opened:
  assumes tr: "tracks_open L opened" and none: "opened d = {}"
    and run: "find_device L be want t d = (r, d')"
  shows "opened d' = (case r of None \<Rightarrow> {} | Some f \<Rightarrow> {fd_device f})"
proof -
  obtain hs d1 where hs: "devices L be d = (hs, d1)" by fastforce
  have "opened d1 = {}" using opened_devices_from [OF tr hs [unfolded devices_def]] none by simp
  then show ?thesis
    using opened_find_in [OF tr, of hs d1 want t r d'] run hs by (auto simp: find_device_def)
qed

section \<open>A named device is the device given\<close>

lemma inspect_identity:
  "inspect L h t d = (Some f, d') \<Longrightarrow>
     fd_bus f = lib_dev_get_bus_number L h d \<and> fd_address f = lib_dev_get_address L h d
     \<and> (fd_vendor_id f, fd_product_id f) = ids L h d"
  by (auto simp: inspect_def Let_def split: prod.splits sum.splits)

fun names_device :: "selector \<Rightarrow> found \<Rightarrow> bool" where
  "names_device (Node (b, a)) f \<longleftrightarrow> fd_bus f = b \<and> fd_address f = a"
| "names_device (Ids v p) f \<longleftrightarrow> fd_vendor_id f = v \<and> fd_product_id f = p"

lemma find_in_selected:
  "find_in L (Some sel) t hs d = (Some f, d') \<Longrightarrow> names_device sel f"
proof (induction hs arbitrary: d)
  case (Cons h hs)
  obtain x d1 where x: "inspect L h t d = (x, d1)" by fastforce
  show ?case
  proof (cases "selector_matches L sel h d")
    case False
    then show ?thesis using Cons by simp
  next
    case True
    show ?thesis
    proof (cases x)
      case None
      then show ?thesis using Cons x True by simp
    next
      case (Some g)
      then have "g = f" using Cons.prems x True by simp
      moreover have "names_device sel g"
        using inspect_identity [of L h t d g d1] True x Some
        by (cases sel) (auto split: prod.splits)
      ultimately show ?thesis by simp
    qed
  qed
qed simp

lemma find_device_selected:
  "find_device L be (Some sel) t d = (Some f, d') \<Longrightarrow> names_device sel f"
  by (auto simp: find_device_def find_in_selected split: prod.splits)

section \<open>Who owns the transfers\<close>

text \<open>
  The same for transfers: \<open>xfers\<close> tells which are open. Opening one adds it, closing one takes it
  away, and neither touches a device; closing a device leaves the transfers to their owner.
\<close>

definition tracks_transfers ::
    "'d libusb20 \<Rightarrow> ('d \<Rightarrow> pointer set) \<Rightarrow> ('d \<Rightarrow> pointer set) \<Rightarrow> bool" where
  "tracks_transfers L opened xfers \<longleftrightarrow>
     (\<forall>x n k e d. xfers (snd (lib_tr_open L x n k e d)) =
        (if fst (lib_tr_open L x n k e d) = 0 then insert x (xfers d) else xfers d)
        \<and> opened (snd (lib_tr_open L x n k e d)) = opened d)
   \<and> (\<forall>x d. xfers (lib_tr_close L x d) = xfers d - {x} \<and> opened (lib_tr_close L x d) = opened d)
   \<and> (\<forall>x d. xfers (lib_tr_drain L x d) = xfers d \<and> opened (lib_tr_drain L x d) = opened d)
   \<and> (\<forall>dev d. xfers (lib_dev_close L dev d) = xfers d \<and> opened (lib_dev_close L dev d) = opened d - {dev})"

lemma open_transfer_tracks:
  assumes "tracks_transfers L opened xfers" and "open_transfer L x e n d = (r, d')"
  shows "opened d' = opened d
    \<and> (case r of Inl x \<Rightarrow> xfers d' = xfers d | Inr c \<Rightarrow> xfers d' = insert (bc_xfer c) (xfers d))"
proof (cases x)
  case None
  then show ?thesis using assms(2) by (auto simp: open_transfer_def)
next
  case (Some y)
  obtain rc d1 where run: "lib_tr_open L y n 1 e d = (rc, d1)" by fastforce
  have "xfers (snd (lib_tr_open L y n 1 e d)) =
      (if fst (lib_tr_open L y n 1 e d) = 0 then insert y (xfers d) else xfers d)
      \<and> opened (snd (lib_tr_open L y n 1 e d)) = opened d"
    using assms(1) by (simp add: tracks_transfers_def)
  then show ?thesis using assms(2) Some run by (auto simp: open_transfer_def split: if_splits)
qed

lemma drop_bulk_tracks:
  assumes "tracks_transfers L opened xfers"
  shows "xfers (drop_bulk_channel L c d) = xfers d - {bc_xfer c}"
    and "opened (drop_bulk_channel L c d) = opened d"
    and "xfers (drop_open_device L dev d) = xfers d"
    and "opened (drop_open_device L dev d) = opened d - {dev}"
  using assms by (simp_all add: tracks_transfers_def drop_bulk_channel_def drop_open_device_def)

section \<open>A bus for the examples\<close>

text \<open>
  A bus with one device, at the address 11, which holds a still imaging interface. The state is
  the set of open devices and the set of open transfers.
\<close>

definition sample_config :: bytes where
  "sample_config = config_bytes 1 1 [0, 0, 0]
     [DInterface \<lparr>if_number = 0, if_alternate_setting = 0, if_class = 6, if_subclass = 1,
        if_protocol = 1, if_string_index = 0, if_endpoints = []\<rparr> 2 [],
      DEndpoint \<lparr>ep_address = 0x81, ep_transfer_type = 2, ep_max_packet_size = 512\<rparr> 2 0 [],
      DEndpoint \<lparr>ep_address = 0x01, ep_transfer_type = 2, ep_max_packet_size = 512\<rparr> 2 0 []]"

definition sample_bus :: "(pointer set \<times> pointer set) libusb20" where
  "sample_bus =
     \<lparr>lib_be_alloc_default = (\<lambda>d. (Some 0, d)),
      lib_be_device_foreach = (\<lambda>be cur d. (if cur = None then Some 2 else None, d)),
      lib_be_free = (\<lambda>be d. d),
      lib_dev_get_bus_number = (\<lambda>dev d. 0),
      lib_dev_get_address = (\<lambda>dev d. 11),
      lib_dev_get_speed = (\<lambda>dev d. 3),
      lib_dev_get_device_desc = (\<lambda>dev d. Some (0x04e8, 0x6860)),
      lib_dev_open = (\<lambda>dev slots d. (0, (insert dev (fst d), snd d))),
      lib_dev_close = (\<lambda>dev d. (fst d - {dev}, snd d)),
      lib_dev_request_sync = (\<lambda>dev s data ms d. ((0, sample_config, word_of_nat (length sample_config)), d)),
      lib_dev_req_string_simple_sync = (\<lambda>dev k buf n d. ((- 1, buf), d)),
      lib_dev_kernel_driver_active = (\<lambda>dev i d. (1, d)),
      lib_dev_detach_kernel_driver = (\<lambda>dev i d. (0, d)),
      lib_dev_reset = (\<lambda>dev d. (0, d)),
      lib_tr_get_pointer = (\<lambda>dev i d. Some (unat i + 10)),
      lib_tr_open = (\<lambda>x n k e d. if e = 0x99 then (- 1, d) else (0, (fst d, insert x (snd d)))),
      lib_tr_bulk_intr_sync = (\<lambda>x buf n ms d. ((0, buf, 0), d)),
      lib_tr_clear_stall_sync = (\<lambda>x d. d),
      lib_tr_drain = (\<lambda>x d. d),
      lib_tr_close = (\<lambda>x d. (fst d, snd d - {x}))\<rparr>"

lemma sample_bus_tracks: "tracks_open sample_bus fst" "tracks_transfers sample_bus fst snd"
  by (simp_all add: tracks_open_def tracks_transfers_def sample_bus_def)

definition sample_found :: found where
  "sample_found =
     \<lparr>fd_device = 2,
      fd_iface = \<lparr>mi_interface_number = 0, mi_alternate_setting = 0, mi_class = 6, mi_subclass = 1,
        mi_protocol = 1, mi_bulk_in = 0x81, mi_bulk_out = 1, mi_interrupt_in = None, mi_max_packet_size = 512\<rparr>,
      fd_config = \<lparr>cd_total_length = 32, cd_num_interfaces = 1, cd_configuration_value = 1,
        cd_interfaces = [\<lparr>if_number = 0, if_alternate_setting = 0, if_class = 6, if_subclass = 1,
          if_protocol = 1, if_string_index = 0,
          if_endpoints = [\<lparr>ep_address = 0x81, ep_transfer_type = 2, ep_max_packet_size = 512\<rparr>,
            \<lparr>ep_address = 0x01, ep_transfer_type = 2, ep_max_packet_size = 512\<rparr>]\<rparr>]\<rparr>,
      fd_bus = 0, fd_address = 11, fd_vendor_id = 0x04e8, fd_product_id = 0x6860\<rparr>"

lemma sample_config_parse: "config_parse sample_config = Inr (fd_config sample_found)"
  "length sample_config = 32"
  by code_simp+

lemma sample_timeout: "timeout_millis 5000000000 = Inr 5000"
  by (simp add: timeout_millis_def as_millis_def u32_max_def)

lemma inspect_sample:
  "inspect sample_bus 2 5000000000 (A, X) = (Some sample_found, (insert 2 A, X))"
proof -
  have raw: "config_descriptor_raw sample_bus 2 5000000000 d = (Inr sample_config, d)" for d
    by (simp add: config_descriptor_raw_def control_request_def and_then_def sample_timeout
        sample_bus_def sample_config_parse CONFIG_DESCRIPTOR_MAX_def)
  have o: "open_device sample_bus 2 4 (A, X) = (Inr 2, (insert 2 A, X))"
    by (simp add: open_device_def sample_bus_def)
  have f: "filter is_vendor_mtp_candidate (cd_interfaces (fd_config sample_found)) = []"
    and w: "fst (find_with_names (fd_config sample_found) (name_from []) ()) = Inr (fd_iface sample_found)"
    by code_simp+
  have "lib_dev_get_bus_number sample_bus 2 (A, X) = 0" "lib_dev_get_address sample_bus 2 (A, X) = 11"
    "ids sample_bus 2 (A, X) = (0x04e8, 0x6860)"
    by (simp_all add: sample_bus_def ids_def)
  then have "inspect sample_bus 2 5000000000 (A, X) =
      (Some \<lparr>fd_device = 2, fd_iface = fd_iface sample_found, fd_config = fd_config sample_found,
         fd_bus = 0, fd_address = 11, fd_vendor_id = 0x04e8, fd_product_id = 0x6860\<rparr>, (insert 2 A, X))"
    by (simp add: inspect_def o raw sample_config_parse(1) f w Let_def)
  then show ?thesis by (simp add: sample_found_def)
qed

lemma find_sample: "find_device sample_bus 0 (Some (Ids 0x04e8 0x6860)) 5000000000 ({}, {}) = (Some sample_found, ({2}, {}))"
proof -
  have "devices_from sample_bus 0 (Suc (Suc n)) None d = ([2], d)" for n d
    by (simp add: sample_bus_def)
  from this [of 1022] have "devices sample_bus 0 d = ([2], d)" for d
    by (simp add: devices_def MAX_DEVICES_def numeral_eq_Suc)
  moreover have "ids sample_bus 2 d = (0x04e8, 0x6860)" for d by (simp add: ids_def sample_bus_def)
  ultimately show ?thesis by (simp add: find_device_def inspect_sample)
qed

section \<open>Properties\<close>

text \<open>
  The names \<open>mtpfs -l\<close> prints select the device they were printed for: a node name gives the
  bus and the address, and a pair of identifiers gives the vendor and the product.
\<close>

theorem parse_selector_printed:
  "parse_selector (node_name bus address) = Some (Node (bus, address))
     \<and> parse_node (lit ''/dev/'' @ node_name bus address) = Some (bus, address)
     \<and> parse_selector (hex4 vendor @ [58] @ hex4 product) = Some (Ids vendor product)"
proof -
  have "strip_prefix (lit ''/dev/'') (node_name bus address) = None"
    by (simp add: node_name_def lit_def)
  then have "parse_node (lit ''/dev/'' @ node_name bus address) = parse_node (node_name bus address)"
    by (simp add: parse_node_def)
  then show ?thesis using parse_selector_node parse_selector_ids parse_node_name by simp
qed

text \<open>
  C28: a search for a device closes every device it opened and did not choose, keeps the chosen
  one open, and gives a caller that names a device that device and no other.
\<close>

theorem find_device_owns:
  assumes "tracks_open L opened" and "opened d = {}" and "find_device L be want t d = (r, d')"
  shows "opened d' = (case r of None \<Rightarrow> {} | Some f \<Rightarrow> {fd_device f})
    \<and> (\<forall>f sel. r = Some f \<longrightarrow> want = Some sel \<longrightarrow> names_device sel f)"
  using find_device_opened [OF assms] find_device_selected [of L be _ t d _ d'] assms(3) by auto

lemma find_device_owns_witness:
  "find_device sample_bus 0 (Some (Ids 0x04e8 0x6860)) 5000000000 ({}, {}) = (Some sample_found, ({2}, {}))
    \<and> fst ({2} :: pointer set, {} :: pointer set) = {fd_device sample_found}
    \<and> names_device (Ids 0x04e8 0x6860) sample_found"
  using find_device_owns [OF sample_bus_tracks(1) _ find_sample] find_sample by simp

text \<open>
  Turning an open device into the device a session uses either fails and releases the device
  and every transfer it opened on the way, or gives a device that owns both transfers, and
  dropping that one releases the transfers and then the device.
\<close>

theorem into_mtp_owns:
  assumes tr: "tracks_transfers L opened xfers" and none: "xfers d = {}"
    and run: "into_mtp L dev iface n d = (r, d')"
  shows "case r of
      Inl e \<Rightarrow> xfers d' = {} \<and> opened d' = opened d - {dev}
    | Inr m \<Rightarrow> xfers d' = {bc_xfer (md_write m), bc_xfer (md_read m)} \<and> opened d' = opened d
        \<and> xfers (drop_mtp_device L m d') = {} \<and> opened (drop_mtp_device L m d') = opened d - {dev}"
proof -
  note drop = drop_bulk_tracks [OF tr]
  obtain a d1 where a: "open_transfer L (lib_tr_get_pointer L dev 0 d) (mi_bulk_out iface) n d = (a, d1)"
    by fastforce
  note t1 = open_transfer_tracks [OF tr a]
  show ?thesis
  proof (cases a)
    case (Inl e)
    then show ?thesis using run a t1 none by (auto simp: into_mtp_def drop)
  next
    case (Inr w)
    obtain b d2 where b: "open_transfer L (lib_tr_get_pointer L dev 1 d1) (mi_bulk_in iface) n d1 = (b, d2)"
      by fastforce
    note t2 = open_transfer_tracks [OF tr b]
    show ?thesis
      using run a t1 b t2 none Inr
      by (cases b) (auto simp: into_mtp_def drop drop_mtp_device_def)
  qed
qed

lemma into_mtp_owns_witness:
  "snd (into_mtp sample_bus 2 (fd_iface sample_found\<lparr>mi_bulk_in := 0x99\<rparr>) 512 ({2}, {})) = ({}, {})"
proof -
  let ?i = "fd_iface sample_found\<lparr>mi_bulk_in := 0x99\<rparr>"
  obtain r d' where run: "into_mtp sample_bus 2 ?i 512 ({2}, {}) = (r, d')"
    by (cases "into_mtp sample_bus 2 ?i 512 ({2}, {})")
  moreover have "\<exists>e. r = Inl e"
    using run by (auto simp: into_mtp_def open_transfer_def sample_bus_def sample_found_def)
  ultimately show ?thesis
    using into_mtp_owns [OF sample_bus_tracks(2) _ run] by (auto simp: prod_eq_iff)
qed

end
