(* ===== verification/Mtpfs_Tree.thy ===== *)
theory Mtpfs_Tree
  imports Rust_Text
begin

text \<open>
  The map from a path to an object handle, \<open>crates/mtpfs/src/tree.rs\<close>: the listings the host
  read, the walk of a path through them, and the path of an object. The maps of the code are
  the partial functions \<open>tr_entries\<close> and \<open>tr_children\<close>, its set is \<open>tr_listed\<close>.
\<close>

definition TREE_ROOT :: u32 where "TREE_ROOT = 0"

record entry =
  en_handle :: u32
  en_parent :: u32
  en_name :: ustring
  en_is_dir :: bool
  en_size :: u64

datatype lookup = Found u32 | NeedListing u32 | NotFound

record tree =
  tr_entries :: "u32 \<Rightarrow> entry option"
  tr_children :: "u32 \<Rightarrow> u32 list option"
  tr_listed :: "u32 set"

definition tree_new :: tree where
  "tree_new = \<lparr>tr_entries = Map.empty, tr_children = Map.empty, tr_listed = {}\<rparr>"

definition is_listed :: "tree \<Rightarrow> u32 \<Rightarrow> bool" where
  "is_listed t parent \<longleftrightarrow> parent \<in> tr_listed t"

definition set_children :: "u32 \<Rightarrow> entry list \<Rightarrow> tree \<Rightarrow> tree" where
  "set_children parent entries t =
     (let t = fold (\<lambda>e t. t\<lparr>tr_entries := (tr_entries t)(en_handle e \<mapsto> e)\<rparr>) entries t
      in t\<lparr>tr_children := (tr_children t)(parent \<mapsto> map en_handle entries),
           tr_listed := insert parent (tr_listed t)\<rparr>)"

definition tree_get :: "tree \<Rightarrow> u32 \<Rightarrow> entry option" where
  "tree_get t handle = tr_entries t handle"

definition tree_children :: "tree \<Rightarrow> u32 \<Rightarrow> entry list option" where
  "tree_children t parent =
     (if parent \<notin> tr_listed t then None
      else map_option (List.map_filter (tr_entries t)) (tr_children t parent))"

definition children_named :: "tree \<Rightarrow> u32 \<Rightarrow> ustring \<Rightarrow> entry option" where
  "children_named t parent name =
     Option.bind (tr_children t parent) (\<lambda>handles.
       find (\<lambda>e. en_name e = name) (List.map_filter (tr_entries t) handles))"

definition split_path :: "ustring \<Rightarrow> ustring list" where
  "split_path path = filter (\<lambda>p. p \<noteq> [] \<and> p \<noteq> [46]) (split_on 47 path)"

fun lookup_from :: "tree \<Rightarrow> u32 \<Rightarrow> ustring list \<Rightarrow> lookup" where
  "lookup_from t current [] = Found current"
| "lookup_from t current (part # parts) =
     (if current \<notin> tr_listed t then NeedListing current
      else case children_named t current part of
          Some e \<Rightarrow> lookup_from t (en_handle e) parts
        | None \<Rightarrow> NotFound)"

definition lookup :: "tree \<Rightarrow> ustring \<Rightarrow> lookup" where
  "lookup t path = lookup_from t TREE_ROOT (split_path path)"

definition MAX_DEPTH :: nat where "MAX_DEPTH = 256"

fun path_walk :: "nat \<Rightarrow> tree \<Rightarrow> u32 \<Rightarrow> ustring list \<Rightarrow> ustring option" where
  "path_walk 0 t current parts = None"
| "path_walk (Suc k) t current parts =
     (if current = TREE_ROOT then Some (concat (map (\<lambda>p. 47 # p) (rev parts)))
      else case tr_entries t current of
          None \<Rightarrow> None
        | Some e \<Rightarrow> path_walk k t (en_parent e) (parts @ [en_name e]))"

definition path_of :: "tree \<Rightarrow> u32 \<Rightarrow> ustring option" where
  "path_of t handle =
     (if handle = TREE_ROOT then Some [47] else path_walk MAX_DEPTH t handle [])"

definition forget_listing :: "u32 \<Rightarrow> tree \<Rightarrow> tree" where
  "forget_listing parent t =
     t\<lparr>tr_listed := tr_listed t - {parent}, tr_children := (tr_children t)(parent := None)\<rparr>"

section \<open>The tree stays consistent\<close>

text \<open>
  The folders with a listing are the listed ones, every child of a listing is known, and an
  entry stands under its own handle.
\<close>

definition tree_ok :: "tree \<Rightarrow> bool" where
  "tree_ok t \<longleftrightarrow> dom (tr_children t) = tr_listed t
     \<and> (\<forall>p hs. tr_children t p = Some hs \<longrightarrow> (\<forall>h\<in>set hs. tr_entries t h \<noteq> None))
     \<and> (\<forall>h e. tr_entries t h = Some e \<longrightarrow> en_handle e = h)"

definition known_before :: "entry list \<Rightarrow> (u32 \<Rightarrow> entry option) \<Rightarrow> u32 \<Rightarrow> entry option" where
  "known_before entries m h =
     (case find (\<lambda>e. en_handle e = h) (rev entries) of Some e \<Rightarrow> Some e | None \<Rightarrow> m h)"

lemma fold_entries:
  "tr_entries (fold (\<lambda>e t. t\<lparr>tr_entries := (tr_entries t)(en_handle e \<mapsto> e)\<rparr>) es t)
     = known_before es (tr_entries t)"
  "tr_children (fold (\<lambda>e t. t\<lparr>tr_entries := (tr_entries t)(en_handle e \<mapsto> e)\<rparr>) es t) = tr_children t"
  "tr_listed (fold (\<lambda>e t. t\<lparr>tr_entries := (tr_entries t)(en_handle e \<mapsto> e)\<rparr>) es t) = tr_listed t"
proof -
  have find_append: "find P (xs @ ys) = (case find P xs of Some x \<Rightarrow> Some x | None \<Rightarrow> find P ys)"
    for P :: "entry \<Rightarrow> bool" and xs ys by (induction xs) auto
  show "tr_entries (fold (\<lambda>e t. t\<lparr>tr_entries := (tr_entries t)(en_handle e \<mapsto> e)\<rparr>) es t)
     = known_before es (tr_entries t)"
    by (induction es arbitrary: t)
       (auto simp: known_before_def fun_eq_iff find_append split: option.splits)
  show "tr_children (fold (\<lambda>e t. t\<lparr>tr_entries := (tr_entries t)(en_handle e \<mapsto> e)\<rparr>) es t) = tr_children t"
    by (induction es arbitrary: t) auto
  show "tr_listed (fold (\<lambda>e t. t\<lparr>tr_entries := (tr_entries t)(en_handle e \<mapsto> e)\<rparr>) es t) = tr_listed t"
    by (induction es arbitrary: t) auto
qed

lemma set_children_fields [simp]:
  "tr_entries (set_children p es t) = known_before es (tr_entries t)"
  "tr_children (set_children p es t) = (tr_children t)(p \<mapsto> map en_handle es)"
  "tr_listed (set_children p es t) = insert p (tr_listed t)"
  by (simp_all add: set_children_def Let_def fold_entries)

lemma known_before_some: "m h \<noteq> None \<Longrightarrow> known_before es m h \<noteq> None"
  by (auto simp: known_before_def split: option.split)

lemma known_before_member: "e \<in> set es \<Longrightarrow> known_before es m (en_handle e) \<noteq> None"
  by (auto simp: known_before_def find_None_iff split: option.split)

lemma known_before_handle:
  "known_before es m h = Some e \<Longrightarrow> (\<And>h e. m h = Some e \<Longrightarrow> en_handle e = h) \<Longrightarrow> en_handle e = h"
  by (auto simp: known_before_def find_Some_iff split: option.splits)

lemma tree_ok_new: "tree_ok tree_new"
  by (simp add: tree_ok_def tree_new_def)

lemma tree_ok_set_children: "tree_ok t \<Longrightarrow> tree_ok (set_children p es t)"
  unfolding tree_ok_def
  using known_before_some known_before_member known_before_handle
  by (auto split: if_splits)

lemma tree_ok_forget: "tree_ok t \<Longrightarrow> tree_ok (forget_listing p t)"
  by (auto simp: tree_ok_def forget_listing_def split: if_splits)

section \<open>Lookup\<close>

lemma map_filter_known:
  "\<forall>h\<in>set hs. m h \<noteq> None \<Longrightarrow> List.map_filter m hs = map (the \<circ> m) hs"
  by (induction hs) (auto simp: List.map_filter_simps)

lemma known_before_distinct:
  assumes "distinct (map en_handle es)" and "e \<in> set es"
  shows "known_before es m (en_handle e) = Some e"
proof -
  have "find (\<lambda>x. en_handle x = en_handle e) (rev es) = Some e"
  proof (cases "find (\<lambda>x. en_handle x = en_handle e) (rev es)")
    case None
    then show ?thesis using assms(2) by (auto simp: find_None_iff)
  next
    case (Some x)
    then have "x \<in> set es" "en_handle x = en_handle e"
      by (metis (mono_tags, lifting) find_Some_iff nth_mem set_rev)+
    then show ?thesis using Some assms by (metis eq_key_imp_eq_value distinct_map inj_on_def)
  qed
  then show ?thesis by (simp add: known_before_def)
qed

text \<open>What a listing recorded is what the folder holds.\<close>

lemma children_of_listing:
  assumes "distinct (map en_handle es)"
  shows "tree_children (set_children p es t) p = Some es"
    and "children_named (set_children p es t) p name = find (\<lambda>e. en_name e = name) es"
proof -
  have "List.map_filter (known_before es (tr_entries t)) (map en_handle es) = es"
    using known_before_distinct [OF assms] known_before_member
    by (subst map_filter_known) (auto simp: map_idI)
  then show "tree_children (set_children p es t) p = Some es"
    and "children_named (set_children p es t) p name = find (\<lambda>e. en_name e = name) es"
    by (simp_all add: tree_children_def children_named_def)
qed

lemma lookup_from_append:
  "lookup_from t c (ps @ qs) =
     (case lookup_from t c ps of Found h \<Rightarrow> lookup_from t h qs | r \<Rightarrow> r)"
  by (induction t c ps rule: lookup_from.induct) (auto split: option.splits)

lemma lookup_needs_unlisted: "lookup_from t c ps = NeedListing f \<Longrightarrow> f \<notin> tr_listed t"
  by (induction t c ps rule: lookup_from.induct) (auto split: if_splits option.splits)

lemma lookup_after_forget:
  "lookup_from t c ps = Found h \<Longrightarrow>
     lookup_from (forget_listing f t) c ps = Found h \<or> lookup_from (forget_listing f t) c ps = NeedListing f"
  by (induction t c ps rule: lookup_from.induct)
     (auto simp: forget_listing_def children_named_def split: if_splits option.splits)

section \<open>The path of an object leads to the object\<close>

definition legal_name :: "ustring \<Rightarrow> bool" where
  "legal_name n \<longleftrightarrow> n \<noteq> [] \<and> n \<noteq> [46] \<and> 47 \<notin> set n"

text \<open>
  What a device holds, folder by folder: each entry names its folder, has a name that a path can
  carry and that no other object of the folder has, and no two entries share a handle.
\<close>

definition folders_ok :: "(u32 \<Rightarrow> entry list) \<Rightarrow> bool" where
  "folders_ok dir \<longleftrightarrow>
     (\<forall>p. distinct (map en_name (dir p)) \<and> (\<forall>e\<in>set (dir p). en_parent e = p \<and> legal_name (en_name e)))
   \<and> (\<forall>p q. \<forall>e\<in>set (dir p). \<forall>f\<in>set (dir q). en_handle e = en_handle f \<longrightarrow> e = f)"

text \<open>The tree after some listings of such a device and some listings forgotten, in any order.\<close>

definition tree_change :: "(u32 \<Rightarrow> entry list) \<Rightarrow> u32 + u32 \<Rightarrow> tree \<Rightarrow> tree" where
  "tree_change dir c = (case c of Inl p \<Rightarrow> forget_listing p | Inr p \<Rightarrow> set_children p (dir p))"

definition tree_after :: "(u32 \<Rightarrow> entry list) \<Rightarrow> (u32 + u32) list \<Rightarrow> tree" where
  "tree_after dir cs = fold (tree_change dir) cs tree_new"

text \<open>A tree that reflects the device: \<open>gone\<close> are the folders whose listing was forgotten.\<close>

definition reflects :: "(u32 \<Rightarrow> entry list) \<Rightarrow> u32 set \<Rightarrow> tree \<Rightarrow> bool" where
  "reflects dir gone t \<longleftrightarrow>
     (\<forall>h e. tr_entries t h = Some e \<longrightarrow> en_handle e = h \<and> e \<in> set (dir (en_parent e))
        \<and> (en_parent e \<in> tr_listed t \<or> en_parent e \<in> gone))
   \<and> (\<forall>p\<in>tr_listed t. tr_children t p = Some (map en_handle (dir p))
        \<and> (\<forall>e\<in>set (dir p). tr_entries t (en_handle e) = Some e))"

lemma known_before_cases:
  "known_before es m h = Some e \<Longrightarrow> e \<in> set es \<and> en_handle e = h \<or> m h = Some e"
  by (auto simp: known_before_def split: option.splits)
     (metis (mono_tags, lifting) find_Some_iff nth_mem set_rev)+

lemma known_before_folder:
  assumes ok: "folders_ok dir" and e: "e \<in> set (dir q)" and known: "q = p \<or> m (en_handle e) = Some e"
  shows "known_before (dir p) m (en_handle e) = Some e"
proof -
  have "known_before (dir p) m (en_handle e) \<noteq> None"
    using e known known_before_member [of e "dir p" m] known_before_some [of m "en_handle e"] by auto
  then obtain f where f: "known_before (dir p) m (en_handle e) = Some f" by auto
  show ?thesis
  proof (cases "find (\<lambda>x. en_handle x = en_handle e) (rev (dir p))")
    case None
    then have "q \<noteq> p" using e by (auto simp: find_None_iff)
    then show ?thesis using None known by (simp add: known_before_def)
  next
    case (Some x)
    then have "x \<in> set (dir p)" "en_handle x = en_handle e"
      by (metis (mono_tags, lifting) find_Some_iff nth_mem set_rev)+
    then have "x = e" using ok e unfolding folders_ok_def by blast
    then show ?thesis using Some by (simp add: known_before_def)
  qed
qed

lemma reflects_set_children:
  assumes ok: "folders_ok dir" and t: "reflects dir gone t"
  shows "reflects dir gone (set_children p (dir p) t)"
proof -
  have "en_handle e = h \<and> e \<in> set (dir (en_parent e)) \<and> (en_parent e \<in> insert p (tr_listed t) \<or> en_parent e \<in> gone)"
    if "known_before (dir p) (tr_entries t) h = Some e" for h e
    using known_before_cases [OF that] t ok by (auto simp: reflects_def folders_ok_def)
  moreover have "known_before (dir p) (tr_entries t) (en_handle e) = Some e"
    if "q = p \<or> q \<in> tr_listed t" "e \<in> set (dir q)" for q e
    using known_before_folder [OF ok that(2), of p "tr_entries t"] that t by (auto simp: reflects_def)
  ultimately show ?thesis using t by (auto simp: reflects_def)
qed

lemma reflects_forget: "reflects dir gone t \<Longrightarrow> reflects dir (insert p gone) (forget_listing p t)"
  by (auto simp: reflects_def forget_listing_def)

lemma reflects_after:
  assumes "folders_ok dir"
  shows "reflects dir {p. Inl p \<in> set cs} (tree_after dir cs)"
proof -
  have "reflects dir gone t \<Longrightarrow> reflects dir (gone \<union> {p. Inl p \<in> set cs}) (fold (tree_change dir) cs t)" for gone t
  proof (induction cs arbitrary: gone t)
    case (Cons c cs)
    have "reflects dir (gone \<union> {p. Inl p = c}) (tree_change dir c t)"
      using reflects_set_children [OF assms Cons.prems] reflects_forget [OF Cons.prems]
      by (cases c) (auto simp: tree_change_def)
    from Cons.IH [OF this] show ?case by (simp add: Un_assoc Collect_disj_eq [symmetric] disj_commute)
  qed simp
  moreover have "reflects dir {} tree_new" by (simp add: reflects_def tree_new_def)
  ultimately show ?thesis unfolding tree_after_def by force
qed

text \<open>An object that is known is found under its name, while its folder is listed.\<close>

lemma reflects_child:
  assumes ok: "folders_ok dir" and t: "reflects dir gone t" and e: "tr_entries t h = Some e"
    and listed: "en_parent e \<in> tr_listed t"
  shows "children_named t (en_parent e) (en_name e) = Some e"
proof -
  let ?d = "dir (en_parent e)"
  have kids: "tr_children t (en_parent e) = Some (map en_handle ?d)" "\<forall>f\<in>set ?d. tr_entries t (en_handle f) = Some f"
    and mem: "e \<in> set ?d" using t e listed by (auto simp: reflects_def)
  have "List.map_filter (tr_entries t) (map en_handle ?d) = ?d"
    using kids(2) by (subst map_filter_known) (auto simp: map_idI)
  moreover have "find (\<lambda>f. en_name f = en_name e) ?d = Some e"
  proof (cases "find (\<lambda>f. en_name f = en_name e) ?d")
    case None
    then show ?thesis using mem by (auto simp: find_None_iff)
  next
    case (Some f)
    then have "f \<in> set ?d" "en_name f = en_name e" by (metis (mono_tags, lifting) find_Some_iff nth_mem)+
    moreover have "distinct (map en_name ?d)" using ok by (simp add: folders_ok_def)
    ultimately show ?thesis using mem Some by (metis distinct_map inj_on_def)
  qed
  ultimately show ?thesis using kids(1) by (simp add: children_named_def)
qed

lemma split_path_parts:
  "\<forall>p\<in>set parts. legal_name p \<Longrightarrow> split_path (concat (map (\<lambda>p. 47 # p) parts)) = parts"
proof -
  have step: "split_on 47 (p @ concat (map (\<lambda>p. 47 # p) ps)) = p # ps"
    if "47 \<notin> set p" "\<forall>q\<in>set ps. 47 \<notin> set q" for p :: ustring and ps
    using that
  proof (induction ps arbitrary: p)
    case Nil
    then show ?case by (simp add: split_on_simple)
  next
    case (Cons q ps)
    then show ?case using split_on_append_sep [of 47 p] by simp
  qed
  assume legal: "\<forall>p\<in>set parts. legal_name p"
  have "split_path (concat (map (\<lambda>p. 47 # p) parts)) = filter (\<lambda>p. p \<noteq> [] \<and> p \<noteq> [46]) ([] # parts)"
    using step [of "[]" parts] legal by (cases parts) (auto simp: split_path_def legal_name_def)
  also have "\<dots> = parts" using legal by (auto simp: legal_name_def filter_id_conv)
  finally show ?thesis .
qed

lemma path_walk_lookup:
  assumes ok: "folders_ok dir" and t: "reflects dir gone t"
  shows "path_walk k t h parts = Some path \<Longrightarrow> \<forall>p\<in>set parts. legal_name p \<Longrightarrow>
    \<exists>ps. path = concat (map (\<lambda>p. 47 # p) (ps @ rev parts)) \<and> (\<forall>p\<in>set ps. legal_name p)
      \<and> (case lookup_from t TREE_ROOT ps of
           Found g \<Rightarrow> g = h | NeedListing g \<Rightarrow> g \<notin> tr_listed t \<and> g \<in> gone | NotFound \<Rightarrow> False)"
proof (induction k arbitrary: h parts)
  case (Suc k)
  show ?case
  proof (cases "h = TREE_ROOT")
    case True
    then show ?thesis using Suc.prems by (auto intro!: exI [of _ "[]"])
  next
    case False
    then obtain e where e: "tr_entries t h = Some e"
      and walk: "path_walk k t (en_parent e) (parts @ [en_name e]) = Some path"
      using Suc.prems(1) by (auto split: option.splits)
    have n: "en_handle e = h" "en_parent e \<in> tr_listed t \<or> en_parent e \<in> gone" "e \<in> set (dir (en_parent e))"
      using t e by (auto simp: reflects_def)
    have "legal_name (en_name e)" using ok n(3) by (auto simp: folders_ok_def)
    note n = n(1,2) this
    from Suc.IH [OF walk] Suc.prems(2) n(3) obtain ps where
      ps: "path = concat (map (\<lambda>p. 47 # p) (ps @ rev (parts @ [en_name e])))" "\<forall>p\<in>set ps. legal_name p"
        "case lookup_from t TREE_ROOT ps of Found g \<Rightarrow> g = en_parent e
         | NeedListing g \<Rightarrow> g \<notin> tr_listed t \<and> g \<in> gone | NotFound \<Rightarrow> False"
      by auto
    have "case lookup_from t TREE_ROOT (ps @ [en_name e]) of
        Found g \<Rightarrow> g = h | NeedListing g \<Rightarrow> g \<notin> tr_listed t \<and> g \<in> gone | NotFound \<Rightarrow> False"
      using ps(3) n(1,2) reflects_child [OF ok t e] by (auto simp: lookup_from_append split: lookup.splits)
    then show ?thesis using ps n(3) by (intro exI [of _ "ps @ [en_name e]"]) auto
  qed
qed simp

text \<open>
  C27: take a device whose folders have objects with distinct handles, and in each folder distinct
  names that a path can carry. After any listings of its folders, and any of them forgotten, the
  path the tree gives for an object leads back to that object; only when a folder on the way was
  forgotten, and not listed since, does the lookup ask for that folder instead.
\<close>

theorem lookup_path_of:
  assumes "folders_ok dir" and "path_of (tree_after dir cs) h = Some path"
  shows "case lookup (tree_after dir cs) path of
      Found g \<Rightarrow> g = h
    | NeedListing g \<Rightarrow> g \<notin> tr_listed (tree_after dir cs) \<and> Inl g \<in> set cs
    | NotFound \<Rightarrow> False"
proof (cases "h = TREE_ROOT")
  case True
  then have "path = [47]" using assms(2) by (simp add: path_of_def)
  then show ?thesis using True by (simp add: lookup_def split_path_def)
next
  case False
  then have "path_walk MAX_DEPTH (tree_after dir cs) h [] = Some path" using assms(2) by (simp add: path_of_def)
  from path_walk_lookup [OF assms(1) reflects_after [OF assms(1)] this] obtain ps where
    "path = concat (map (\<lambda>p. 47 # p) ps)" "\<forall>p\<in>set ps. legal_name p"
    "case lookup_from (tree_after dir cs) TREE_ROOT ps of Found g \<Rightarrow> g = h
     | NeedListing g \<Rightarrow> g \<notin> tr_listed (tree_after dir cs) \<and> Inl g \<in> set cs | NotFound \<Rightarrow> False"
    by (auto simp only: append_Nil2 rev.simps mem_Collect_eq list.set ball_empty)
  then show ?thesis by (simp add: lookup_def split_path_parts)
qed

text \<open>A tree with a folder and a file in the root, and one file in the folder.\<close>

definition sample_folder :: entry where
  "sample_folder = \<lparr>en_handle = 1, en_parent = 0, en_name = lit ''DCIM'', en_is_dir = True, en_size = 0\<rparr>"

definition sample_file :: entry where
  "sample_file = \<lparr>en_handle = 2, en_parent = 1, en_name = lit ''a.jpg'', en_is_dir = False, en_size = 3\<rparr>"

definition sample_note :: entry where
  "sample_note = \<lparr>en_handle = 3, en_parent = 0, en_name = lit ''b.txt'', en_is_dir = False, en_size = 5\<rparr>"

definition sample_tree :: tree where
  "sample_tree = set_children 1 [sample_file] (set_children 0 [sample_folder, sample_note] tree_new)"

lemma sample_tree_fields:
  "tr_entries sample_tree = [1 \<mapsto> sample_folder, 2 \<mapsto> sample_file, 3 \<mapsto> sample_note]"
  "tr_children sample_tree = [0 \<mapsto> [1, 3], 1 \<mapsto> [2]]" "tr_listed sample_tree = {1, 0}"
  by (auto simp: sample_tree_def set_children_def tree_new_def sample_folder_def sample_file_def sample_note_def)

lemma sample_lookups:
  "lookup sample_tree (lit ''/'') = Found 0" "lookup sample_tree (lit ''/DCIM'') = Found 1"
  "lookup sample_tree (lit ''/DCIM/a.jpg'') = Found 2" "lookup sample_tree (lit ''/b.txt'') = Found 3"
  by (simp_all add: lookup_def split_path_def lit_def sample_tree_fields children_named_def
      List.map_filter_def sample_folder_def sample_file_def sample_note_def TREE_ROOT_def)

definition sample_dir :: "u32 \<Rightarrow> entry list" where
  "sample_dir p = (if p = 0 then [sample_folder, sample_note] else if p = 1 then [sample_file] else [])"

text \<open>The two folders are listed: the file is found. The root is forgotten: the lookup asks for it.\<close>

lemma lookup_path_of_witness:
  "path_of (tree_after sample_dir [Inr 0, Inr 1]) 2 = Some (lit ''/DCIM/a.jpg'')
   \<and> lookup (tree_after sample_dir [Inr 0, Inr 1]) (lit ''/DCIM/a.jpg'') = Found 2
   \<and> path_of (tree_after sample_dir [Inr 0, Inr 1, Inl 0]) 2 = Some (lit ''/DCIM/a.jpg'')
   \<and> lookup (tree_after sample_dir [Inr 0, Inr 1, Inl 0]) (lit ''/DCIM/a.jpg'') = NeedListing 0"
proof -
  let ?t = "tree_after sample_dir [Inr 0, Inr 1]" and ?u = "tree_after sample_dir [Inr 0, Inr 1, Inl 0]"
  have ok: "folders_ok sample_dir"
    by (auto simp: folders_ok_def sample_dir_def sample_folder_def sample_note_def sample_file_def
        legal_name_def lit_def split: if_splits)
  have t: "?t = sample_tree" by (simp add: tree_after_def tree_change_def sample_dir_def sample_tree_def)
  have u: "?u = forget_listing 0 sample_tree"
    by (simp add: tree_after_def tree_change_def sample_dir_def sample_tree_def)
  have paths: "path_of ?t 2 = Some (lit ''/DCIM/a.jpg'')" "path_of ?u 2 = Some (lit ''/DCIM/a.jpg'')"
    unfolding t u
    by (simp_all add: path_of_def MAX_DEPTH_def numeral_eq_Suc forget_listing_def sample_tree_fields sample_folder_def
        sample_file_def TREE_ROOT_def lit_def)
  have "lookup ?u (lit ''/DCIM/a.jpg'') = NeedListing 0"
    unfolding u by (simp add: lookup_def split_path_def lit_def forget_listing_def sample_tree_fields TREE_ROOT_def)
  moreover have "lookup ?t (lit ''/DCIM/a.jpg'') = Found 2"
    using lookup_path_of [OF ok paths(1)] by (auto split: lookup.splits)
  ultimately show ?thesis using paths by simp
qed

text \<open>
  C26: every tree a mount can hold is consistent, whatever the device lists and in whatever order
  folders are listed and forgotten: a listed folder has its children, every child is known, and
  an object stands under its own handle; and a lookup after a folder is forgotten gives the
  object it gave before, or asks for that folder.
\<close>

theorem tree_stays_ok:
  "tree_ok tree_new
    \<and> tree_ok (fold (\<lambda>c t. case c of Inl p \<Rightarrow> forget_listing p t | Inr (p, es) \<Rightarrow> set_children p es t) cs tree_new)
    \<and> (case lookup t path of
         Found h \<Rightarrow> lookup (forget_listing f t) path \<in> {Found h, NeedListing f}
       | NeedListing g \<Rightarrow> g \<notin> tr_listed t
       | NotFound \<Rightarrow> True)"
proof -
  have "tree_ok u \<Longrightarrow> tree_ok (fold (\<lambda>c t. case c of Inl p \<Rightarrow> forget_listing p t
      | Inr (p, es) \<Rightarrow> set_children p es t) cs u)" for u
    by (induction cs arbitrary: u) (auto simp: tree_ok_set_children tree_ok_forget split: sum.split)
  then show ?thesis
    using tree_ok_new lookup_after_forget [of t TREE_ROOT "split_path path" _ f]
      lookup_needs_unlisted [of t TREE_ROOT "split_path path"]
    by (auto simp: lookup_def split: lookup.split)
qed

end
