(* ===== verification/Mtpfs_Backend.thy ===== *)
theory Mtpfs_Backend
  imports Mtp_Session Ptp_PropList Usb_Discover Mtpfs_Tree
begin

text \<open>
  The backend of the filesystem, \<open>crates/mtpfs/src/backend.rs\<close>: the settings, the opening of a
  device, the listings, the cached partial reads, and the operations that change the device.
  Messages to the terminal and waits change no state and are left out.
\<close>

section \<open>Settings\<close>

definition BE_TIMEOUT :: duration where "BE_TIMEOUT = from_millis 10000"
definition READ_BUFFER :: nat where "READ_BUFFER = 1024 * 1024"
definition BULK_BUFFER :: u32 where "BULK_BUFFER = 1024 * 1024"
definition READ_AHEAD :: nat where "READ_AHEAD = 4 * 1024 * 1024"
definition WRITE_CHUNK :: nat where "WRITE_CHUNK = 512 * 1024"
definition FIND_ATTEMPTS :: nat where "FIND_ATTEMPTS = 5"

record settings =
  st_timeout :: duration
  st_write_chunk :: nat
  st_debug :: bool
  st_no_proplist :: bool
  st_usb_reset :: bool

definition default_settings :: settings where
  "default_settings = \<lparr>st_timeout = BE_TIMEOUT, st_write_chunk = WRITE_CHUNK, st_debug = False,
     st_no_proplist = False, st_usb_reset = False\<rparr>"

definition settings_from_env :: "(string \<Rightarrow> ustring option) \<Rightarrow> settings" where
  "settings_from_env env =
     (let s = default_settings;
          s = (case env_number (env ''BSDROID_TIMEOUT'') of
                 Some n \<Rightarrow> if n > 0 then s\<lparr>st_timeout := from_millis (n * 1000)\<rparr> else s
               | None \<Rightarrow> s);
          s = (case env_number (env ''BSDROID_WRITE_CHUNK'') of
                 Some n \<Rightarrow> if n > 0 then s\<lparr>st_write_chunk := n\<rparr> else s
               | None \<Rightarrow> s)
      in s\<lparr>st_debug := env_flag (env ''BSDROID_DEBUG''),
           st_no_proplist := env_flag (env ''BSDROID_NO_PROPLIST''),
           st_usb_reset := env_flag (env ''BSDROID_USB_RESET'')\<rparr>)"

fun find_attempts ::
    "'d libusb20 \<Rightarrow> pointer \<Rightarrow> selector option \<Rightarrow> settings \<Rightarrow> nat \<Rightarrow> 'd \<Rightarrow> found option \<times> 'd" where
  "find_attempts L be want s 0 d = (None, d)"
| "find_attempts L be want s (Suc k) d =
     (case find_device L be want (st_timeout s) d of
        (Some f, d') \<Rightarrow> (Some f, d')
      | (None, d') \<Rightarrow> find_attempts L be want s k d')"

definition find_with_patience ::
    "'d libusb20 \<Rightarrow> pointer \<Rightarrow> selector option \<Rightarrow> settings \<Rightarrow> 'd \<Rightarrow> found option \<times> 'd" where
  "find_with_patience L be want s = find_attempts L be want s FIND_ATTEMPTS"

section \<open>Faults\<close>

datatype be_error =
    BeNoDevice
  | BeUsb usb_error
  | BeParse parse_error
  | BeDescriptor descriptor_error
  | BeDevice string u16
  | BeNoStorage
  | BeBadNode ustring
  | BeNamedDeviceNotFound ustring
  | BeNoPartialRead
  | BeTooLarge nat
  | BeBadListing u32
  | BeSession session_error

fun worth_another_try :: "be_error \<Rightarrow> bool" where
  "worth_another_try (BeUsb e) \<longleftrightarrow> True"
| "worth_another_try (BeSession e) \<longleftrightarrow> True"
| "worth_another_try _ \<longleftrightarrow> False"

section \<open>Pure helpers\<close>

definition drop_the_folder :: "prop_record list \<Rightarrow> u32 \<Rightarrow> prop_record list" where
  "drop_the_folder records folder = filter (\<lambda>r. pr_handle r \<noteq> folder) records"

definition split_final_read :: "nat \<Rightarrow> nat \<Rightarrow> nat \<Rightarrow> nat \<Rightarrow> nat \<times> bool" where
  "split_final_read offset want file_size packet =
     (let reaches_end = min u64_max (offset + want) \<ge> file_size in
      if reaches_end \<and> packet \<noteq> 0 \<and> want \<noteq> 0 \<and> want mod packet = 0
      then (want - 1, True) else (want, False))"

record read_cache =
  rc_handle :: u32
  rc_start :: nat
  rc_data :: bytes

definition cache_get :: "read_cache \<Rightarrow> u32 \<Rightarrow> nat \<Rightarrow> nat \<Rightarrow> bytes option" where
  "cache_get c handle offset want =
     (if rc_handle c \<noteq> handle \<or> offset < rc_start c then None
      else let from = offset - rc_start c in
        if from \<ge> length (rc_data c) then None
        else let to = min (from + want) (length (rc_data c))
             in Some (take (to - from) (drop from (rc_data c))))"

lemma cache_get_nonempty: "cache_get c h offset want = Some bs \<Longrightarrow> 0 < want \<Longrightarrow> bs \<noteq> []"
  by (auto simp: cache_get_def Let_def split: if_splits)

lemma cache_hit_grows:
  "Option.bind c (\<lambda>c. cache_get c h offset want) = Some bs \<Longrightarrow> 0 < want \<Longrightarrow> 0 < length bs"
  using cache_get_nonempty by (fastforce simp: bind_eq_Some_conv)

lemma hit_progress:
  assumes "Option.bind c (\<lambda>c. cache_get c h offset need) = Some bs"
    and "\<not> want \<le> k" and "need = want - k"
  shows "want - (k + length bs) < want - k"
  using cache_hit_grows [OF assms(1)] assms(2,3) by linarith

lemma read_progress:
  assumes "data \<noteq> []" and "\<not> want \<le> k" and "need = want - k"
  shows "want - (k + length (take (min need (length data)) data)) < want - k"
  using assms by (cases data) auto

section \<open>The session of a mount\<close>

record 'd mtp =
  mt_session :: "'d session"
  mt_settings :: settings
  mt_storage :: u32
  mt_partial_read :: u16
  mt_fast_list :: bool
  mt_packet :: nat
  mt_cache :: "read_cache option"
  mt_info :: device_info

type_synonym ('d, 'a) be = "('d mtp, be_error, 'a) sm"

definition on_session :: "('d, 'a) ses \<Rightarrow> ('d, 'a) be" where
  "on_session m = (\<lambda>t. case m (mt_session t) of
       (Inl e, s') \<Rightarrow> (Inl (BeSession e), t\<lparr>mt_session := s'\<rparr>)
     | (Inr a, s') \<Rightarrow> (Inr a, t\<lparr>mt_session := s'\<rparr>))"

definition check_outcome :: "string \<Rightarrow> outcome \<Rightarrow> ('d, outcome) be" where
  "check_outcome step out =
     (if outcome_is_ok out then ok out else err (BeDevice step (o_response_code out)))"

definition be_operation :: "'d transport \<Rightarrow> string \<Rightarrow> u16 \<Rightarrow> u32 list \<Rightarrow> ('d, bytes) be" where
  "be_operation T step code params =
     and_then (on_session (operation T step code params)) (\<lambda>out.
     and_then (check_outcome step out) (\<lambda>out. ok (o_data out)))"

definition drop_cache :: "('d, unit) be" where
  "drop_cache = modify (\<lambda>t. t\<lparr>mt_cache := None\<rparr>)"

definition operation_that_changes ::
    "'d transport \<Rightarrow> string \<Rightarrow> u16 \<Rightarrow> u32 list \<Rightarrow> ('d, u32 list) be" where
  "operation_that_changes T step code params =
     and_then (on_session (operation T step code params)) (\<lambda>out.
     and_then drop_cache (\<lambda>_.
     and_then (check_outcome step out) (\<lambda>out. ok (o_response_params out))))"

definition sending_data ::
    "'d transport \<Rightarrow> string \<Rightarrow> u16 \<Rightarrow> u32 list \<Rightarrow> bytes \<Rightarrow> ('d, u32 list) be" where
  "sending_data T step code params payload =
     and_then (on_session (operation_with_data T step code params payload)) (\<lambda>out.
     and_then drop_cache (\<lambda>_.
     and_then (check_outcome step out) (\<lambda>out. ok (o_response_params out))))"

fun storage_attempts :: "'d transport \<Rightarrow> nat \<Rightarrow> ('d, u32) be" where
  "storage_attempts T 0 = err BeNoStorage"
| "storage_attempts T (Suc k) =
     and_then (be_operation T ''GetStorageIDs'' GET_STORAGE_IDS []) (\<lambda>data.
     if 8 \<le> length data then ok (u32_from_le_bytes (take 4 (drop 4 data)))
     else storage_attempts T k)"

definition first_storage :: "'d transport \<Rightarrow> ('d, u32) be" where
  "first_storage T = storage_attempts T 10"

section \<open>Opening\<close>

text \<open>The drop of \<open>Mtp\<close> closes the session, then may reset, and then drops its fields.\<close>

definition drop_mtp :: "'d transport \<Rightarrow> 'd mtp \<Rightarrow> 'd" where
  "drop_mtp T t =
     (let s = snd (close_session T (mt_session t));
          s = (if st_usb_reset (mt_settings t) then snd (reset_device T s) else s)
      in ses_device (drop_session T s))"

definition negotiate :: "'d transport \<Rightarrow> ('d, unit) be" where
  "negotiate T =
     and_then (on_session (open_session_or_repair T 1)) (\<lambda>opened.
     and_then (check_outcome ''OpenSession'' (sop_outcome opened)) (\<lambda>_.
     and_then (be_operation T ''GetDeviceInfo'' GET_DEVICE_INFO []) (\<lambda>raw.
     and_then (map_err BeParse (from_result (device_info_parse raw))) (\<lambda>info.
     and_then (modify (\<lambda>t. t\<lparr>mt_info := info\<rparr>)) (\<lambda>_.
     and_then (modify (\<lambda>t. t\<lparr>mt_fast_list :=
         supports info GET_OBJECT_PROP_LIST \<and> \<not> st_no_proplist (mt_settings t)\<rparr>)) (\<lambda>_.
     and_then (if supports info GET_PARTIAL_OBJECT_64
               then modify (\<lambda>t. t\<lparr>mt_partial_read := GET_PARTIAL_OBJECT_64\<rparr>)
               else if supports info GET_PARTIAL_OBJECT
               then modify (\<lambda>t. t\<lparr>mt_partial_read := GET_PARTIAL_OBJECT\<rparr>)
               else err BeNoPartialRead) (\<lambda>_.
     and_then (first_storage T) (\<lambda>storage.
     modify (\<lambda>t. t\<lparr>mt_storage := storage\<rparr>)))))))))"

definition fresh_mtp :: "settings \<Rightarrow> nat \<Rightarrow> 'd session \<Rightarrow> 'd mtp" where
  "fresh_mtp s packet ses =
     \<lparr>mt_session = ses, mt_settings = s, mt_storage = 0, mt_partial_read = GET_PARTIAL_OBJECT,
      mt_fast_list = False, mt_packet = packet, mt_cache = None, mt_info = device_info_default\<rparr>"

definition wanted :: "ustring option \<Rightarrow> be_error + selector option" where
  "wanted node =
     (case node of
        None \<Rightarrow> Inr None
      | Some n \<Rightarrow> (case parse_selector n of None \<Rightarrow> Inl (BeBadNode n) | Some sel \<Rightarrow> Inr (Some sel)))"

text \<open>
  On success the state of the library lives in the session of the mount, which comes with the
  backend and the device it owns. Every failure drops what was opened before it.
\<close>

definition open_once ::
    "'d libusb20 \<Rightarrow> ustring option \<Rightarrow> settings \<Rightarrow> 'd \<Rightarrow> be_error \<times> 'd + 'd mtp \<times> pointer \<times> mtp_device" where
  "open_once L node s d =
     (case wanted node of Inl e \<Rightarrow> Inl (e, d) | Inr want \<Rightarrow>
     (case backend_new L d of (Inl e, d1) \<Rightarrow> Inl (BeUsb e, d1) | (Inr be, d1) \<Rightarrow>
     (case find_with_patience L be want s d1 of
        (None, d2) \<Rightarrow> Inl ((case node of Some n \<Rightarrow> BeNamedDeviceNotFound n | None \<Rightarrow> BeNoDevice),
                         lib_be_free L be d2)
      | (Some found, d2) \<Rightarrow>
        let dev = fd_device found; iface = fd_iface found;
            d3 = (case kernel_driver_active L dev (mi_interface_number iface) d2 of
                    (active, d') \<Rightarrow>
                      if active then snd (detach_kernel_driver L dev (mi_interface_number iface) d')
                      else d')
        in (case into_mtp L dev iface BULK_BUFFER d3 of
              (Inl e, d4) \<Rightarrow> Inl (BeUsb e, lib_be_free L be d4)
            | (Inr device, d4) \<Rightarrow>
              let config = normalised
                    \<lparr>cfg_timeout = st_timeout s, cfg_read_buffer = READ_BUFFER,
                     cfg_write_chunk = st_write_chunk s,
                     cfg_packet = unat (mi_max_packet_size iface)\<rparr>;
                  T = mtp_transport L device;
                  ses = fst (session_new T d4 config)
              in (case negotiate T (fresh_mtp s (cfg_packet config) ses) of
                    (Inl e, t) \<Rightarrow>
                      Inl (e, lib_be_free L be (drop_mtp_device L device (drop_mtp T t)))
                  | (Inr _, t) \<Rightarrow> Inr (t, be, device))))))"

fun open_attempts ::
    "'d libusb20 \<Rightarrow> ustring option \<Rightarrow> settings \<Rightarrow> nat \<Rightarrow> be_error option \<Rightarrow> 'd
      \<Rightarrow> be_error \<times> 'd + 'd mtp \<times> pointer \<times> mtp_device" where
  "open_attempts L node s 0 prev d =
     Inl (case prev of Some e \<Rightarrow> (e, d) | None \<Rightarrow> (BeNoDevice, d))"
| "open_attempts L node s (Suc k) prev d =
     (case open_once L node s d of
        Inr m \<Rightarrow> Inr m
      | Inl (e, d') \<Rightarrow>
          if worth_another_try e then open_attempts L node s k (Some e) d' else Inl (e, d'))"

definition mtp_open ::
    "'d libusb20 \<Rightarrow> ustring option \<Rightarrow> settings \<Rightarrow> 'd \<Rightarrow> be_error \<times> 'd + 'd mtp \<times> pointer \<times> mtp_device" where
  "mtp_open L node s d = open_attempts L node s FIND_ATTEMPTS None d"

definition mtp_name :: "'d mtp \<Rightarrow> ustring" where
  "mtp_name t = trim (di_manufacturer (mt_info t) @ [32] @ di_model (mt_info t))"

section \<open>Listings\<close>

fun prop_requests :: "'d transport \<Rightarrow> u32 \<Rightarrow> u16 list \<Rightarrow> ('d, prop_entry list) be" where
  "prop_requests T arg [] = ok []"
| "prop_requests T arg (code # codes) =
     and_then (be_operation T ''GetObjectPropList'' GET_OBJECT_PROP_LIST [arg, 0, ucast code, 0, 1]) (\<lambda>data.
     and_then (map_err BeParse (from_result (parse_object_prop_list data))) (\<lambda>es.
     and_then (prop_requests T arg codes) (\<lambda>more. ok (es @ more))))"

fun entries_of_records :: "u32 \<Rightarrow> prop_record list \<Rightarrow> be_error + entry list" where
  "entries_of_records parent [] = Inr []"
| "entries_of_records parent (r # rs) =
     (if pr_name r = [] then Inl (BeBadListing (pr_handle r))
      else case entries_of_records parent rs of
          Inl e \<Rightarrow> Inl e
        | Inr es \<Rightarrow> Inr (\<lparr>en_handle = pr_handle r, en_parent = parent, en_name = pr_name r,
                          en_is_dir = prop_record_is_folder r, en_size = pr_size r\<rparr> # es))"

definition list_by_properties :: "'d transport \<Rightarrow> u32 \<Rightarrow> ('d, entry list) be" where
  "list_by_properties T parent =
     (let arg = (if parent = TREE_ROOT then 0 else parent) in
      and_then (prop_requests T arg [PROP_OBJECT_FILE_NAME, PROP_OBJECT_SIZE, PROP_OBJECT_FORMAT]) (\<lambda>es.
      from_result (entries_of_records parent (drop_the_folder (fold_prop_list es) arg))))"

fun object_infos :: "'d transport \<Rightarrow> u32 \<Rightarrow> u32 list \<Rightarrow> ('d, entry list) be" where
  "object_infos T parent [] = ok []"
| "object_infos T parent (h # hs) =
     and_then (be_operation T ''GetObjectInfo'' GET_OBJECT_INFO [h]) (\<lambda>raw.
     and_then (object_infos T parent hs) (\<lambda>rest.
     case object_info_parse raw of
       Inl e \<Rightarrow> ok rest
     | Inr info \<Rightarrow> ok (\<lparr>en_handle = h, en_parent = parent, en_name = oi_filename info,
                        en_is_dir = object_info_is_folder info,
                        en_size = ucast (oi_compressed_size info)\<rparr> # rest)))"

definition handles_of :: "bytes \<Rightarrow> u32 list" where
  "handles_of data = u32_chunks (drop 4 data)"

definition list_one_at_a_time :: "'d transport \<Rightarrow> u32 \<Rightarrow> ('d, entry list) be" where
  "list_one_at_a_time T parent =
     and_then (gets mt_storage) (\<lambda>storage.
     let arg = (if parent = TREE_ROOT then ROOT_ONLY else parent) in
     and_then (be_operation T ''GetObjectHandles'' GET_OBJECT_HANDLES [storage, 0, arg]) (\<lambda>data.
     object_infos T parent (handles_of data)))"

definition be_list :: "'d transport \<Rightarrow> u32 \<Rightarrow> ('d, entry list) be" where
  "be_list T parent = (\<lambda>t.
     if mt_fast_list t then
       (case list_by_properties T parent t of
          (Inr v, t') \<Rightarrow> (Inr v, t')
        | (Inl e, t') \<Rightarrow> list_one_at_a_time T parent (t'\<lparr>mt_fast_list := False\<rparr>))
     else list_one_at_a_time T parent t)"

section \<open>Reads\<close>

text \<open>\<open>partial_read\<close>: the offset is split in two words, or cut to one.\<close>

definition partial_params :: "u16 \<Rightarrow> u32 \<Rightarrow> nat \<Rightarrow> nat \<Rightarrow> u32 list" where
  "partial_params code handle offset want =
     (if code = GET_PARTIAL_OBJECT_64
      then [handle, word_of_nat (offset mod 2 ^ 32), word_of_nat (offset div 2 ^ 32), word_of_nat want]
      else [handle, word_of_nat offset, word_of_nat want])"

definition partial_read :: "'d transport \<Rightarrow> u32 \<Rightarrow> nat \<Rightarrow> nat \<Rightarrow> ('d, bytes) be" where
  "partial_read T handle offset want =
     and_then (gets mt_partial_read) (\<lambda>code.
     be_operation T ''GetPartialObject'' code (partial_params code handle offset want))"

text \<open>
  The two loops over it take the request as the function \<open>pr\<close>, so their lemmas speak of any
  device whose partial reads are right.
\<close>

definition read_whole_packets ::
    "(nat \<Rightarrow> nat \<Rightarrow> ('d, bytes) be) \<Rightarrow> nat \<Rightarrow> nat \<Rightarrow> nat \<Rightarrow> ('d, bytes) be" where
  "read_whole_packets pr offset want file_size =
     and_then (gets mt_packet) (\<lambda>packet.
     case split_final_read offset want file_size packet of (first, short) \<Rightarrow>
     and_then (pr offset first) (\<lambda>data.
     if short \<and> length data = first
     then and_then (pr (offset + first) 1) (\<lambda>tail. ok (data @ tail))
     else ok data))"

definition read_from_device :: "'d transport \<Rightarrow> u32 \<Rightarrow> nat \<Rightarrow> nat \<Rightarrow> nat \<Rightarrow> ('d, bytes) be" where
  "read_from_device T handle = read_whole_packets (partial_read T handle)"

function read_loop ::
    "(nat \<Rightarrow> nat \<Rightarrow> ('d, bytes) be) \<Rightarrow> u32 \<Rightarrow> nat \<Rightarrow> nat \<Rightarrow> nat \<Rightarrow> bytes \<Rightarrow> ('d, bytes) be" where
  "read_loop rd handle offset want file_size out t =
     (if want \<le> length out then (Inr out, t)
      else
        let at = offset + length out; need = want - length out in
        case Option.bind (mt_cache t) (\<lambda>c. cache_get c handle at need) of
          Some bs \<Rightarrow> read_loop rd handle offset want file_size (out @ bs) t
        | None \<Rightarrow>
            let ahead = max need READ_AHEAD; ask = min ahead (file_size - at) in
            (case rd at ask t of
               (Inl e, t') \<Rightarrow> (Inl e, t')
             | (Inr data, t') \<Rightarrow>
                 if data = [] then (Inr out, t')
                 else read_loop rd handle offset want file_size (out @ take (min need (length data)) data)
                   (t'\<lparr>mt_cache := Some \<lparr>rc_handle = handle, rc_start = at, rc_data = data\<rparr>\<rparr>)))"
  by pat_completeness auto
termination
proof (relation "measure (\<lambda>(rd, handle, offset, want, file_size, out, t). want - length out)", goal_cases)
  case 1
  then show ?case by simp
next
  case prems: 2
  show ?case
    unfolding in_measure prod.case length_append
    by (rule read_progress) (fact prems)+
next
  case prems: 3
  show ?case
    unfolding in_measure prod.case length_append
    by (rule hit_progress) (fact prems)+
qed

declare read_loop.simps [simp del]

definition read_at_with ::
    "(nat \<Rightarrow> nat \<Rightarrow> nat \<Rightarrow> ('d, bytes) be) \<Rightarrow> u32 \<Rightarrow> nat \<Rightarrow> nat \<Rightarrow> nat \<Rightarrow> ('d, bytes) be" where
  "read_at_with rd handle offset want file_size =
     (if want = 0 \<or> offset \<ge> file_size then ok []
      else read_loop (\<lambda>at ask. rd at ask file_size) handle offset
             (min want (file_size - offset)) file_size [])"

definition read_at :: "'d transport \<Rightarrow> u32 \<Rightarrow> nat \<Rightarrow> nat \<Rightarrow> nat \<Rightarrow> ('d, bytes) be" where
  "read_at T handle = read_at_with (read_from_device T handle) handle"

section \<open>Changes\<close>

definition parent_arg :: "u32 \<Rightarrow> u32" where
  "parent_arg parent = (if parent = TREE_ROOT then 0xffffffff else parent)"

definition announce_object :: "'d transport \<Rightarrow> bytes \<Rightarrow> u32 \<Rightarrow> ('d, u32) be" where
  "announce_object T info parg =
     and_then (gets mt_storage) (\<lambda>storage.
     and_then (sending_data T ''SendObjectInfo'' SEND_OBJECT_INFO [storage, parg] info) (\<lambda>params.
     if 2 < length params then ok (params ! 2) else err (BeDevice ''SendObjectInfo'' RESP_OK)))"

definition send_object :: "'d transport \<Rightarrow> u32 \<Rightarrow> ustring \<Rightarrow> bytes \<Rightarrow> bool \<Rightarrow> ('d, u32) be" where
  "send_object T parent name data is_folder =
     (if length data > MAX_PAYLOAD_LEN then err (BeTooLarge (length data))
      else
        and_then (gets mt_storage) (\<lambda>storage.
        let info = build_for_send storage parent name (word_of_nat (length data)) is_folder in
        and_then (announce_object T info (parent_arg parent)) (\<lambda>handle.
        if is_folder then ok handle
        else and_then (sending_data T ''SendObject'' SEND_OBJECT [] data) (\<lambda>_. ok handle))))"

definition storage_space :: "'d transport \<Rightarrow> ('d, u64 \<times> u64) be" where
  "storage_space T =
     and_then (gets mt_storage) (\<lambda>storage.
     and_then (be_operation T ''GetStorageInfo'' GET_STORAGE_INFO [storage]) (\<lambda>data.
     and_then (map_err BeParse (from_result (storage_info_parse data))) (\<lambda>info.
     ok (si_max_capacity info, si_free_space_in_bytes info))))"

definition rename_object :: "'d transport \<Rightarrow> u32 \<Rightarrow> ustring \<Rightarrow> ('d, unit) be" where
  "rename_object T handle name =
     and_then (sending_data T ''SetObjectPropValue'' SET_OBJECT_PROP_VALUE
       [handle, ucast PROP_OBJECT_FILE_NAME] (push_string [] name)) (\<lambda>_. ok ())"

definition move_object :: "'d transport \<Rightarrow> u32 \<Rightarrow> u32 \<Rightarrow> ('d, unit) be" where
  "move_object T handle new_parent =
     and_then (gets mt_storage) (\<lambda>storage.
     and_then (operation_that_changes T ''MoveObject'' MOVE_OBJECT
       [handle, storage, parent_arg new_parent]) (\<lambda>_. ok ()))"

definition can_rename :: "'d mtp \<Rightarrow> bool" where
  "can_rename t \<longleftrightarrow> supports (mt_info t) SET_OBJECT_PROP_VALUE"

definition can_move :: "'d mtp \<Rightarrow> bool" where
  "can_move t \<longleftrightarrow> supports (mt_info t) MOVE_OBJECT"

definition send_object_stream ::
    "'d transport \<Rightarrow> 'r io_reader \<Rightarrow> u32 \<Rightarrow> ustring \<Rightarrow> nat \<Rightarrow> ('d mtp \<times> 'r, be_error, u32) sm" where
  "send_object_stream T R parent name sz =
     (if sz > MAX_PAYLOAD_LEN then err (BeTooLarge sz)
      else
        and_then (gets (\<lambda>s. mt_storage (fst s))) (\<lambda>storage.
        let info = build_for_send storage parent name (word_of_nat sz) False in
        and_then (on_fst (announce_object T info (parent_arg parent))) (\<lambda>handle.
        and_then (\<lambda>(t, r).
          case operation_sending T R ''SendObject'' SEND_OBJECT [] sz (mt_session t, r) of
            (Inl e, (s', r')) \<Rightarrow> (Inl (BeSession e), (t\<lparr>mt_session := s'\<rparr>, r'))
          | (Inr out, (s', r')) \<Rightarrow> (Inr out, (t\<lparr>mt_session := s'\<rparr>, r'))) (\<lambda>out.
        and_then (on_fst drop_cache) (\<lambda>_.
        and_then (on_fst (check_outcome ''SendObject'' out)) (\<lambda>_. ok handle))))))"

definition delete_object :: "'d transport \<Rightarrow> u32 \<Rightarrow> ('d, unit) be" where
  "delete_object T handle =
     and_then (operation_that_changes T ''DeleteObject'' DELETE_OBJECT [handle, 0]) (\<lambda>_. ok ())"

end
