(* ===== verification/Mtpfs_Backend_Laws.thy ===== *)
theory Mtpfs_Backend_Laws
  imports Mtpfs_Backend Mtp_Session_Life
begin

text \<open>
  Lemmas about the backend: a read gives the bytes of the object whatever the cache holds, the
  requests for parts of an object, the life of the cache, the listings, and what an opened
  mount has agreed with its device.
\<close>

section \<open>A read gives the bytes of the object\<close>

definition part_of :: "bytes \<Rightarrow> nat \<Rightarrow> bytes \<Rightarrow> bool" where
  "part_of content at d \<longleftrightarrow> d = take (length d) (drop at content)"

definition cache_holds :: "bytes \<Rightarrow> u32 \<Rightarrow> 'd mtp \<Rightarrow> bool" where
  "cache_holds content handle t \<longleftrightarrow>
     (\<forall>c. mt_cache t = Some c \<longrightarrow> rc_handle c = handle \<longrightarrow> part_of content (rc_start c) (rc_data c))"

text \<open>
  A device that answers honestly: in the states \<open>good\<close>, a request for \<open>n\<close> bytes inside the object
  gives some of the bytes that stand there, and the cache is as it was.
\<close>

definition honest_reads ::
    "('d mtp \<Rightarrow> bool) \<Rightarrow> bytes \<Rightarrow> (nat \<Rightarrow> nat \<Rightarrow> ('d, bytes) be) \<Rightarrow> bool" where
  "honest_reads good content pr \<longleftrightarrow>
     (\<forall>at n t. good t \<longrightarrow> 0 < n \<longrightarrow> at + n \<le> length content \<longrightarrow>
        (\<exists>d t'. pr at n t = (Inr d, t') \<and> d \<noteq> [] \<and> part_of content at d
           \<and> mt_cache t' = mt_cache t \<and> good t'))
   \<and> (\<forall>t c. good t \<longrightarrow> good (t\<lparr>mt_cache := c\<rparr>))"

lemma honest_reads_step:
  assumes "honest_reads good content pr" and "good t" and "0 < n" and "at + n \<le> length content"
  obtains d t' where "pr at n t = (Inr d, t')" and "d \<noteq> []" and "part_of content at d"
    and "mt_cache t' = mt_cache t" and "good t'"
  using assms unfolding honest_reads_def by blast

lemma part_of_prefix: "part_of content at (take n (drop at content))"
  unfolding part_of_def by (cases "n \<le> length (drop at content)") simp_all

lemma part_of_append:
  assumes "part_of content at d" and "part_of content (at + length d) d'"
  shows "part_of content at (d @ d')"
proof -
  have "take (length d + length d') (drop at content)
      = take (length d) (drop at content) @ take (length d') (drop (at + length d) content)"
    by (simp add: take_add add.commute)
  then show ?thesis using assms by (simp add: part_of_def)
qed

lemma part_of_take:
  assumes "part_of content at d"
  shows "part_of content at (take n d)"
proof -
  have "take n d = take (min n (length d)) (drop at content)"
    using arg_cong [OF assms [unfolded part_of_def], of "take n"] by simp
  then show ?thesis by (simp only: part_of_prefix)
qed

lemma part_of_length: "part_of content at d \<Longrightarrow> d \<noteq> [] \<Longrightarrow> at + length d \<le> length content"
  unfolding part_of_def by (cases d) (auto dest!: arg_cong [of _ _ length])

lemma cache_get_part:
  assumes "part_of content (rc_start c) (rc_data c)" and "rc_handle c = h"
    and "cache_get c h at n = Some bs"
  shows "part_of content at bs" and "length bs \<le> n"
proof -
  let ?k = "at - rc_start c"
  have at: "rc_start c \<le> at" "?k < length (rc_data c)"
      "bs = take (min (?k + n) (length (rc_data c)) - ?k) (drop ?k (rc_data c))"
    using assms(3) by (auto simp: cache_get_def Let_def split: if_splits)
  have "drop ?k (rc_data c) = take (length (rc_data c) - ?k) (drop at content)"
  proof -
    have "drop ?k (rc_data c) = drop ?k (take (length (rc_data c)) (drop (rc_start c) content))"
      using assms(1) by (simp add: part_of_def)
    then show ?thesis using at(1) by (simp add: drop_take)
  qed
  then have "part_of content at (drop ?k (rc_data c))" by (simp only: part_of_prefix)
  then show "part_of content at bs" unfolding at(3) by (rule part_of_take)
  show "length bs \<le> n" unfolding at(3) by simp
qed

lemma read_loop_slice:
  assumes honest: "honest_reads good content rd"
  shows "good t \<Longrightarrow> cache_holds content handle t \<Longrightarrow> offset + want \<le> length content
    \<Longrightarrow> part_of content offset out \<Longrightarrow> length out \<le> want \<Longrightarrow>
    \<exists>t'. read_loop rd handle offset want (length content) out t
        = (Inr (take want (drop offset content)), t') \<and> good t' \<and> cache_holds content handle t'"
proof (induction "want - length out" arbitrary: out t rule: less_induct)
  case less
  show ?case
  proof (cases "want \<le> length out")
    case True
    then have "out = take want (drop offset content)"
      using less.prems(4,5) unfolding part_of_def by simp
    then show ?thesis using True less.prems by (subst read_loop.simps) simp
  next
    case False
    let ?at = "offset + length out" and ?need = "want - length out"
    show ?thesis
    proof (cases "Option.bind (mt_cache t) (\<lambda>c. cache_get c handle ?at ?need)")
      case (Some bs)
      then obtain c where c: "mt_cache t = Some c" "cache_get c handle ?at ?need = Some bs"
        by (auto simp: bind_eq_Some_conv)
      then have h: "rc_handle c = handle" by (auto simp: cache_get_def split: if_splits)
      have bs: "part_of content ?at bs" "length bs \<le> ?need"
        using cache_get_part [OF _ h c(2)] less.prems(2) c(1) h by (auto simp: cache_holds_def)
      have "want - length (out @ bs) < want - length out" using hit_progress [OF Some False refl] by simp
      from less.hyps [OF this less.prems(1-3)] bs
      have "\<exists>t'. read_loop rd handle offset want (length content) (out @ bs) t
        = (Inr (take want (drop offset content)), t') \<and> good t' \<and> cache_holds content handle t'"
        using part_of_append [OF less.prems(4) bs(1)] False by simp
      moreover have "read_loop rd handle offset want (length content) out t
          = read_loop rd handle offset want (length content) (out @ bs) t"
        using False Some by (subst read_loop.simps) (simp add: Let_def)
      ultimately show ?thesis by simp
    next
      case None
      let ?ask = "min (max ?need READ_AHEAD) (length content - ?at)"
      have ask: "0 < ?ask" "?at + ?ask \<le> length content" using False less.prems(3) by auto
      obtain d t1 where d: "rd ?at ?ask t = (Inr d, t1)" "d \<noteq> []" "part_of content ?at d"
          "good t1"
        using honest_reads_step [OF honest less.prems(1) ask] by blast
      let ?t2 = "t1\<lparr>mt_cache := Some \<lparr>rc_handle = handle, rc_start = ?at, rc_data = d\<rparr>\<rparr>"
      let ?out = "out @ take (min ?need (length d)) d"
      have step: "read_loop rd handle offset want (length content) out t
          = read_loop rd handle offset want (length content) ?out ?t2"
        using False None d(1,2) by (subst read_loop.simps) (simp add: Let_def)
      have "want - length ?out < want - length out"
        using read_progress [OF d(2) False refl] by simp
      moreover have "good ?t2" using honest d(4) by (simp add: honest_reads_def)
      moreover have "cache_holds content handle ?t2" using d(3) by (simp add: cache_holds_def)
      moreover have "part_of content offset ?out"
        using part_of_append [OF less.prems(4) part_of_take [OF d(3)]] .
      moreover have "length ?out \<le> want" using False by simp
      ultimately show ?thesis unfolding step using less.hyps less.prems(3) by blast
    qed
  qed
qed

text \<open>The workaround for the last packet keeps a device honest.\<close>

lemma read_whole_packets_honest:
  assumes honest: "honest_reads good content pr" and packet: "\<And>t. good t \<Longrightarrow> mt_packet t \<noteq> 1"
  shows "honest_reads good content (\<lambda>at n. read_whole_packets pr at n (length content))"
  unfolding honest_reads_def
proof (intro conjI allI impI)
  fix at n and t :: "'a mtp"
  assume t: "good t" and n: "0 < n" "at + n \<le> length content"
  obtain first short where s: "split_final_read at n (length content) (mt_packet t) = (first, short)"
    by fastforce
  have one: "mt_packet t \<noteq> 0 \<Longrightarrow> 1 mod mt_packet t = 1" using packet [OF t] by simp
  have "mt_packet t \<noteq> 0 \<and> n mod mt_packet t = 0 \<and> first = n - 1 \<or> first = n \<and> \<not> short"
    using s by (simp add: split_final_read_def Let_def split: if_splits)
  then have fs: "0 < first \<and> first \<le> n \<and> (short \<longrightarrow> first + 1 = n)"
  proof (elim disjE conjE)
    assume "mt_packet t \<noteq> 0" "n mod mt_packet t = 0" and f: "first = n - 1"
    then have "n \<noteq> 1" using one by auto
    then show ?thesis using f n(1) by simp
  next
    assume "first = n" "\<not> short"
    then show ?thesis using n(1) by simp
  qed
  have "0 < first" "at + first \<le> length content" using fs n by auto
  then obtain d t1 where d: "pr at first t = (Inr d, t1)" "d \<noteq> []" "part_of content at d"
      "mt_cache t1 = mt_cache t" "good t1"
    using honest_reads_step [OF honest t] by blast
  show "\<exists>d t'. read_whole_packets pr at n (length content) t = (Inr d, t') \<and> d \<noteq> [] \<and>
      part_of content at d \<and> mt_cache t' = mt_cache t \<and> good t'"
  proof (cases "short \<and> length d = first")
    case True
    then have "at + first + 1 \<le> length content" using fs n by simp
    then obtain d' t2 where d': "pr (at + first) 1 t1 = (Inr d', t2)" "part_of content (at + first) d'"
      "mt_cache t2 = mt_cache t1" "good t2"
      using honest_reads_step [OF honest d(5) zero_less_one] by metis
    have "part_of content at (d @ d')" using part_of_append d(3) d'(2) True by blast
    then show ?thesis
      using True s d d' by (auto simp: read_whole_packets_def and_then_def)
  next
    case False
    then show ?thesis using s d by (auto simp: read_whole_packets_def)
  qed
next
  fix t :: "'a mtp" and c
  assume "good t"
  then show "good (t\<lparr>mt_cache := c\<rparr>)" using honest by (simp add: honest_reads_def)
qed

theorem read_at_slice:
  assumes honest: "honest_reads good content (partial_read T handle)"
    and packet: "\<And>t. good t \<Longrightarrow> mt_packet t \<noteq> 1"
    and t: "good t" "cache_holds content handle t"
  shows "\<exists>t'. read_at T handle offset want (length content) t
      = (Inr (take want (drop offset content)), t') \<and> good t' \<and> cache_holds content handle t'"
proof (cases "want = 0 \<or> offset \<ge> length content")
  case True
  then show ?thesis using t by (auto simp: read_at_def read_at_with_def)
next
  case False
  let ?w = "min want (length content - offset)"
  have "take ?w (drop offset content) = take want (drop offset content)"
    by (simp add: min_def)
  moreover have "\<exists>t'. read_loop (\<lambda>at ask. read_from_device T handle at ask (length content)) handle offset ?w
      (length content) [] t = (Inr (take ?w (drop offset content)), t')
      \<and> good t' \<and> cache_holds content handle t'"
    unfolding read_from_device_def
    by (rule read_loop_slice [OF read_whole_packets_honest [OF honest packet] t])
       (use False in \<open>auto simp: part_of_def\<close>)
  ultimately show ?thesis using False by (simp add: read_at_def read_at_with_def)
qed

section \<open>The requests\<close>

text \<open>
  A request that reaches the end of the file is never a whole number of packets, and the two
  requests of a split one cover what was wanted.
\<close>

lemma split_final_read_safe:
  assumes "split_final_read offset want file_size packet = (first, short)" and "1 < packet"
    and "offset + want \<le> u64_max" and "offset + want = file_size"
  shows "offset + first = file_size \<longrightarrow> first = 0 \<or> first mod packet \<noteq> 0"
    and "short \<longrightarrow> 1 mod packet \<noteq> 0 \<and> first + 1 = want"
    and "\<not> short \<longrightarrow> first = want"
  using assms by (auto simp: split_final_read_def Let_def split: if_splits)

lemma split_final_read_inside:
  assumes "offset + want < file_size" and "file_size \<le> u64_max"
  shows "split_final_read offset want file_size packet = (want, False)"
  using assms by (simp add: split_final_read_def)

lemma partial_params_64:
  assumes "offset < 2 ^ 64" and "want < 2 ^ 32"
  shows "\<exists>lo hi w. partial_params GET_PARTIAL_OBJECT_64 h offset want = [h, lo, hi, w]
    \<and> unat lo + 2 ^ 32 * unat hi = offset \<and> unat w = want"
proof -
  have "offset div 2 ^ 32 < 2 ^ 32" using assms(1) by (simp add: less_mult_imp_div_less)
  then have "unat (word_of_nat (offset div 2 ^ 32) :: u32) = offset div 2 ^ 32"
    by (simp add: unat_of_nat)
  moreover have "unat (word_of_nat (offset mod 2 ^ 32) :: u32) = offset mod 2 ^ 32"
    by (simp add: unat_of_nat)
  moreover have "unat (word_of_nat want :: u32) = want" using assms(2) by (simp add: unat_of_nat)
  ultimately show ?thesis by (simp add: partial_params_def)
qed

lemma partial_params_32:
  "partial_params GET_PARTIAL_OBJECT h (offset + 2 ^ 32) want = partial_params GET_PARTIAL_OBJECT h offset want"
proof -
  have "(word_of_nat (offset + 2 ^ 32) :: u32) = word_of_nat offset"
    by (simp add: word_unat_eq_iff unat_of_nat del: of_nat_add)
  then show ?thesis by (simp add: partial_params_def GET_PARTIAL_OBJECT_def GET_PARTIAL_OBJECT_64_def)
qed

section \<open>The cache\<close>

lemma on_session_cases:
  "on_session m t = (r, t') \<Longrightarrow> (\<exists>s'. t' = t\<lparr>mt_session := s'\<rparr>)"
  by (auto simp: on_session_def split: prod.splits sum.splits)

lemma on_session_Inl: "on_session m t = (Inl e, t') \<Longrightarrow> \<exists>x. e = BeSession x"
  by (auto simp: on_session_def split: prod.splits sum.splits)

lemma changes_drop_cache:
  assumes "operation_that_changes T step code ps t = (r, t')"
  shows "mt_cache t' = None \<or> (\<exists>e. r = Inl (BeSession e)) \<and> mt_cache t' = mt_cache t"
proof -
  obtain x t1 where x: "on_session (operation T step code ps) t = (x, t1)" by fastforce
  have t1: "mt_cache t1 = mt_cache t" using on_session_cases [OF x] by auto
  show ?thesis
    using assms x t1 on_session_Inl [of "operation T step code ps" t]
    by (cases x) (auto simp: operation_that_changes_def drop_cache_def check_outcome_def and_then_def split: if_splits)
qed

lemma sending_drops_cache:
  assumes "sending_data T step code ps payload t = (r, t')"
  shows "mt_cache t' = None \<or> (\<exists>e. r = Inl (BeSession e)) \<and> mt_cache t' = mt_cache t"
proof -
  obtain x t1 where x: "on_session (operation_with_data T step code ps payload) t = (x, t1)" by fastforce
  have t1: "mt_cache t1 = mt_cache t" using on_session_cases [OF x] by auto
  show ?thesis
    using assms x t1 on_session_Inl [of "operation_with_data T step code ps payload" t]
    by (cases x) (auto simp: sending_data_def drop_cache_def check_outcome_def and_then_def split: if_splits)
qed

section \<open>The size a file may have\<close>

lemma send_object_stream_too_large:
  "MAX_PAYLOAD_LEN < sz \<Longrightarrow> send_object_stream T R parent name sz s = (Inl (BeTooLarge sz), s)"
  by (simp add: send_object_stream_def)

lemma accepted_size_fits:
  assumes "\<not> MAX_PAYLOAD_LEN < sz"
  shows "unat (word_of_nat sz :: u32) = sz" and "\<exists>len. container_length sz = Inr len \<and> unat len = HEADER_LEN + sz"
proof -
  show "unat (word_of_nat sz :: u32) = sz"
    using assms by (simp add: unat_of_nat MAX_PAYLOAD_LEN_def u32_max_def HEADER_LEN_def)
  obtain len where "container_length sz = Inr len" using container_length_Inr_iff assms by (metis not_less)
  then show "\<exists>len. container_length sz = Inr len \<and> unat len = HEADER_LEN + sz"
    using unat_container_length(1) by blast
qed

section \<open>Listings\<close>

lemma entries_of_records_Inr:
  "entries_of_records parent rs = Inr es \<Longrightarrow>
     map en_handle es = map pr_handle rs
     \<and> (\<forall>e\<in>set es. en_parent e = parent \<and> en_name e \<noteq> [])"
  by (induction rs arbitrary: es) (auto split: if_splits sum.splits)

lemma list_by_properties_entries:
  assumes "list_by_properties T parent t = (Inr es, t')"
  shows "distinct (map en_handle es)
    \<and> (\<forall>e\<in>set es. en_parent e = parent \<and> en_name e \<noteq> [] \<and> en_handle e \<noteq> parent)"
proof -
  have arg: "(if parent = TREE_ROOT then 0 else parent) = parent" by (simp add: TREE_ROOT_def)
  obtain ps where es: "entries_of_records parent (drop_the_folder (fold_prop_list ps) parent) = Inr es"
    using assms unfolding list_by_properties_def Let_def arg by (auto simp: and_then_Inr_iff)
  have "distinct (map pr_handle (fold_prop_list ps))"
    by (simp add: fold_prop_list_eq prop_list_spec_def comp_def distinct_first_handles)
  then have "distinct (map pr_handle (drop_the_folder (fold_prop_list ps) parent))"
    by (simp add: drop_the_folder_def distinct_map_filter)
  moreover have "h \<noteq> parent" if "h \<in> set (map pr_handle (drop_the_folder (fold_prop_list ps) parent))" for h
    using that by (auto simp: drop_the_folder_def)
  moreover note entries_of_records_Inr [OF es]
  ultimately show ?thesis by (metis image_eqI list.set_map)
qed

lemma yields_top: "yields m (\<lambda>_. True) (\<lambda>_. True)"
  by (rule yieldsI) simp_all

lemma object_infos_yields:
  "yields (object_infos T parent hs) (\<lambda>es. \<forall>e\<in>set es. en_parent e = parent) (\<lambda>_. True)"
proof (induction hs)
  case Nil
  then show ?case by (simp add: yields_ok del: ok_apply)
next
  case (Cons h hs)
  show ?case
    unfolding object_infos.simps
    by (rule yields_and_then [OF yields_top], rule yields_and_then [OF Cons.IH])
       (auto intro!: yields_ok split: sum.split)
qed

lemmas object_infos_parent = yieldsD(2) [OF object_infos_yields, rule_format]

lemma be_list_parent:
  assumes "be_list T parent t = (Inr es, t')"
  shows "\<forall>e\<in>set es. en_parent e = parent"
proof -
  have one: "\<forall>e\<in>set es. en_parent e = parent"
    if "list_one_at_a_time T parent u = (Inr es, t')" for u
    using that by (auto simp: list_one_at_a_time_def Let_def and_then_Inr_iff dest: object_infos_parent)
  show ?thesis
    using assms one list_by_properties_entries [of T parent t es t']
    by (auto simp: be_list_def split: if_splits prod.splits sum.splits)
qed

section \<open>Properties\<close>

text \<open>
  C25: a request that reaches the end of the file never asks for a whole number of packets, which
  stops some devices, and the requests of a split one together cover exactly what was wanted; a
  request inside the file is left alone.
\<close>

theorem final_read_never_whole_packets:
  assumes "split_final_read offset want file_size packet = (first, short)" and "1 < packet"
    and "offset + want \<le> file_size" and "file_size \<le> u64_max"
  shows "(if short then first + 1 = want else first = want)
    \<and> (offset + want < file_size \<longrightarrow> \<not> short)
    \<and> (offset + want = file_size \<longrightarrow> want = 0 \<or> short \<or> first mod packet \<noteq> 0)"
  using assms split_final_read_inside [of offset want file_size packet]
  by (auto simp: split_final_read_def Let_def split: if_splits)

lemma final_read_never_whole_packets_witness:
  "split_final_read 306688 512 307200 512 = (511, True) \<and> 511 + 1 = (512 :: nat)"
proof -
  have "split_final_read 306688 512 307200 512 = (511, True)"
    by (simp add: split_final_read_def u64_max_def)
  then show ?thesis using final_read_never_whole_packets [of 306688 512 307200 512 511 True]
    by (simp add: u64_max_def)
qed

text \<open>
  C30: the request with a 64 bit offset carries the whole offset, in two words; the older request
  carries the low 32 bits alone, so on a device without the newer operation a read past 4 GiB
  asks for the bytes 4 GiB before.
\<close>

theorem partial_params_offset:
  assumes "offset < 2 ^ 64" and "want < 2 ^ 32"
  shows "(\<exists>lo hi w. partial_params GET_PARTIAL_OBJECT_64 h offset want = [h, lo, hi, w]
      \<and> unat lo + 2 ^ 32 * unat hi = offset \<and> unat w = want)
    \<and> partial_params GET_PARTIAL_OBJECT h (offset + 2 ^ 32) want = partial_params GET_PARTIAL_OBJECT h offset want"
  using partial_params_64 [OF assms] partial_params_32 by blast

lemma partial_params_offset_witness:
  "partial_params GET_PARTIAL_OBJECT 7 (5 + 2 ^ 32) 512 = partial_params GET_PARTIAL_OBJECT 7 5 512"
  using partial_params_offset [of 5 512 7] by simp

text \<open>
  The guard on the size of an object is exact: a size the length field of the data container
  cannot count is refused before anything goes to the device, and a size that passes is the size
  the dataset announces and the container declares, with no wrap.
\<close>

theorem send_size_guard:
  "if MAX_PAYLOAD_LEN < sz then send_object_stream T R parent name sz s = (Inl (BeTooLarge sz), s)
   else unat (word_of_nat sz :: u32) = sz
     \<and> (\<exists>len. container_length sz = Inr len \<and> unat len = HEADER_LEN + sz)"
proof (cases "MAX_PAYLOAD_LEN < sz")
  case True
  then show ?thesis by (simp add: send_object_stream_too_large)
next
  case False
  then show ?thesis using accepted_size_fits [OF False] by simp
qed

text \<open>
  A change that reached the device leaves no cached bytes behind, whether the device accepted
  it or not; when the session itself fails, the cache stays as it was.
\<close>

theorem changes_forget_cache:
  "case operation_that_changes T step code ps t of (r, t') \<Rightarrow>
     (case r of Inl (BeSession e) \<Rightarrow> mt_cache t' = mt_cache t | _ \<Rightarrow> mt_cache t' = None)"
  by (auto simp: operation_that_changes_def and_then_def on_session_def drop_cache_def check_outcome_def
      split: prod.split sum.split be_error.split)

end
