(* ===== verification/Mtpfs_Requests.thy ===== *)
theory Mtpfs_Requests
  imports Mtpfs_Backend Mtp_Session_Life
begin

text \<open>
  How many requests a read makes. A device may answer a request for part of an object with fewer
  bytes than were asked, so the read asks again; every answer that is not empty brings it nearer to
  its end, and the transaction numbers of the session count what was asked.
\<close>

section \<open>Counting requests\<close>

definition requests :: "nat \<Rightarrow> 'd mtp \<Rightarrow> 'd mtp \<Rightarrow> bool" where
  "requests n s t \<longleftrightarrow>
     (\<exists>k\<le>n. ses_transaction (mt_session t) = ses_transaction (mt_session s) + word_of_nat k)"

lemma requests_none: "ses_transaction (mt_session t) = ses_transaction (mt_session s) \<Longrightarrow> requests n s t"
  unfolding requests_def by (intro exI [of _ 0]) simp

lemma requests_trans: "requests m s t \<Longrightarrow> requests n t u \<Longrightarrow> requests (m + n) s u"
  unfolding requests_def
proof (elim exE conjE)
  fix j k
  assume "j \<le> m" "k \<le> n"
    and "ses_transaction (mt_session t) = ses_transaction (mt_session s) + word_of_nat j"
    and "ses_transaction (mt_session u) = ses_transaction (mt_session t) + word_of_nat k"
  then show "\<exists>i\<le>m + n. ses_transaction (mt_session u) = ses_transaction (mt_session s) + word_of_nat i"
    by (intro exI [of _ "j + k"]) simp
qed

lemma requests_mono: "requests m s t \<Longrightarrow> m \<le> n \<Longrightarrow> requests n s t"
  unfolding requests_def by (meson order_trans)

lemma counts_then:
  assumes "keeps (requests m) a" and "\<And>x. keeps (requests n) (f x)"
  shows "keeps (requests (m + n)) (and_then a f)"
proof (rule keepsI)
  fix s r u
  assume run: "and_then a f s = (r, u)"
  obtain x t where x: "a s = (x, t)" by fastforce
  have "requests m s t" using keepsD [OF assms(1) x] .
  then show "requests (m + n) s u"
    using run x keepsD [OF assms(2)] requests_trans requests_mono
    by (cases x) (fastforce simp: and_then_def)+
qed

lemma counts_still: "(\<And>s. ses_transaction (mt_session (snd (a s))) = ses_transaction (mt_session s)) \<Longrightarrow> keeps (requests n) a"
  by (rule keepsI) (metis requests_none snd_conv)

lemma counts_leaf:
  "keeps (requests n) (ok x)" "keeps (requests n) (err e)" "keeps (requests n) (gets h)"
  "keeps (requests n) (check_outcome nm out)"
  by (rule counts_still; simp add: gets_def check_outcome_def)+

section \<open>The requests of a read\<close>

lemma counts_operation: "keeps (requests 1) (be_operation T nm code params)"
proof -
  have "keeps (requests 1) (on_session (operation T nm code params))"
    by (rule keepsI)
       (auto simp: on_session_def requests_def dest!: operation_transaction split: prod.splits sum.splits
         intro!: exI [of _ 1])
  then have "keeps (requests (1 + 0)) (be_operation T nm code params)"
    unfolding be_operation_def
    by (rule counts_then) (metis add.right_neutral counts_leaf(1,4) counts_then)
  then show ?thesis by simp
qed

lemma counts_partial_read: "keeps (requests 1) (partial_read T handle offset want)"
  using counts_then [OF counts_leaf(3) counts_operation, of 0] by (simp add: partial_read_def)

lemma counts_from_device: "keeps (requests 2) (read_from_device T handle offset want sz)"
proof -
  have tail: "keeps (requests 1)
      (if c then and_then (partial_read T handle at n) (\<lambda>tail. ok (data @ tail)) else ok data)" for c at n data
  proof (cases c)
    case True
    have "keeps (requests (1 + 0)) (and_then (partial_read T handle at n) (\<lambda>tail. ok (data @ tail)))"
      by (rule counts_then [OF counts_partial_read counts_leaf(1)])
    then show ?thesis using True by simp
  next
    case False
    show ?thesis unfolding if_not_P [OF False] by (rule counts_leaf(1))
  qed
  have "keeps (requests (1 + 1)) (and_then (partial_read T handle offset n) (\<lambda>data.
      if c data then and_then (partial_read T handle at 1) (\<lambda>tail. ok (data @ tail)) else ok data))" for n c at
    by (rule counts_then [OF counts_partial_read tail])
  then have "keeps (requests (0 + (1 + 1))) (read_from_device T handle offset want sz)"
    unfolding read_from_device_def read_whole_packets_def case_prod_beta
    by (intro counts_then [OF counts_leaf(3)])
  then show ?thesis by (simp add: numeral_2_eq_2)
qed

lemma counts_read_loop:
  assumes "\<And>at ask. keeps (requests 2) (rd at ask)"
  shows "requests (2 * (want - length out)) t (snd (read_loop rd handle offset want sz out t))"
  using assms
proof (induction rd handle offset want sz out t rule: read_loop.induct)
  case (1 rd handle offset want sz out t)
  show ?case
  proof (cases "want \<le> length out")
    case True
    then show ?thesis by (subst read_loop.simps) (simp add: requests_none)
  next
    case False
    let ?at = "offset + length out" and ?need = "want - length out"
    let ?ask = "min (max ?need READ_AHEAD) (sz - ?at)"
    show ?thesis
    proof (cases "Option.bind (mt_cache t) (\<lambda>c. cache_get c handle ?at ?need)")
      case (Some bs)
      have "requests (2 * (want - length (out @ bs))) t (snd (read_loop rd handle offset want sz (out @ bs) t))"
        using "1.IH"(2) [OF False refl refl Some "1.prems"] .
      then show ?thesis
        using Some False by (subst read_loop.simps) (simp add: Let_def, rule requests_mono, auto)
    next
      case None
      obtain a t1 where a: "rd ?at ?ask t = (a, t1)" by fastforce
      have t1: "requests 2 t t1" using keepsD [OF "1.prems" a] .
      have stop: "requests (2 * ?need) t t1" using requests_mono [OF t1] False by simp
      show ?thesis
      proof (cases "\<exists>data. a = Inr data \<and> data \<noteq> []")
        case False': False
        then show ?thesis using a stop False None by (subst read_loop.simps) (auto simp: Let_def split: sum.split)
      next
        case True
        then obtain data where data: "a = Inr data" "data \<noteq> []" by blast
        let ?t = "t1\<lparr>mt_cache := Some \<lparr>rc_handle = handle, rc_start = ?at, rc_data = data\<rparr>\<rparr>"
        let ?out = "out @ take (min ?need (length data)) data"
        have "requests (2 * (want - length ?out)) ?t (snd (read_loop rd handle offset want sz ?out ?t))"
          using "1.IH"(1) [OF False refl refl None refl refl a [symmetric] data "1.prems"] .
        moreover have "requests 2 t ?t" using t1 by (simp add: requests_def)
        ultimately have "requests (2 + 2 * (want - length ?out)) t
            (snd (read_loop rd handle offset want sz ?out ?t))" by (rule requests_trans [rotated])
        then have "requests (2 * ?need) t (snd (read_loop rd handle offset want sz ?out ?t))"
          by (rule requests_mono) (use read_progress [OF data(2) False refl] in simp)
        then show ?thesis using a False None data by (subst read_loop.simps) (simp add: Let_def)
      qed
    qed
  qed
qed

text \<open>
  C38: a read ends, and makes at most two requests for every byte it wants, however the device
  answers: short answers, empty answers and answers longer than was asked are all allowed. The
  session counts its requests in the transaction number.
\<close>

theorem read_at_requests:
  "\<exists>k\<le>2 * want. ses_transaction (mt_session (snd (read_at T handle offset want sz t)))
     = ses_transaction (mt_session t) + word_of_nat k"
proof -
  have "requests (2 * want) t (snd (read_at T handle offset want sz t))"
  proof (cases "want = 0 \<or> offset \<ge> sz")
    case True
    then show ?thesis by (simp add: read_at_def read_at_with_def requests_none)
  next
    case False
    let ?want = "min want (sz - offset)"
    have "requests (2 * (?want - length ([] :: bytes))) t
        (snd (read_loop (\<lambda>at ask. read_from_device T handle at ask sz) handle offset ?want sz [] t))"
      by (rule counts_read_loop, rule counts_from_device)
    then show ?thesis using False by (auto simp: read_at_def read_at_with_def intro: requests_mono)
  qed
  then show ?thesis by (simp add: requests_def)
qed

end
