(* ===== verification/Mtpfs_Fs.thy ===== *)
theory Mtpfs_Fs
  imports Mtpfs_Backend
begin

text \<open>
  The filesystem, \<open>crates/mtpfs/src/main.rs\<close>: the callbacks FUSE calls, and the state they
  share. The calls on the backend are the record \<open>service\<close>, whose value for the program is
  \<open>mtp_service\<close>; the spool files of the host are the record \<open>host\<close>. A callback is an operation
  on the state whose fault is the negative number FUSE gets; what a callback writes through a
  pointer (a stat buffer, names, bytes, a file handle) is its value.
\<close>

unbundle bit_operations_syntax

section \<open>Numbers FUSE and the host agree on\<close>

definition ENOENT :: int where "ENOENT = 2"
definition EIO :: int where "EIO = 5"
definition EISDIR :: int where "EISDIR = 21"
definition ENOTDIR :: int where "ENOTDIR = 20"
definition EROFS :: int where "EROFS = 30"
definition ENOTSUP :: int where "ENOTSUP = 45"
definition ENOSPC :: int where "ENOSPC = 28"

lemmas errnos = ENOENT_def EIO_def EISDIR_def ENOTDIR_def EROFS_def ENOTSUP_def ENOSPC_def

definition ACCMODE :: u32 where "ACCMODE = 0x0003"
definition WRONLY :: u32 where "WRONLY = 0x0001"
definition RDWR :: u32 where "RDWR = 0x0002"
definition TRUNC :: u32 where "TRUNC = 0x0400"

definition oflag_writes :: "u32 \<Rightarrow> bool" where
  "oflag_writes flags \<longleftrightarrow> flags AND ACCMODE = WRONLY \<or> flags AND ACCMODE = RDWR"

definition FH_WRITER :: u64 where "FH_WRITER = push_bit 32 1"

definition fh_handle :: "u64 \<Rightarrow> u32" where
  "fh_handle fh = ucast (fh AND 0xffffffff)"

text \<open>\<open>None\<close> is a null \<open>fuse_file_info\<close>.\<close>

definition fh_writes :: "u64 option \<Rightarrow> bool" where
  "fh_writes fi = (case fi of None \<Rightarrow> True | Some fh \<Rightarrow> fh AND FH_WRITER \<noteq> 0)"

definition MODE_DIR :: nat where "MODE_DIR = 16877"
definition MODE_FILE :: nat where "MODE_FILE = 33188"
definition READ_CHUNK :: nat where "READ_CHUNK = 1024 * 1024"
definition MAX_WALK :: nat where "MAX_WALK = 64"

section \<open>The command line\<close>

definition OPTIONS_WITH_VALUE :: "ustring list" where
  "OPTIONS_WITH_VALUE = [lit ''-o'']"

definition starts_with_dash :: "ustring \<Rightarrow> bool" where
  "starts_with_dash a \<longleftrightarrow> (case a of c # cs \<Rightarrow> c = 45 | [] \<Rightarrow> False)"

text \<open>The names, and the arguments for FUSE.\<close>

fun split_args :: "ustring list \<Rightarrow> ustring list \<times> ustring list" where
  "split_args [] = ([], [])"
| "split_args [a] = (if starts_with_dash a then ([], [a]) else ([a], []))"
| "split_args (a # b # args) =
     (if starts_with_dash a then
        (if a \<in> set OPTIONS_WITH_VALUE
         then (case split_args args of (ps, fs) \<Rightarrow> (ps, a # b # fs))
         else (case split_args (b # args) of (ps, fs) \<Rightarrow> (ps, a # fs)))
      else (case split_args (b # args) of (ps, fs) \<Rightarrow> (a # ps, fs)))"

section \<open>What the callbacks call\<close>

type_synonym os_error = "int option"

record ('m, 'h) service =
  sv_list :: "u32 \<Rightarrow> ('m, be_error, entry list) sm"
  sv_read_at :: "u32 \<Rightarrow> nat \<Rightarrow> nat \<Rightarrow> nat \<Rightarrow> ('m, be_error, bytes) sm"
  sv_send_object :: "u32 \<Rightarrow> ustring \<Rightarrow> bytes \<Rightarrow> bool \<Rightarrow> ('m, be_error, u32) sm"
  sv_send_stream :: "'h io_reader \<Rightarrow> u32 \<Rightarrow> ustring \<Rightarrow> nat \<Rightarrow> ('m \<times> 'h, be_error, u32) sm"
  sv_storage_info :: "('m, be_error, u64 \<times> u64) sm"
  sv_rename :: "u32 \<Rightarrow> ustring \<Rightarrow> ('m, be_error, unit) sm"
  sv_move :: "u32 \<Rightarrow> u32 \<Rightarrow> ('m, be_error, unit) sm"
  sv_delete :: "u32 \<Rightarrow> ('m, be_error, unit) sm"
  sv_can_rename :: "'m \<Rightarrow> bool"
  sv_can_move :: "'m \<Rightarrow> bool"

definition mtp_service :: "'d transport \<Rightarrow> ('d mtp, 'h) service" where
  "mtp_service T =
     \<lparr>sv_list = be_list T, sv_read_at = read_at T, sv_send_object = send_object T,
      sv_send_stream = send_object_stream T, sv_storage_info = storage_space T,
      sv_rename = rename_object T, sv_move = move_object T, sv_delete = delete_object T,
      sv_can_rename = can_rename, sv_can_move = can_move\<rparr>"

text \<open>
  The spool files, each named by its number. \<open>ho_create\<close> opens with truncation, \<open>ho_write_all\<close>
  and \<open>ho_read\<close> work at the cursor of the file and move it, \<open>ho_write_at\<close> and \<open>ho_read_at\<close> at an
  offset. \<open>ho_free\<close> is the answer of \<open>free_bytes\<close> for the spool folder.
\<close>

record 'h host =
  ho_create :: "u64 \<Rightarrow> ('h, os_error, unit) sm"
  ho_write_at :: "u64 \<Rightarrow> bytes \<Rightarrow> nat \<Rightarrow> ('h, os_error, nat) sm"
  ho_write_all :: "u64 \<Rightarrow> bytes \<Rightarrow> ('h, os_error, unit) sm"
  ho_read_at :: "u64 \<Rightarrow> nat \<Rightarrow> nat \<Rightarrow> ('h, os_error, bytes) sm"
  ho_set_len :: "u64 \<Rightarrow> nat \<Rightarrow> ('h, os_error, unit) sm"
  ho_rewind :: "u64 \<Rightarrow> ('h, os_error, unit) sm"
  ho_read :: "u64 \<Rightarrow> 'h io_reader"
  ho_remove :: "u64 \<Rightarrow> 'h \<Rightarrow> 'h"
  ho_free :: "'h \<Rightarrow> nat option"

section \<open>The state\<close>

record pending =
  pn_parent :: u32
  pn_name :: ustring
  pn_spool :: u64
  pn_size :: nat
  pn_sent :: "int option"
  pn_replaces :: "u32 option"
  pn_broken :: "int option"
  pn_keep_spool :: bool

text \<open>\<open>fs_count\<close> is the counter \<open>SPOOL_COUNT\<close> of spool files and of names that move aside.\<close>

record ('m, 'h) fs =
  fs_mtp :: 'm
  fs_tree :: tree
  fs_pending :: "ustring \<rightharpoonup> pending"
  fs_count :: u64
  fs_host :: 'h

type_synonym ('m, 'h, 'a) callback = "(('m, 'h) fs, int, 'a) sm"

datatype 'f fs_cell = Poisoned | Cell "'f option"

definition with_fs :: "int \<Rightarrow> ('f \<Rightarrow> int \<times> 'f) \<Rightarrow> 'f fs_cell \<Rightarrow> int \<times> 'f fs_cell" where
  "with_fs absent body cell =
     (case cell of
        Poisoned \<Rightarrow> (- EIO, Poisoned)
      | Cell None \<Rightarrow> (- absent, Cell None)
      | Cell (Some fs) \<Rightarrow> (case body fs of (rc, fs') \<Rightarrow> (rc, Cell (Some fs'))))"

text \<open>A call on the backend or on the host, in the state of the mount.\<close>

definition on_mtp :: "('m, be_error, 'a) sm \<Rightarrow> (('m, 'h) fs, be_error, 'a) sm" where
  "on_mtp m = (\<lambda>fs. case m (fs_mtp fs) of (r, m') \<Rightarrow> (r, fs\<lparr>fs_mtp := m'\<rparr>))"

definition on_host :: "('h, os_error, 'a) sm \<Rightarrow> (('m, 'h) fs, os_error, 'a) sm" where
  "on_host m = (\<lambda>fs. case m (fs_host fs) of (r, h') \<Rightarrow> (r, fs\<lparr>fs_host := h'\<rparr>))"

definition or_fail :: "int \<Rightarrow> ('s, 'e, 'a) sm \<Rightarrow> ('s, int, 'a) sm" where
  "or_fail rc m = map_err (\<lambda>_. - rc) m"

definition forget :: "u32 \<Rightarrow> (('m, 'h) fs, 'e, unit) sm" where
  "forget folder = modify (\<lambda>fs. fs\<lparr>fs_tree := forget_listing folder (fs_tree fs)\<rparr>)"

text \<open>\<open>let _ = e;\<close> and an error that only goes to the log.\<close>

definition ignoring :: "('s, 'e, 'a) sm \<Rightarrow> ('s, 'f, unit) sm" where
  "ignoring m = (\<lambda>s. (Inr (), snd (m s)))"

definition next_count :: "(('m, 'h) fs, 'e, u64) sm" where
  "next_count = (\<lambda>fs. (Inr (fs_count fs), fs\<lparr>fs_count := fs_count fs + 1\<rparr>))"

definition make_spool :: "'h host \<Rightarrow> (('m, 'h) fs, os_error, u64) sm" where
  "make_spool H = and_then next_count (\<lambda>n. and_then (on_host (ho_create H n)) (\<lambda>_. ok n))"

definition aside_name :: "ustring \<Rightarrow> (('m, 'h) fs, 'e, ustring) sm" where
  "aside_name name = and_then next_count (\<lambda>n. ok (name @ lit ''.bsdroid-old-'' @ decimal (unat n)))"

definition drop_pending :: "'h host \<Rightarrow> pending \<Rightarrow> ('m, 'h) fs \<Rightarrow> ('m, 'h) fs" where
  "drop_pending H p fs =
     (if pn_keep_spool p then fs else fs\<lparr>fs_host := ho_remove H (pn_spool p) (fs_host fs)\<rparr>)"

text \<open>An insert into the map drops the entry it replaces.\<close>

definition insert_pending :: "'h host \<Rightarrow> ustring \<Rightarrow> pending \<Rightarrow> ('m, 'h) fs \<Rightarrow> ('m, 'h) fs" where
  "insert_pending H path p fs =
     (case fs_pending fs path of
        None \<Rightarrow> fs\<lparr>fs_pending := (fs_pending fs)(path \<mapsto> p)\<rparr>
      | Some old \<Rightarrow> drop_pending H old (fs\<lparr>fs_pending := (fs_pending fs)(path \<mapsto> p)\<rparr>))"

definition remove_pending :: "ustring \<Rightarrow> ('m, 'h) fs \<Rightarrow> ('m, 'h) fs" where
  "remove_pending path fs = fs\<lparr>fs_pending := (fs_pending fs)(path := None)\<rparr>"

section \<open>Paths\<close>

definition split_parent :: "ustring \<Rightarrow> ustring \<times> ustring" where
  "split_parent path =
     (case rsplit_once 47 path of
        Some ([], name) \<Rightarrow> ([47], name)
      | Some (dir, name) \<Rightarrow> (dir, name)
      | None \<Rightarrow> ([47], path))"

fun resolve_rounds ::
    "('m, 'h) service \<Rightarrow> nat \<Rightarrow> ustring \<Rightarrow> ('m, 'h) fs \<Rightarrow> u32 option \<times> ('m, 'h) fs" where
  "resolve_rounds S 0 path fs = (None, fs)"
| "resolve_rounds S (Suc k) path fs =
     (case lookup (fs_tree fs) path of
        Found h \<Rightarrow> (Some h, fs)
      | NotFound \<Rightarrow> (None, fs)
      | NeedListing parent \<Rightarrow>
          (case on_mtp (sv_list S parent) fs of
             (Inl e, fs') \<Rightarrow> (None, fs')
           | (Inr es, fs') \<Rightarrow>
               resolve_rounds S k path (fs'\<lparr>fs_tree := set_children parent es (fs_tree fs')\<rparr>)))"

definition resolve ::
    "('m, 'h) service \<Rightarrow> ustring \<Rightarrow> ('m, 'h) fs \<Rightarrow> u32 option \<times> ('m, 'h) fs" where
  "resolve S path fs = resolve_rounds S MAX_WALK path fs"

definition resolved :: "('m, 'h) service \<Rightarrow> ustring \<Rightarrow> ('m, 'h, u32) callback" where
  "resolved S path = (\<lambda>fs. case resolve S path fs of
      (None, fs') \<Rightarrow> (Inl (- ENOENT), fs')
    | (Some h, fs') \<Rightarrow> (Inr h, fs'))"

text \<open>The entry of a file; a folder, the root and an unknown handle give \<open>EISDIR\<close>.\<close>

definition file_entry :: "u32 \<Rightarrow> ('m, 'h, entry) callback" where
  "file_entry handle = (\<lambda>fs. case tree_get (fs_tree fs) handle of
      Some e \<Rightarrow> if en_is_dir e then (Inl (- EISDIR), fs) else (Inr e, fs)
    | None \<Rightarrow> (Inl (- EISDIR), fs))"

section \<open>Attributes and listings\<close>

record stat =
  st_mode :: nat
  st_nlink :: nat
  st_size :: nat
  st_uid :: u32
  st_gid :: u32
  st_blocks :: nat
  st_blksize :: nat

definition op_getattr ::
    "('m, 'h) service \<Rightarrow> u32 \<times> u32 \<Rightarrow> ustring \<Rightarrow> ('m, 'h, stat) callback" where
  "op_getattr S owner path = (\<lambda>fs.
     case fs_pending fs path of
       Some p \<Rightarrow>
         (Inr \<lparr>st_mode = MODE_FILE, st_nlink = 1, st_size = pn_size p, st_uid = fst owner,
               st_gid = snd owner, st_blocks = 0, st_blksize = 65536\<rparr>, fs)
     | None \<Rightarrow>
         and_then (resolved S path) (\<lambda>handle fs.
           case (if handle = TREE_ROOT then Some (MODE_DIR, 0, 2)
                 else case tree_get (fs_tree fs) handle of
                     None \<Rightarrow> None
                   | Some e \<Rightarrow> if en_is_dir e then Some (MODE_DIR, 0, 2)
                              else Some (MODE_FILE, unat (en_size e), 1)) of
             None \<Rightarrow> (Inl (- ENOENT), fs)
           | Some (mode, sz, links) \<Rightarrow>
               (Inr \<lparr>st_mode = mode, st_nlink = links, st_size = sz, st_uid = fst owner,
                     st_gid = snd owner, st_blocks = (sz + 511) div 512, st_blksize = 65536\<rparr>, fs)) fs)"

definition directory_name :: "ustring \<Rightarrow> ustring" where
  "directory_name name = map (\<lambda>c. if c = 47 \<or> c = 0 then 95 else c) name"

text \<open>The value is the names the filler gets; \<open>filler\<close> says whether FUSE gave one.\<close>

definition op_readdir ::
    "('m, 'h) service \<Rightarrow> bool \<Rightarrow> ustring \<Rightarrow> ('m, 'h, ustring list) callback" where
  "op_readdir S filler path =
     and_then (resolved S path) (\<lambda>handle.
     and_then (\<lambda>fs. if is_listed (fs_tree fs) handle then (Inr (), fs)
                 else case or_fail EIO (on_mtp (sv_list S handle)) fs of
                     (Inl rc, fs') \<Rightarrow> (Inl rc, fs')
                   | (Inr es, fs') \<Rightarrow> (Inr (), fs'\<lparr>fs_tree := set_children handle es (fs_tree fs')\<rparr>)) (\<lambda>_ fs.
     if \<not> filler then (Inl (- EIO), fs)
     else case tree_children (fs_tree fs) handle of
         None \<Rightarrow> (Inl (- EIO), fs)
       | Some es \<Rightarrow> (Inr ([46] # [46, 46] # map (\<lambda>e. directory_name (en_name e)) es), fs)))"

record statvfs =
  sf_bsize :: nat
  sf_frsize :: nat
  sf_blocks :: nat
  sf_bfree :: nat
  sf_bavail :: nat
  sf_namemax :: nat

definition op_statfs :: "('m, 'h) service \<Rightarrow> ('m, 'h, statvfs) callback" where
  "op_statfs S =
     and_then (or_fail EIO (on_mtp (sv_storage_info S))) (\<lambda>(full, free).
     let block = 4096 in
     ok \<lparr>sf_bsize = block, sf_frsize = block, sf_blocks = unat full div block,
         sf_bfree = unat free div block, sf_bavail = unat free div block, sf_namemax = 255\<rparr>)"

section \<open>Opening\<close>

text \<open>The loop of \<open>copy_object_to_spool\<close>; the value is the count of bytes in the spool file.\<close>

lemma bytes_left: "bs \<noteq> [] \<Longrightarrow> \<not> n \<le> k \<Longrightarrow> n - (k + length bs) < (n :: nat) - k"
  by (cases bs) auto

function copy_loop ::
    "('m, 'h) service \<Rightarrow> 'h host \<Rightarrow> u32 \<Rightarrow> nat \<Rightarrow> u64 \<Rightarrow> nat \<Rightarrow> ('m, 'h) fs \<Rightarrow>
     (int + nat) \<times> ('m, 'h) fs" where
  "copy_loop S H handle sz file at fs =
     (if sz \<le> at then (Inr at, fs)
      else case on_mtp (sv_read_at S handle at (min READ_CHUNK (sz - at)) sz) fs of
          (Inl e, fs1) \<Rightarrow> (Inl (- EIO), fs1)
        | (Inr data, fs1) \<Rightarrow>
            if data = [] then (Inr at, fs1)
            else (case on_host (ho_write_all H file data) fs1 of
                (Inl e, fs2) \<Rightarrow> (Inl (- EIO), fs2)
              | (Inr _, fs2) \<Rightarrow> copy_loop S H handle sz file (at + length data) fs2))"
  by pat_completeness auto
termination
  by (relation "measure (\<lambda>(S, H, handle, sz, file, at, fs). sz - at)") (auto simp: bytes_left)

declare copy_loop.simps [simp del]

definition copy_object_to_spool ::
    "('m, 'h) service \<Rightarrow> 'h host \<Rightarrow> u32 \<Rightarrow> nat \<Rightarrow> u64 \<Rightarrow> ('m, 'h, nat) callback" where
  "copy_object_to_spool S H handle sz file = copy_loop S H handle sz file 0"

definition adopt_for_write ::
    "('m, 'h) service \<Rightarrow> 'h host \<Rightarrow> ustring \<Rightarrow> u32 \<Rightarrow> entry \<Rightarrow> bool \<Rightarrow> ('m, 'h, unit) callback" where
  "adopt_for_write S H path handle entry keep = (\<lambda>fs.
     if keep \<and> 0 < en_size entry
        \<and> (case ho_free H (fs_host fs) of Some free \<Rightarrow> unat (en_size entry) > free | None \<Rightarrow> False)
     then (Inl (- ENOSPC), fs)
     else
       and_then (or_fail EIO (make_spool H)) (\<lambda>spool.
       and_then (if keep \<and> 0 < en_size entry
                 then copy_object_to_spool S H handle (unat (en_size entry)) spool else ok 0) (\<lambda>sz.
       modify (insert_pending H path
         \<lparr>pn_parent = en_parent entry, pn_name = en_name entry, pn_spool = spool, pn_size = sz,
          pn_sent = None, pn_replaces = Some handle, pn_broken = None, pn_keep_spool = False\<rparr>))) fs)"

text \<open>\<open>fi\<close> holds the flags of the open; the value is the file handle it gets.\<close>

definition op_open ::
    "('m, 'h) service \<Rightarrow> 'h host \<Rightarrow> ustring \<Rightarrow> u32 option \<Rightarrow> ('m, 'h, u64 option) callback" where
  "op_open S H path fi =
     (let flags = (case fi of None \<Rightarrow> 0 | Some f \<Rightarrow> f) in
      and_then (resolved S path) (\<lambda>handle.
      and_then (file_entry handle) (\<lambda>entry.
      and_then (\<lambda>fs. if oflag_writes flags \<and> fs_pending fs path = None
                   then adopt_for_write S H path handle entry (flags AND TRUNC = 0) fs
                   else (Inr (), fs)) (\<lambda>_.
      ok (map_option (\<lambda>_. ucast handle OR (if oflag_writes flags then FH_WRITER else 0)) fi)))))"

definition op_create ::
    "('m, 'h) service \<Rightarrow> 'h host \<Rightarrow> ustring \<Rightarrow> bool \<Rightarrow> ('m, 'h, u64 option) callback" where
  "op_create S H path fi =
     (case split_parent path of (dir, name) \<Rightarrow>
        if name = [] then err (- EIO)
        else
          and_then (resolved S dir) (\<lambda>parent.
          and_then (or_fail EIO (make_spool H)) (\<lambda>spool.
          and_then (modify (insert_pending H path
            \<lparr>pn_parent = parent, pn_name = name, pn_spool = spool, pn_size = 0, pn_sent = None,
             pn_replaces = None, pn_broken = None, pn_keep_spool = False\<rparr>)) (\<lambda>_.
          ok (if fi then Some FH_WRITER else None)))))"

section \<open>Writing\<close>

text \<open>
  The loop of \<open>op_write\<close>: the count the spool file took, or the number of the fault.
\<close>

function write_loop ::
    "'h host \<Rightarrow> u64 \<Rightarrow> bytes \<Rightarrow> nat \<Rightarrow> nat \<Rightarrow> 'h \<Rightarrow> (int + nat) \<times> 'h" where
  "write_loop H file bs offset taken h =
     (if length bs \<le> taken then (Inr taken, h)
      else case ho_write_at H file (drop taken bs) (offset + taken) h of
          (Inl e, h') \<Rightarrow> (Inl (case e of Some rc \<Rightarrow> rc | None \<Rightarrow> EIO), h')
        | (Inr n, h') \<Rightarrow> if n = 0 then (Inr taken, h') else write_loop H file bs offset (taken + n) h')"
  by pat_completeness auto
termination
  by (relation "measure (\<lambda>(H, file, bs, offset, taken, h). length bs - taken)") auto

declare write_loop.simps [simp del]

definition break_pending :: "ustring \<Rightarrow> pending \<Rightarrow> int \<Rightarrow> ('m, 'h) fs \<Rightarrow> (int + 'a) \<times> ('m, 'h) fs" where
  "break_pending path p rc fs =
     (Inl (- rc), fs\<lparr>fs_pending := (fs_pending fs)(path \<mapsto> p\<lparr>pn_broken := Some rc\<rparr>)\<rparr>)"

definition as_i32 :: "nat \<Rightarrow> int" where
  "as_i32 n = sint (word_of_nat n :: 32 word)"

definition op_write ::
    "'h host \<Rightarrow> ustring \<Rightarrow> bytes \<Rightarrow> nat \<Rightarrow> ('m, 'h, int) callback" where
  "op_write H path bs offset = (\<lambda>fs.
     case fs_pending fs path of
       None \<Rightarrow> (Inl (- EROFS), fs)
     | Some p \<Rightarrow>
         (case write_loop H (pn_spool p) bs offset 0 (fs_host fs) of
            (Inl rc, h') \<Rightarrow> break_pending path p rc (fs\<lparr>fs_host := h'\<rparr>)
          | (Inr n, h') \<Rightarrow>
              if n < length bs then break_pending path p ENOSPC (fs\<lparr>fs_host := h'\<rparr>)
              else
                let fin = offset + length bs;
                    p' = (if fin > pn_size p then p\<lparr>pn_size := fin\<rparr> else p)
                in (Inr (as_i32 (length bs)),
                    fs\<lparr>fs_host := h', fs_pending := (fs_pending fs)(path \<mapsto> p')\<rparr>)))"

section \<open>Sending\<close>

text \<open>The free space of the device; without an answer, the largest number.\<close>

definition device_free :: "('m, 'h) service \<Rightarrow> ('m, 'h, nat) callback" where
  "device_free S =
     unwrap_or u64_max (or_fail EIO (and_then (on_mtp (sv_storage_info S)) (\<lambda>(full, f). ok (unat f))))"

text \<open>
  What happens to the old object before the send. The value is the entry after it, and whether
  the device still holds the old contents.
\<close>

definition make_room ::
    "('m, 'h) service \<Rightarrow> pending \<Rightarrow> ('m, 'h, pending \<times> bool) callback" where
  "make_room S p =
     (case pn_replaces p of
        None \<Rightarrow> ok (p, True)
      | Some old \<Rightarrow> (\<lambda>fs.
          let old_size = (case tree_get (fs_tree fs) old of Some e \<Rightarrow> unat (en_size e) | None \<Rightarrow> 0) in
          and_then (device_free S) (\<lambda>free.
            if pn_size p \<le> free then
              and_then (aside_name (pn_name p)) (\<lambda>aside.
              and_then (or_fail EIO (on_mtp (sv_rename S old aside))) (\<lambda>_. ok (p, True)))
            else if pn_size p \<le> min u64_max (free + old_size) then
              and_then (or_fail EIO (on_mtp (sv_delete S old))) (\<lambda>_.
              ok (p\<lparr>pn_replaces := None\<rparr>, False))
            else err (- ENOSPC)) fs))"

definition stream_spool ::
    "('m, 'h) service \<Rightarrow> 'h host \<Rightarrow> pending \<Rightarrow> (('m, 'h) fs, be_error, u32) sm" where
  "stream_spool S H p = (\<lambda>fs.
     case sv_send_stream S (ho_read H (pn_spool p)) (pn_parent p) (pn_name p) (pn_size p)
            (fs_mtp fs, fs_host fs) of
       (r, (m', h')) \<Rightarrow> (r, fs\<lparr>fs_mtp := m', fs_host := h'\<rparr>))"

text \<open>After the send: the old object goes, or it gets its name back.\<close>

definition finish_send ::
    "('m, 'h) service \<Rightarrow> pending \<Rightarrow> bool \<Rightarrow> be_error + u32 \<Rightarrow> ('m, 'h) fs
      \<Rightarrow> (int \<times> pending) \<times> ('m, 'h) fs" where
  "finish_send S p old_copy_exists answer fs =
     (case answer of
        Inr _ \<Rightarrow>
          let fs = (case pn_replaces p of
                      Some old \<Rightarrow> snd (on_mtp (sv_delete S old) fs) | None \<Rightarrow> fs)
          in ((0, p\<lparr>pn_replaces := None\<rparr>),
              fs\<lparr>fs_tree := forget_listing (pn_parent p) (fs_tree fs)\<rparr>)
      | Inl e \<Rightarrow>
          let fs = (case pn_replaces p of
                      Some old \<Rightarrow> snd (on_mtp (sv_rename S old (pn_name p)) fs) | None \<Rightarrow> fs);
              p = p\<lparr>pn_replaces := None\<rparr>;
              p = (if old_copy_exists then p else p\<lparr>pn_keep_spool := True\<rparr>)
          in ((- EIO, p), fs\<lparr>fs_tree := forget_listing (pn_parent p) (fs_tree fs)\<rparr>))"

definition send_pending ::
    "('m, 'h) service \<Rightarrow> 'h host \<Rightarrow> pending \<Rightarrow> ('m, 'h) fs \<Rightarrow> (int \<times> pending) \<times> ('m, 'h) fs" where
  "send_pending S H p fs =
     (case pn_broken p of
        Some rc \<Rightarrow> ((- rc, p), fs)
      | None \<Rightarrow>
         (case or_fail EIO (on_host (ho_rewind H (pn_spool p))) fs of
            (Inl rc, fs1) \<Rightarrow> ((rc, p), fs1)
          | (Inr _, fs1) \<Rightarrow>
             (case make_room S p fs1 of
                (Inl rc, fs2) \<Rightarrow> ((rc, p), fs2)
              | (Inr (p', old_copy_exists), fs2) \<Rightarrow>
                 (case stream_spool S H p' fs2 of
                    (answer, fs3) \<Rightarrow> finish_send S p' old_copy_exists answer fs3))))"

definition op_flush ::
    "('m, 'h) service \<Rightarrow> 'h host \<Rightarrow> ustring \<Rightarrow> u64 option \<Rightarrow> ('m, 'h) fs \<Rightarrow> int \<times> ('m, 'h) fs" where
  "op_flush S H path fi fs =
     (if \<not> fh_writes fi then (0, fs)
      else case fs_pending fs path of
          None \<Rightarrow> (0, fs)
        | Some p \<Rightarrow>
            (case (case pn_sent p of
                     Some earlier \<Rightarrow> ((earlier, p), remove_pending path fs)
                   | None \<Rightarrow>
                       (case send_pending S H p (remove_pending path fs) of
                          ((rc, p'), fs') \<Rightarrow> ((rc, p'\<lparr>pn_sent := Some rc\<rparr>), fs'))) of
               ((rc, p'), fs') \<Rightarrow> (rc, insert_pending H path p' fs')))"

definition op_release ::
    "('m, 'h) service \<Rightarrow> 'h host \<Rightarrow> ustring \<Rightarrow> u64 option \<Rightarrow> ('m, 'h) fs \<Rightarrow> int \<times> ('m, 'h) fs" where
  "op_release S H path fi fs =
     (if \<not> fh_writes fi then (0, fs)
      else case fs_pending fs path of
          None \<Rightarrow> (0, fs)
        | Some p \<Rightarrow>
            (case (if pn_sent p = None then send_pending S H p (remove_pending path fs)
                   else ((0, p), remove_pending path fs)) of
               ((rc, p'), fs') \<Rightarrow> (0, drop_pending H p' fs')))"

definition set_pending_len ::
    "'h host \<Rightarrow> ustring \<Rightarrow> pending \<Rightarrow> nat \<Rightarrow> ('m, 'h, unit) callback" where
  "set_pending_len H path p sz =
     and_then (or_fail EIO (on_host (ho_set_len H (pn_spool p) sz))) (\<lambda>_.
     modify (\<lambda>fs. fs\<lparr>fs_pending := (fs_pending fs)(path \<mapsto> p\<lparr>pn_size := sz\<rparr>)\<rparr>))"

definition op_truncate ::
    "('m, 'h) service \<Rightarrow> 'h host \<Rightarrow> ustring \<Rightarrow> nat \<Rightarrow> ('m, 'h) fs \<Rightarrow> int \<times> ('m, 'h) fs" where
  "op_truncate S H path sz fs =
     (case fs_pending fs path of
        Some p \<Rightarrow>
          (case set_pending_len H path p sz fs of
             (Inl rc, fs') \<Rightarrow> (rc, fs') | (Inr _, fs') \<Rightarrow> (0, fs'))
      | None \<Rightarrow>
          (case and_then (resolved S path) (\<lambda>handle.
                and_then (file_entry handle) (\<lambda>entry.
                adopt_for_write S H path handle entry (0 < sz))) fs of
             (Inl rc, fs1) \<Rightarrow> (rc, fs1)
           | (Inr _, fs1) \<Rightarrow>
               (case fs_pending fs1 path of
                  None \<Rightarrow> (0, fs1)
                | Some p \<Rightarrow>
                    (case set_pending_len H path p sz fs1 of
                       (Inl rc, fs2) \<Rightarrow> (rc, fs2)
                     | (Inr _, fs2) \<Rightarrow>
                         (case send_pending S H (p\<lparr>pn_size := sz\<rparr>) (remove_pending path fs2) of
                            ((rc, p'), fs3) \<Rightarrow> (rc, drop_pending H p' fs3))))))"

section \<open>Names and folders\<close>

text \<open>
  \<open>op_rename\<close>, in the steps of the code: the name comes free, the object moves, it gets its
  name, and the old object goes. The value of the first step is the object that moved aside,
  or \<open>None\<close> for a file that is renamed onto itself.
\<close>

definition move_aside ::
    "('m, 'h) service \<Rightarrow> ustring \<Rightarrow> u32 \<Rightarrow> u32 \<Rightarrow> ustring \<Rightarrow> ('m, 'h, u32 option option) callback" where
  "move_aside S to handle new_parent new_name = (\<lambda>fs.
     case resolve S to fs of
       (None, fs1) \<Rightarrow> (Inr (Some None), fs1)
     | (Some taken, fs1) \<Rightarrow>
         if taken = handle then (Inr None, fs1)
         else if taken = TREE_ROOT then (Inl (- EIO), fs1)
         else
           and_then (aside_name new_name) (\<lambda>aside.
           and_then (or_fail EIO (on_mtp (sv_rename S taken aside))) (\<lambda>_.
           and_then (forget new_parent) (\<lambda>_. ok (Some (Some taken))))) fs1)"

definition move_to_folder ::
    "('m, 'h) service \<Rightarrow> u32 \<Rightarrow> u32 \<Rightarrow> u32 \<Rightarrow> ('m, 'h, unit) callback" where
  "move_to_folder S handle old_parent new_parent =
     (if new_parent = old_parent then ok ()
      else (\<lambda>fs. if \<not> sv_can_move S (fs_mtp fs) then (Inl (- ENOTSUP), fs)
                else or_fail EIO (on_mtp (sv_move S handle new_parent)) fs))"

definition take_name ::
    "('m, 'h) service \<Rightarrow> u32 \<Rightarrow> u32 \<Rightarrow> ustring \<Rightarrow> u32 option \<Rightarrow> ('m, 'h, unit) callback" where
  "take_name S handle new_parent new_name moved_aside = (\<lambda>fs.
     let old_name = (case tree_get (fs_tree fs) handle of Some e \<Rightarrow> en_name e | None \<Rightarrow> []) in
     if old_name = new_name then (Inr (), fs)
     else if \<not> sv_can_rename S (fs_mtp fs) then (Inl (- ENOTSUP), fs)
     else case on_mtp (sv_rename S handle new_name) fs of
         (Inr _, fs1) \<Rightarrow> (Inr (), fs1)
       | (Inl e, fs1) \<Rightarrow>
           let fs2 = (case moved_aside of
                        Some old \<Rightarrow> snd (on_mtp (sv_rename S old new_name) fs1) | None \<Rightarrow> fs1)
           in (Inl (- EIO), fs2\<lparr>fs_tree := forget_listing new_parent (fs_tree fs2)\<rparr>))"

definition op_rename ::
    "('m, 'h) service \<Rightarrow> ustring \<Rightarrow> ustring \<Rightarrow> ('m, 'h, unit) callback" where
  "op_rename S from to =
     and_then (resolved S from) (\<lambda>handle.
     if handle = TREE_ROOT then err (- EIO)
     else
       let old_dir = fst (split_parent from);
           new_dir = fst (split_parent to); new_name = snd (split_parent to)
       in if new_name = [] then err (- EIO)
       else
         and_then (resolved S old_dir) (\<lambda>old_parent.
         and_then (resolved S new_dir) (\<lambda>new_parent.
         and_then (move_aside S to handle new_parent new_name) (\<lambda>aside.
         case aside of
           None \<Rightarrow> ok ()
         | Some moved_aside \<Rightarrow>
             and_then (move_to_folder S handle old_parent new_parent) (\<lambda>_.
             and_then (take_name S handle new_parent new_name moved_aside) (\<lambda>_.
             and_then (case moved_aside of
                         Some old \<Rightarrow> ignoring (on_mtp (sv_delete S old)) | None \<Rightarrow> ok ()) (\<lambda>_.
             and_then (forget old_parent) (\<lambda>_. forget new_parent))))))))"

definition remove_object ::
    "('m, 'h) service \<Rightarrow> ustring \<Rightarrow> bool \<Rightarrow> ('m, 'h, unit) callback" where
  "remove_object S path want_dir =
     and_then (resolved S path) (\<lambda>handle fs.
     if handle = TREE_ROOT then (Inl (- EIO), fs)
     else case tree_get (fs_tree fs) handle of
         None \<Rightarrow> (Inl (- ENOENT), fs)
       | Some e \<Rightarrow>
           if en_is_dir e \<noteq> want_dir then (Inl (if want_dir then - ENOTDIR else - EISDIR), fs)
           else and_then (or_fail EIO (on_mtp (sv_delete S handle))) (\<lambda>_. forget (en_parent e)) fs)"

definition op_unlink :: "('m, 'h) service \<Rightarrow> ustring \<Rightarrow> ('m, 'h, unit) callback" where
  "op_unlink S path = remove_object S path False"

definition op_rmdir :: "('m, 'h) service \<Rightarrow> ustring \<Rightarrow> ('m, 'h, unit) callback" where
  "op_rmdir S path = remove_object S path True"

definition op_mkdir :: "('m, 'h) service \<Rightarrow> ustring \<Rightarrow> ('m, 'h, unit) callback" where
  "op_mkdir S path =
     (case split_parent path of (dir, name) \<Rightarrow>
        if name = [] then err (- EIO)
        else
          and_then (resolved S dir) (\<lambda>parent.
          and_then (or_fail EIO (on_mtp (sv_send_object S parent name [] True))) (\<lambda>_.
          forget parent)))"

section \<open>Reading\<close>

definition op_read ::
    "('m, 'h) service \<Rightarrow> 'h host \<Rightarrow> ustring \<Rightarrow> nat \<Rightarrow> nat \<Rightarrow> u64 option \<Rightarrow> ('m, 'h, bytes) callback" where
  "op_read S H path sz offset fi = (\<lambda>fs.
     case fs_pending fs path of
       Some p \<Rightarrow>
         if pn_size p \<le> offset then (Inr [], fs)
         else or_fail EIO (on_host (ho_read_at H (pn_spool p) (min sz (pn_size p - offset)) offset)) fs
     | None \<Rightarrow>
         and_then (case fi of
                     Some fh \<Rightarrow> if fh_handle fh \<noteq> 0 then ok (fh_handle fh) else resolved S path
                   | None \<Rightarrow> resolved S path) (\<lambda>handle fs.
           case tree_get (fs_tree fs) handle of
             None \<Rightarrow> (Inl (- ENOENT), fs)
           | Some e \<Rightarrow>
               let file_size = unat (en_size e) in
               if file_size \<le> offset then (Inr [], fs)
               else
                 and_then (or_fail EIO (on_mtp
                   (sv_read_at S handle offset (min sz (file_size - offset)) file_size))) (\<lambda>data.
                 ok (take (min (length data) sz) data)) fs) fs)"

section \<open>Callbacks that change nothing\<close>

definition op_utimens :: "('m, 'h) fs \<Rightarrow> int \<times> ('m, 'h) fs" where "op_utimens fs = (0, fs)"
definition op_chmod :: "('m, 'h) fs \<Rightarrow> int \<times> ('m, 'h) fs" where "op_chmod fs = (0, fs)"
definition op_chown :: "('m, 'h) fs \<Rightarrow> int \<times> ('m, 'h) fs" where "op_chown fs = (0, fs)"

end
