(* ===== verification/Mtpfs_Spool.thy ===== *)
theory Mtpfs_Spool
  imports Mtpfs_Fs
begin

text \<open>
  The spool folder of the host: a disk of limited size as a value of \<open>host\<close>, and the contract
  \<open>spool_disk\<close> that the callbacks rely on. The facts of the locale say what the loops of the
  filesystem over a spool file leave in it; the disk is its interpretation.
\<close>

section \<open>A disk\<close>

record spool_file =
  sp_data :: bytes
  sp_cursor :: nat

record disk =
  dk_files :: "u64 \<rightharpoonup> spool_file"
  dk_room :: nat

text \<open>A write past the end fills the gap with zeroes; a write of no bytes changes nothing.\<close>

definition overwrite :: "nat \<Rightarrow> bytes \<Rightarrow> bytes \<Rightarrow> bytes" where
  "overwrite off bs c =
     (if bs = [] then c
      else take off (c @ replicate (off - length c) 0) @ bs @ drop (off + length bs) c)"

definition with_file ::
    "u64 \<Rightarrow> (spool_file \<Rightarrow> disk \<Rightarrow> (os_error + 'a) \<times> disk) \<Rightarrow> disk \<Rightarrow> (os_error + 'a) \<times> disk" where
  "with_file n f d = (case dk_files d n of None \<Rightarrow> (Inl (Some 9), d) | Some file \<Rightarrow> f file d)"

definition put_file :: "u64 \<Rightarrow> spool_file \<Rightarrow> nat \<Rightarrow> disk \<Rightarrow> disk" where
  "put_file n file room d = d\<lparr>dk_files := (dk_files d)(n \<mapsto> file), dk_room := room\<rparr>"

text \<open>
  A write takes the bytes the disk has room for, and gives the number of a full disk when it
  has room for none.
\<close>

definition disk_write_at :: "u64 \<Rightarrow> bytes \<Rightarrow> nat \<Rightarrow> (disk, os_error, nat) sm" where
  "disk_write_at n bs off = with_file n (\<lambda>file d.
     let c = sp_data file; k = min (length bs) (length c + dk_room d - off);
         c' = overwrite off (take k bs) c
     in if k = 0 \<and> bs \<noteq> [] then (Inl (Some ENOSPC), d)
        else (Inr k, put_file n (file\<lparr>sp_data := c'\<rparr>) (dk_room d - (length c' - length c)) d))"

definition disk_write_all :: "u64 \<Rightarrow> bytes \<Rightarrow> (disk, os_error, unit) sm" where
  "disk_write_all n bs = with_file n (\<lambda>file d.
     let c = sp_data file; at = sp_cursor file;
         k = min (length bs) (length c + dk_room d - at);
         c' = overwrite at (take k bs) c;
         d' = put_file n (file\<lparr>sp_data := c', sp_cursor := at + k\<rparr>) (dk_room d - (length c' - length c)) d
     in if k < length bs then (Inl (Some ENOSPC), d') else (Inr (), d'))"

definition disk_set_len :: "u64 \<Rightarrow> nat \<Rightarrow> (disk, os_error, unit) sm" where
  "disk_set_len n len = with_file n (\<lambda>file d.
     let c = sp_data file in
     if len - length c > dk_room d then (Inl (Some ENOSPC), d)
     else (Inr (), put_file n (file\<lparr>sp_data := take len c @ replicate (len - length c) 0\<rparr>)
                     (dk_room d + length c - len) d))"

definition disk_host :: "disk host" where
  "disk_host =
     \<lparr>ho_create = (\<lambda>n d. (Inr (), put_file n \<lparr>sp_data = [], sp_cursor = 0\<rparr>
        (dk_room d + (case dk_files d n of None \<Rightarrow> 0 | Some file \<Rightarrow> length (sp_data file))) d)),
      ho_write_at = disk_write_at,
      ho_write_all = disk_write_all,
      ho_read_at = (\<lambda>n len off. with_file n (\<lambda>file d. (Inr (take len (drop off (sp_data file))), d))),
      ho_set_len = disk_set_len,
      ho_rewind = (\<lambda>n. with_file n (\<lambda>file d. (Inr (), put_file n (file\<lparr>sp_cursor := 0\<rparr>) (dk_room d) d))),
      ho_read = (\<lambda>n len d. case dk_files d n of
         None \<Rightarrow> (ReadFault 9, d)
       | Some file \<Rightarrow>
           let bs = take len (drop (sp_cursor file) (sp_data file))
           in (ReadBytes bs,
               put_file n (file\<lparr>sp_cursor := sp_cursor file + length bs\<rparr>) (dk_room d) d)),
      ho_remove = (\<lambda>n d. case dk_files d n of
         None \<Rightarrow> d
       | Some file \<Rightarrow> d\<lparr>dk_files := (dk_files d)(n := None), dk_room := dk_room d + length (sp_data file)\<rparr>),
      ho_free = (\<lambda>d. Some (dk_room d))\<rparr>"

lemma overwrite_twice:
  "a \<noteq> [] \<Longrightarrow> overwrite (off + length a) b (overwrite off a c) = overwrite off (a @ b) c"
  by (cases "b = []"; cases a) (auto simp: overwrite_def min_def ac_simps)

lemma overwrite_slice: "take (length bs) (drop off (overwrite off bs c)) = bs"
  by (simp add: overwrite_def)

section \<open>The contract\<close>

locale spool_disk =
  fixes H :: "'h host"
    and contents :: "'h \<Rightarrow> u64 \<Rightarrow> bytes option"
    and cursor :: "'h \<Rightarrow> u64 \<Rightarrow> nat"
  assumes create_new: "ho_create H n h = (Inr u, h') \<Longrightarrow>
      contents h' = (contents h)(n \<mapsto> []) \<and> cursor h' n = 0"
    and write_at_some: "ho_write_at H n bs off h = (Inr k, h') \<Longrightarrow> contents h n = Some c \<Longrightarrow>
      k \<le> length bs \<and> contents h' = (contents h)(n \<mapsto> overwrite off (take k bs) c)"
    and write_all_end: "ho_write_all H n bs h = (Inr u, h') \<Longrightarrow> contents h n = Some c \<Longrightarrow>
      cursor h n = length c \<Longrightarrow>
      contents h' = (contents h)(n \<mapsto> c @ bs) \<and> cursor h' n = length (c @ bs)"
    and read_at_slice: "ho_read_at H n len off h = (Inr d, h') \<Longrightarrow> contents h n = Some c \<Longrightarrow>
      d = take len (drop off c) \<and> contents h' = contents h"
    and set_len_cut: "ho_set_len H n len h = (Inr u, h') \<Longrightarrow> contents h n = Some c \<Longrightarrow>
      contents h' = (contents h)(n \<mapsto> take len c @ replicate (len - length c) 0)"
    and rewind_start: "ho_rewind H n h = (Inr u, h') \<Longrightarrow> contents h' = contents h \<and> cursor h' n = 0"
    and read_next: "contents h n = Some c \<Longrightarrow> ho_read H n len h = (ReadBytes bs, h') \<Longrightarrow>
      bs = take (length bs) (drop (cursor h n) c) \<and> length bs \<le> len
      \<and> (bs = [] \<longrightarrow> len = 0 \<or> length c \<le> cursor h n)
      \<and> contents h' = contents h \<and> cursor h' n = cursor h n + length bs"
    and remove_gone: "contents (ho_remove H n h) = (contents h)(n := None)"
begin

text \<open>What the loop of \<open>op_write\<close> leaves in the file, whatever the sizes of the writes.\<close>

lemma write_loop_writes:
  "contents h n = Some c \<Longrightarrow> k \<le> length bs \<Longrightarrow> write_loop H n bs off k h = (Inr m, h') \<Longrightarrow>
     k \<le> m \<and> m \<le> length bs
     \<and> contents h' = (contents h)(n \<mapsto> overwrite (off + k) (take (m - k) (drop k bs)) c)"
proof (induction "length bs - k" arbitrary: k h c rule: less_induct)
  case less
  show ?case
  proof (cases "length bs \<le> k")
    case True
    then have "m = k" "h' = h" using less.prems(3) by (simp_all add: write_loop.simps)
    then show ?thesis using True less.prems by (simp add: overwrite_def fun_upd_idem)
  next
    case False
    obtain r h1 where w: "ho_write_at H n (drop k bs) (off + k) h = (r, h1)" by fastforce
    obtain i where r: "r = Inr i"
      using less.prems(3) False w by (cases r) (simp_all add: write_loop.simps [of H n bs off k h])
    have i: "i \<le> length bs - k"
        "contents h1 = (contents h)(n \<mapsto> overwrite (off + k) (take i (drop k bs)) c)"
      using write_at_some [OF w [unfolded r] less.prems(1)] by simp_all
    show ?thesis
    proof (cases "i = 0")
      case True
      then have "m = k" "h' = h1"
        using less.prems(3) False w r by (simp_all add: write_loop.simps [of H n bs off k h])
      then show ?thesis using True i less.prems(1,2) by (simp add: overwrite_def)
    next
      case more: False
      then have run: "write_loop H n bs off (k + i) h1 = (Inr m, h')"
        using less.prems(3) False w r by (simp add: write_loop.simps [of H n bs off k h])
      have "length bs - (k + i) < length bs - k" using more False by simp
      from less.hyps [OF this _ _ run] i(1) False
      have m: "k + i \<le> m" "m \<le> length bs"
        and c': "contents h' = (contents h1)(n \<mapsto> overwrite (off + (k + i)) (take (m - (k + i)) (drop (k + i) bs))
            (overwrite (off + k) (take i (drop k bs)) c))"
        by (simp_all add: i(2))
      have a: "take i (drop k bs) \<noteq> []" "length (take i (drop k bs)) = i" using i(1) more False by auto
      have "take i (drop k bs) @ take (m - (k + i)) (drop (k + i) bs) = take (m - k) (drop k bs)"
        using take_add [of i "m - (k + i)" "drop k bs"] m(1) by (simp add: add.commute)
      then have "overwrite (off + (k + i)) (take (m - (k + i)) (drop (k + i) bs))
            (overwrite (off + k) (take i (drop k bs)) c) = overwrite (off + k) (take (m - k) (drop k bs)) c"
        using overwrite_twice [OF a(1), of "off + k" "take (m - (k + i)) (drop (k + i) bs)" c]
        by (simp only: a(2) add.assoc)
      then show ?thesis using m c' i(2) by simp
    qed
  qed
qed

lemma write_loop_all:
  assumes "contents h n = Some c" and "write_loop H n bs off 0 h = (Inr (length bs), h')"
  shows "contents h' = (contents h)(n \<mapsto> overwrite off bs c)"
  using write_loop_writes [OF assms(1) _ assms(2)] by simp

end

text \<open>
  What an operation on one spool file leaves of the others, and what a fault leaves of the file
  itself.
\<close>

locale spool_files = spool_disk H contents cursor
  for H :: "'h host" and contents :: "'h \<Rightarrow> u64 \<Rightarrow> bytes option" and cursor :: "'h \<Rightarrow> u64 \<Rightarrow> nat" +
  assumes create_other: "ho_create H n h = (r, h') \<Longrightarrow> m \<noteq> n \<Longrightarrow> contents h' m = contents h m"
    and write_at_other: "ho_write_at H n bs off h = (s, h') \<Longrightarrow> m \<noteq> n \<Longrightarrow> contents h' m = contents h m"
    and write_all_other: "ho_write_all H n bs h = (r, h') \<Longrightarrow> m \<noteq> n \<Longrightarrow> contents h' m = contents h m"
    and set_len_other: "ho_set_len H n len h = (r, h') \<Longrightarrow> m \<noteq> n \<Longrightarrow> contents h' m = contents h m"
    and write_at_there: "ho_write_at H n bs off h = (s, h') \<Longrightarrow> contents h n \<noteq> None \<Longrightarrow> contents h' n \<noteq> None"
    and set_len_fault: "ho_set_len H n len h = (Inl e, h') \<Longrightarrow> contents h' = contents h"
    and rewind_keeps: "ho_rewind H n h = (r, h') \<Longrightarrow> contents h' = contents h"
    and read_keeps: "ho_read H n len h = (x, h') \<Longrightarrow> contents h' = contents h"
    and read_at_keeps: "ho_read_at H n len off h = (y, h') \<Longrightarrow> contents h' = contents h"
begin

lemma write_loop_other:
  assumes "write_loop H n bs off k h = (x, h')"
  shows "(m \<noteq> n \<longrightarrow> contents h' m = contents h m) \<and> (contents h n \<noteq> None \<longrightarrow> contents h' n \<noteq> None)"
  using assms
proof (induction "length bs - k" arbitrary: k h rule: less_induct)
  case less
  show ?case
  proof (cases "length bs \<le> k")
    case True
    then show ?thesis using less.prems by (simp add: write_loop.simps)
  next
    case False
    obtain r h1 where w: "ho_write_at H n (drop k bs) (off + k) h = (r, h1)" by fastforce
    have one: "m \<noteq> n \<Longrightarrow> contents h1 m = contents h m" "contents h n \<noteq> None \<Longrightarrow> contents h1 n \<noteq> None"
      using write_at_other [OF w] write_at_there [OF w] by blast+
    show ?thesis
    proof (cases "\<exists>i. r = Inr i \<and> i \<noteq> 0")
      case True
      then obtain i where i: "r = Inr i" "i \<noteq> 0" by blast
      then have "write_loop H n bs off (k + i) h1 = (x, h')"
        using less.prems False w by (simp add: write_loop.simps [of H n bs off k h])
      moreover have "length bs - (k + i) < length bs - k" using False i(2) by simp
      ultimately show ?thesis using less.hyps one by metis
    next
      case stop: False
      then have "h' = h1"
        using less.prems False w
        by (cases r) (auto simp: write_loop.simps [of H n bs off k h] split: option.splits)
      then show ?thesis using one by blast
    qed
  qed
qed

end

lemma length_overwrite: "length c \<le> length (overwrite off bs c)"
  by (auto simp: overwrite_def)

definition disk_contents :: "disk \<Rightarrow> u64 \<Rightarrow> bytes option" where
  "disk_contents d n = map_option sp_data (dk_files d n)"

definition disk_cursor :: "disk \<Rightarrow> u64 \<Rightarrow> nat" where
  "disk_cursor d n = (case dk_files d n of None \<Rightarrow> 0 | Some file \<Rightarrow> sp_cursor file)"

lemma disk_put [simp]:
  "disk_contents (put_file n file room d) = (disk_contents d)(n \<mapsto> sp_data file)"
  "disk_cursor (put_file n file room d) n = sp_cursor file"
  by (auto simp: disk_contents_def disk_cursor_def put_file_def)

lemma disk_fileE:
  assumes "disk_contents d n = Some c"
  obtains fl where "dk_files d n = Some fl" and "sp_data fl = c" and "disk_cursor d n = sp_cursor fl"
  using assms by (auto simp: disk_contents_def disk_cursor_def)

interpretation spool: spool_disk disk_host disk_contents disk_cursor
proof
  show "disk_contents d' = (disk_contents d)(n \<mapsto> []) \<and> disk_cursor d' n = 0"
    if "ho_create disk_host n d = (Inr u, d')" for n u d d'
    using that by (auto simp: disk_host_def)
next
  fix n bs off d k d' c
  assume run: "ho_write_at disk_host n bs off d = (Inr k, d')" and c: "disk_contents d n = Some c"
  from c obtain fl where f: "dk_files d n = Some fl" "sp_data fl = c" by (rule disk_fileE)
  show "k \<le> length bs \<and> disk_contents d' = (disk_contents d)(n \<mapsto> overwrite off (take k bs) c)"
    using run f by (auto simp: disk_host_def disk_write_at_def with_file_def Let_def split: if_splits)
next
  fix n bs d u d' c
  assume run: "ho_write_all disk_host n bs d = (Inr u, d')" and c: "disk_contents d n = Some c"
    and cur: "disk_cursor d n = length c"
  from c obtain fl where f: "dk_files d n = Some fl" "sp_data fl = c"
    "disk_cursor d n = sp_cursor fl" by (rule disk_fileE)
  show "disk_contents d' = (disk_contents d)(n \<mapsto> c @ bs) \<and> disk_cursor d' n = length (c @ bs)"
    using run f cur
    by (auto simp: disk_host_def disk_write_all_def with_file_def Let_def overwrite_def split: if_splits)
next
  fix n len off d bs d' c
  assume run: "ho_read_at disk_host n len off d = (Inr bs, d')" and c: "disk_contents d n = Some c"
  from c obtain fl where f: "dk_files d n = Some fl" "sp_data fl = c" by (rule disk_fileE)
  show "bs = take len (drop off c) \<and> disk_contents d' = disk_contents d"
    using run f by (auto simp: disk_host_def with_file_def)
next
  fix n len d u d' c
  assume run: "ho_set_len disk_host n len d = (Inr u, d')" and c: "disk_contents d n = Some c"
  from c obtain fl where f: "dk_files d n = Some fl" "sp_data fl = c" by (rule disk_fileE)
  show "disk_contents d' = (disk_contents d)(n \<mapsto> take len c @ replicate (len - length c) 0)"
    using run f by (auto simp: disk_host_def disk_set_len_def with_file_def Let_def split: if_splits)
next
  fix n d u d'
  assume run: "ho_rewind disk_host n d = (Inr u, d')"
  then obtain fl where "dk_files d n = Some fl" "d' = put_file n (fl\<lparr>sp_cursor := 0\<rparr>) (dk_room d) d"
    by (auto simp: disk_host_def with_file_def split: option.splits)
  then show "disk_contents d' = disk_contents d \<and> disk_cursor d' n = 0"
    by (auto simp: disk_contents_def)
next
  fix d n c len bs d'
  assume c: "disk_contents d n = Some c" and run: "ho_read disk_host n len d = (ReadBytes bs, d')"
  from c obtain fl where f: "dk_files d n = Some fl" "sp_data fl = c"
    "disk_cursor d n = sp_cursor fl" by (rule disk_fileE)
  show "bs = take (length bs) (drop (disk_cursor d n) c) \<and> length bs \<le> len
      \<and> (bs = [] \<longrightarrow> len = 0 \<or> length c \<le> disk_cursor d n)
      \<and> disk_contents d' = disk_contents d \<and> disk_cursor d' n = disk_cursor d n + length bs"
    using run f c by (auto simp: disk_host_def Let_def) (simp add: min_def)
next
  show "disk_contents (ho_remove disk_host n d) = (disk_contents d)(n := None)" for n d
    by (auto simp: disk_host_def disk_contents_def split: option.splits)
qed

lemma disk_contents_put: "disk_contents (put_file n fl room d) m = (if m = n then Some (sp_data fl) else disk_contents d m)"
  by simp

interpretation spools: spool_files disk_host disk_contents disk_cursor
proof unfold_locales
  fix n m bs off len d d' r s x y e
  show "m \<noteq> n \<Longrightarrow> disk_contents d' m = disk_contents d m" if "ho_create disk_host n d = (r, d')"
    using that by (auto simp: disk_host_def)
  show "m \<noteq> n \<Longrightarrow> disk_contents d' m = disk_contents d m"
    "disk_contents d n \<noteq> None \<Longrightarrow> disk_contents d' n \<noteq> None" if "ho_write_at disk_host n bs off d = (s, d')"
    using that by (auto simp: disk_host_def disk_write_at_def with_file_def Let_def split: option.splits if_splits)
  show "m \<noteq> n \<Longrightarrow> disk_contents d' m = disk_contents d m" if "ho_write_all disk_host n bs d = (r, d')"
    using that by (auto simp: disk_host_def disk_write_all_def with_file_def Let_def split: option.splits if_splits)
  show "m \<noteq> n \<Longrightarrow> disk_contents d' m = disk_contents d m" if "ho_set_len disk_host n len d = (r, d')"
    using that by (auto simp: disk_host_def disk_set_len_def with_file_def Let_def split: option.splits if_splits)
  show "disk_contents d' = disk_contents d" if "ho_set_len disk_host n len d = (Inl e, d')"
    using that by (auto simp: disk_host_def disk_set_len_def with_file_def Let_def split: option.splits if_splits)
  show "disk_contents d' = disk_contents d" if "ho_rewind disk_host n d = (r, d')"
    using that by (auto simp: disk_host_def with_file_def fun_eq_iff disk_contents_def put_file_def split: option.splits)
  show "disk_contents d' = disk_contents d" if "ho_read disk_host n len d = (x, d')"
    using that by (auto simp: disk_host_def fun_eq_iff disk_contents_def put_file_def Let_def split: option.splits)
  show "disk_contents d' = disk_contents d" if "ho_read_at disk_host n len off d = (y, d')"
    using that by (auto simp: disk_host_def with_file_def split: option.splits)
qed

end
