(* ===== verification/Mtpfs_Phone.thy ===== *)
theory Mtpfs_Phone
  imports Mtpfs_Spool
begin

text \<open>
  A cellphone for the examples: a service that keeps its objects in a map and answers every call
  at once. Its folders never change, so it is a phone for a moment, not for a session; the
  theorems about the callbacks do not mention it, their witnesses do.
\<close>

section \<open>The service\<close>

record phone =
  ph_objs :: "u32 \<Rightarrow> bytes option"
  ph_next :: u32
  ph_free :: u64
  ph_refuses :: bool
  ph_moves :: bool

definition no_object :: "string \<Rightarrow> be_error" where
  "no_object step = BeDevice step RESP_INVALID_OBJECT_HANDLE"

definition on_object :: "string \<Rightarrow> u32 \<Rightarrow> (bytes \<Rightarrow> (phone, be_error, 'a) sm) \<Rightarrow> (phone, be_error, 'a) sm" where
  "on_object step h f = (\<lambda>m. case ph_objs m h of None \<Rightarrow> (Inl (no_object step), m) | Some bs \<Rightarrow> f bs m)"

definition phone_service :: "(u32 \<Rightarrow> entry list) \<Rightarrow> (phone, 'h) service" where
  "phone_service dir =
     \<lparr>sv_list = (\<lambda>p m. (Inr (dir p), m)),
      sv_read_at = (\<lambda>h at n sz. on_object ''GetPartialObject'' h (\<lambda>bs. ok (take n (drop at bs)))),
      sv_send_object = (\<lambda>p name bs dir m.
        if ph_refuses m \<or> ph_objs m (ph_next m) \<noteq> None then (Inl (BeDevice ''SendObjectInfo'' RESP_STORE_FULL), m)
        else (Inr (ph_next m), m\<lparr>ph_objs := (ph_objs m)(ph_next m \<mapsto> bs), ph_next := ph_next m + 1\<rparr>)),
      sv_send_stream = (\<lambda>R p name n (m, h).
        if ph_refuses m \<or> ph_objs m (ph_next m) \<noteq> None
        then (Inl (BeDevice ''SendObject'' RESP_STORE_FULL), (m, h))
        else case read_exact_or_short R n ''SendObject'' h of
            (Inl e, h') \<Rightarrow> (Inl (BeSession e), (m, h'))
          | (Inr bs, h') \<Rightarrow>
              if length bs \<noteq> n then (Inl (BeTooLarge n), (m, h'))
              else (Inr (ph_next m),
                (m\<lparr>ph_objs := (ph_objs m)(ph_next m \<mapsto> bs), ph_next := ph_next m + 1\<rparr>, h'))),
      sv_storage_info = (\<lambda>m. (Inr (0x1000000000, ph_free m), m)),
      sv_rename = (\<lambda>h name. on_object ''SetObjectPropValue'' h (\<lambda>_. ok ())),
      sv_move = (\<lambda>h p. on_object ''MoveObject'' h (\<lambda>_. ok ())),
      sv_delete = (\<lambda>h. on_object ''DeleteObject'' h (\<lambda>bs. modify (\<lambda>m. m\<lparr>ph_objs := (ph_objs m)(h := None)\<rparr>))),
      sv_can_rename = (\<lambda>_. True), sv_can_move = ph_moves\<rparr>"

section \<open>A mount of it\<close>

text \<open>
  The file of the sample tree, which a program opened and wrote anew: the entry that waits for its
  close, with four bytes in the spool file.
\<close>

definition sample_path :: ustring where "sample_path = lit ''/DCIM/a.jpg''"

definition sample_pending :: pending where
  "sample_pending = \<lparr>pn_parent = 1, pn_name = lit ''a.jpg'', pn_spool = 4, pn_size = 4, pn_sent = None,
     pn_replaces = Some 2, pn_broken = None, pn_keep_spool = False\<rparr>"

definition sample_phone :: "u64 \<Rightarrow> bool \<Rightarrow> phone" where
  "sample_phone free refuses = \<lparr>ph_objs = [2 \<mapsto> [1, 2, 3], 3 \<mapsto> [5, 5, 5, 5, 5]], ph_next = 10, ph_free = free,
     ph_refuses = refuses, ph_moves = False\<rparr>"

definition sample_disk :: disk where
  "sample_disk = \<lparr>dk_files = [4 \<mapsto> \<lparr>sp_data = [7, 8, 9, 6], sp_cursor = 4\<rparr>], dk_room = 1000\<rparr>"

definition sample_fs :: "'m \<Rightarrow> (ustring \<rightharpoonup> pending) \<Rightarrow> ('m, disk) fs" where
  "sample_fs m pend = \<lparr>fs_mtp = m, fs_tree = sample_tree, fs_pending = pend, fs_count = 5,
     fs_host = sample_disk\<rparr>"

section \<open>Running it\<close>

lemma phone_calls:
  "sv_list (phone_service dir) p m = (Inr (dir p), m)"
  "sv_read_at (phone_service dir) h at n sz m =
     (case ph_objs m h of None \<Rightarrow> (Inl (no_object ''GetPartialObject''), m) | Some bs \<Rightarrow> (Inr (take n (drop at bs)), m))"
  "sv_storage_info (phone_service dir) m = (Inr (0x1000000000, ph_free m), m)"
  "sv_rename (phone_service dir) h name m =
     (case ph_objs m h of None \<Rightarrow> (Inl (no_object ''SetObjectPropValue''), m) | Some bs \<Rightarrow> (Inr (), m))"
  "sv_move (phone_service dir) h p m =
     (case ph_objs m h of None \<Rightarrow> (Inl (no_object ''MoveObject''), m) | Some bs \<Rightarrow> (Inr (), m))"
  "sv_delete (phone_service dir) h m =
     (case ph_objs m h of None \<Rightarrow> (Inl (no_object ''DeleteObject''), m)
      | Some bs \<Rightarrow> (Inr (), m\<lparr>ph_objs := (ph_objs m)(h := None)\<rparr>))"
  "sv_can_rename (phone_service dir) m" "sv_can_move (phone_service dir) m = ph_moves m"
  "sv_send_stream (phone_service dir) R p name n (m, g) =
     (if ph_refuses m \<or> ph_objs m (ph_next m) \<noteq> None
      then (Inl (BeDevice ''SendObject'' RESP_STORE_FULL), (m, g))
      else case read_exact_or_short R n ''SendObject'' g of
          (Inl e, g') \<Rightarrow> (Inl (BeSession e), (m, g'))
        | (Inr bs, g') \<Rightarrow>
            if length bs \<noteq> n then (Inl (BeTooLarge n), (m, g'))
            else (Inr (ph_next m),
              (m\<lparr>ph_objs := (ph_objs m)(ph_next m \<mapsto> bs), ph_next := ph_next m + 1\<rparr>, g')))"
  by (simp_all add: phone_service_def on_object_def modify_def split: option.split)

lemma sample_disk_calls:
  "ho_rewind disk_host 4 \<lparr>dk_files = [4 \<mapsto> fl], dk_room = room\<rparr>
     = (Inr (), \<lparr>dk_files = [4 \<mapsto> fl\<lparr>sp_cursor := 0\<rparr>], dk_room = room\<rparr>)"
  "read_exact_or_short (ho_read disk_host 4) 4 step
      \<lparr>dk_files = [4 \<mapsto> \<lparr>sp_data = [a, b, c, d], sp_cursor = 0\<rparr>], dk_room = room\<rparr>
    = (Inr [a, b, c, d], \<lparr>dk_files = [4 \<mapsto> \<lparr>sp_data = [a, b, c, d], sp_cursor = Suc (Suc (Suc (Suc 0)))\<rparr>], dk_room = room\<rparr>)"
  by (simp_all add: read_exact_or_short_def read_exact_loop.simps disk_host_def with_file_def put_file_def Let_def)

text \<open>What \<open>simp\<close> needs to run a callback on the sample mount.\<close>

lemmas sample_runs = and_then_def err_def modify_def map_err_def unwrap_or_def or_fail_def
  on_mtp_def on_host_def next_count_def aside_name_def device_free_def phone_calls sample_disk_calls
  sample_phone_def sample_fs_def sample_pending_def sample_disk_def tree_get_def
  u64_max_def errnos

lemma sample_tree_get: "tr_entries sample_tree 2 = Some sample_file" "unat (en_size sample_file) = 3"
  by (simp_all add: sample_tree_fields sample_file_def)

end
