(* ===== verification/Mtpfs_Replace.thy ===== *)
theory Mtpfs_Replace
  imports Mtpfs_Phone
begin

text \<open>
  How a file on the device is replaced: the calls a send and a rename make, in their order. The
  calls are read off a service that writes each into a log; the protocols are the step relations
  they must follow.
\<close>

section \<open>The log of calls\<close>

datatype event =
    Space "nat option"
  | Renamed u32 ustring bool
  | Moved u32 u32 bool
  | Deleted u32 bool
  | Sent u32 ustring nat bool
  | MadeObject u32 ustring bool

definition succeeded :: "'e + 'a \<Rightarrow> bool" where
  "succeeded r \<longleftrightarrow> (case r of Inl e \<Rightarrow> False | Inr a \<Rightarrow> True)"

lemma succeeded_simps [simp]: "succeeded (Inr a)" "\<not> succeeded (Inl e)"
  by (simp_all add: succeeded_def)

definition logged :: "(('e + 'a) \<Rightarrow> event) \<Rightarrow> ('m, 'e, 'a) sm \<Rightarrow> ('m \<times> event list, 'e, 'a) sm" where
  "logged ev m = (\<lambda>(s, log). case m s of (r, s') \<Rightarrow> (r, (s', log @ [ev r])))"

definition space_event :: "'e + (u64 \<times> u64) \<Rightarrow> event" where
  "space_event r = Space (case r of Inl e \<Rightarrow> None | Inr (full, free) \<Rightarrow> Some (unat free))"

definition traced :: "('m, 'h) service \<Rightarrow> ('m \<times> event list, 'h) service" where
  "traced S =
     \<lparr>sv_list = (\<lambda>p. on_fst (sv_list S p)),
      sv_read_at = (\<lambda>h at n sz. on_fst (sv_read_at S h at n sz)),
      sv_send_object = (\<lambda>p name d dir. logged (\<lambda>r. MadeObject p name (succeeded r)) (sv_send_object S p name d dir)),
      sv_send_stream = (\<lambda>R p name sz ((m, log), h).
        case sv_send_stream S R p name sz (m, h) of
          (r, (m', h')) \<Rightarrow> (r, ((m', log @ [Sent p name sz (succeeded r)]), h'))),
      sv_storage_info = logged space_event (sv_storage_info S),
      sv_rename = (\<lambda>h name. logged (\<lambda>r. Renamed h name (succeeded r)) (sv_rename S h name)),
      sv_move = (\<lambda>h p. logged (\<lambda>r. Moved h p (succeeded r)) (sv_move S h p)),
      sv_delete = (\<lambda>h. logged (\<lambda>r. Deleted h (succeeded r)) (sv_delete S h)),
      sv_can_rename = (\<lambda>(m, log). sv_can_rename S m),
      sv_can_move = (\<lambda>(m, log). sv_can_move S m)\<rparr>"

definition log_of :: "('m \<times> event list, 'h) fs \<Rightarrow> event list" where
  "log_of fs = snd (fs_mtp fs)"

lemma on_mtp_traced:
  assumes "fs_mtp fs = (m, log)"
  shows "on_mtp (sv_rename (traced S) h name) fs = (case sv_rename S h name m of
      (r, m') \<Rightarrow> (r, fs\<lparr>fs_mtp := (m', log @ [Renamed h name (succeeded r)])\<rparr>))"
    and "on_mtp (sv_delete (traced S) h) fs = (case sv_delete S h m of
      (r, m') \<Rightarrow> (r, fs\<lparr>fs_mtp := (m', log @ [Deleted h (succeeded r)])\<rparr>))"
    and "on_mtp (sv_move (traced S) h p) fs = (case sv_move S h p m of
      (r, m') \<Rightarrow> (r, fs\<lparr>fs_mtp := (m', log @ [Moved h p (succeeded r)])\<rparr>))"
    and "on_mtp (sv_storage_info (traced S)) fs = (case sv_storage_info S m of
      (r, m') \<Rightarrow> (r, fs\<lparr>fs_mtp := (m', log @ [space_event r])\<rparr>))"
  using assms by (simp_all add: on_mtp_def traced_def logged_def split: prod.split)

lemma stream_spool_traced:
  assumes "fs_mtp fs = (m, log)"
  shows "\<exists>r m' h'. stream_spool (traced S) H p fs =
    (r, fs\<lparr>fs_mtp := (m', log @ [Sent (pn_parent p) (pn_name p) (pn_size p) (succeeded r)]), fs_host := h'\<rparr>)"
  using assms
  by (cases "sv_send_stream S (ho_read H (pn_spool p)) (pn_parent p) (pn_name p) (pn_size p) (m, fs_host fs)")
     (auto simp: stream_spool_def traced_def)

section \<open>The protocol of a send\<close>

text \<open>
  \<open>send_protocol p rc keep evs\<close>: a send of the entry \<open>p\<close> may answer \<open>rc\<close> after the calls \<open>evs\<close>;
  \<open>keep\<close> says whether the spool file must stay. A send that keeps two copies moves the old
  object aside, under its name with \<open>.bsdroid-old-\<close> and a number, and takes it away last; the other
  way is open only when two copies do not fit.
\<close>

definition aside_of :: "ustring \<Rightarrow> ustring \<Rightarrow> bool" where
  "aside_of name aside \<longleftrightarrow> (\<exists>n. aside = name @ lit ''.bsdroid-old-'' @ decimal n)"

inductive send_protocol :: "pending \<Rightarrow> int \<Rightarrow> bool \<Rightarrow> event list \<Rightarrow> bool" for p where
  NotStarted: "rc = (case pn_broken p of Some e \<Rightarrow> - e | None \<Rightarrow> - EIO) \<Longrightarrow> send_protocol p rc False []"
| NewFile: "pn_replaces p = None \<Longrightarrow> rc = (if done then 0 else - EIO) \<Longrightarrow>
    send_protocol p rc False [Sent (pn_parent p) (pn_name p) (pn_size p) done]"
| NotAside: "pn_replaces p = Some old \<Longrightarrow> aside_of (pn_name p) aside \<Longrightarrow> \<forall>f. free = Some f \<longrightarrow> pn_size p \<le> f \<Longrightarrow>
    send_protocol p (- EIO) False [Space free, Renamed old aside False]"
| Replaced: "pn_replaces p = Some old \<Longrightarrow> aside_of (pn_name p) aside \<Longrightarrow> \<forall>f. free = Some f \<longrightarrow> pn_size p \<le> f \<Longrightarrow>
    send_protocol p 0 False
      [Space free, Renamed old aside True, Sent (pn_parent p) (pn_name p) (pn_size p) True, Deleted old gone]"
| PutBack: "pn_replaces p = Some old \<Longrightarrow> aside_of (pn_name p) aside \<Longrightarrow> \<forall>f. free = Some f \<longrightarrow> pn_size p \<le> f \<Longrightarrow>
    send_protocol p (- EIO) False
      [Space free, Renamed old aside True, Sent (pn_parent p) (pn_name p) (pn_size p) False,
       Renamed old (pn_name p) back]"
| NoRoom: "pn_replaces p = Some old \<Longrightarrow> free < pn_size p \<Longrightarrow>
    send_protocol p (- ENOSPC) False [Space (Some free)]"
| NotRemoved: "pn_replaces p = Some old \<Longrightarrow> free < pn_size p \<Longrightarrow>
    send_protocol p (- EIO) False [Space (Some free), Deleted old False]"
| RemovedFirst: "pn_replaces p = Some old \<Longrightarrow> free < pn_size p \<Longrightarrow> rc = (if done then 0 else - EIO) \<Longrightarrow>
    send_protocol p rc (\<not> done)
      [Space (Some free), Deleted old True, Sent (pn_parent p) (pn_name p) (pn_size p) done]"

inductive_cases send_protocolE: "send_protocol p rc keep evs"

lemma send_protocol_no_early_delete:
  assumes "send_protocol p rc keep evs" and "evs = pre @ Deleted old b # post"
  shows "Sent (pn_parent p) (pn_name p) (pn_size p) True \<in> set pre
    \<or> (\<exists>free. Space (Some free) \<in> set pre \<and> free < pn_size p)"
  using assms by (cases rule: send_protocol.cases) (auto simp: Cons_eq_append_conv)

lemma send_protocol_ok:
  assumes "send_protocol p 0 keep evs" and "pn_broken p \<noteq> Some 0"
  shows "Sent (pn_parent p) (pn_name p) (pn_size p) True \<in> set evs" and "\<not> keep"
  using assms by (cases rule: send_protocol.cases; auto simp: errnos split: option.splits if_splits)+

lemma on_mtp_state: "on_mtp m fs = (fst (m (fs_mtp fs)), fs\<lparr>fs_mtp := snd (m (fs_mtp fs))\<rparr>)"
  by (simp add: on_mtp_def case_prod_beta)

lemma make_room_asks:
  assumes "pn_replaces p = Some old" and "sv_storage_info S (fs_mtp fs) = (q, m1)"
    and "n = (case q of Inl e \<Rightarrow> u64_max | Inr (full, f) \<Rightarrow> unat f)"
    and "osz = (case tree_get (fs_tree fs) old of Some e \<Rightarrow> unat (en_size e) | None \<Rightarrow> 0)"
  shows "make_room S p fs =
     (if pn_size p \<le> n then
        and_then (aside_name (pn_name p)) (\<lambda>aside.
        and_then (or_fail EIO (on_mtp (sv_rename S old aside))) (\<lambda>_. ok (p, True)))
      else if pn_size p \<le> min u64_max (n + osz) then
        and_then (or_fail EIO (on_mtp (sv_delete S old))) (\<lambda>_.
        ok (p\<lparr>pn_replaces := None\<rparr>, False))
      else err (- ENOSPC)) (fs\<lparr>fs_mtp := m1\<rparr>)"
proof -
  have "device_free S fs = (Inr n, fs\<lparr>fs_mtp := m1\<rparr>)"
    using assms(2,3) by (auto simp: device_free_def unwrap_or_def or_fail_def map_err_def and_then_def
        on_mtp_def split: sum.splits prod.splits)
  then show ?thesis
    unfolding make_room_def assms(1,4) option.case Let_def by (rule and_then_Inr)
qed

text \<open>What the host knows of the storage stands in the log; a missing answer is an endless one.\<close>

lemma make_room_traced:
  assumes fs: "fs_mtp fs = (m, log)" and old: "pn_replaces p = Some old" and fits: "pn_size p \<le> u64_max"
    and run: "make_room (traced S) p fs = (r, fs')"
  shows "(\<exists>m' free a. aside_of (pn_name p) a \<and> (\<forall>f. free = Some f \<longrightarrow> pn_size p \<le> f) \<and> r = Inr (p, True)
        \<and> fs_mtp fs' = (m', log @ [Space free, Renamed old a True]))
   \<or> (\<exists>m' free a. aside_of (pn_name p) a \<and> (\<forall>f. free = Some f \<longrightarrow> pn_size p \<le> f) \<and> r = Inl (- EIO)
        \<and> fs_mtp fs' = (m', log @ [Space free, Renamed old a False]))
   \<or> (\<exists>m' f. f < pn_size p \<and> r = Inr (p\<lparr>pn_replaces := None\<rparr>, False)
        \<and> fs_mtp fs' = (m', log @ [Space (Some f), Deleted old True]))
   \<or> (\<exists>m' f. f < pn_size p \<and> r = Inl (- EIO)
        \<and> fs_mtp fs' = (m', log @ [Space (Some f), Deleted old False]))
   \<or> (\<exists>m' f. f < pn_size p \<and> r = Inl (- ENOSPC) \<and> fs_mtp fs' = (m', log @ [Space (Some f)]))"
proof -
  obtain q m1 where q: "sv_storage_info S m = (q, m1)" by fastforce
  obtain n where n: "(case q of Inl e \<Rightarrow> u64_max | Inr (full, f) \<Rightarrow> unat f) = n" by blast
  let ?free = "case q of Inl e \<Rightarrow> None | Inr (full, f) \<Rightarrow> Some (unat f)"
  let ?fs1 = "fs\<lparr>fs_mtp := (m1, log @ [space_event q])\<rparr>"
  have space: "space_event q = Space ?free" by (simp add: space_event_def)
  have known: "?free = Some f \<Longrightarrow> n = f" and unknown: "?free = None \<Longrightarrow> n = u64_max" for f
    using n by (auto split: sum.splits prod.splits)
  let ?osz = "case tree_get (fs_tree fs) old of Some e \<Rightarrow> unat (en_size e) | None \<Rightarrow> 0"
  have "sv_storage_info (traced S) (fs_mtp fs) = (q, (m1, log @ [space_event q]))"
    using q by (simp add: fs traced_def logged_def)
  note room = make_room_asks [OF old this n [symmetric] refl]
  show ?thesis
  proof (cases "pn_size p \<le> n")
    case True
    then have known_room: "\<forall>f. ?free = Some f \<longrightarrow> pn_size p \<le> f" using known by auto
    let ?fs2 = "?fs1\<lparr>fs_count := fs_count fs + 1\<rparr>"
    let ?aside = "pn_name p @ lit ''.bsdroid-old-'' @ decimal (unat (fs_count fs))"
    obtain x m2 where x: "sv_rename S old ?aside m1 = (x, m2)" by fastforce
    have mtp2: "fs_mtp ?fs2 = (m1, log @ [space_event q])" by simp
    have "r = (case x of Inl e \<Rightarrow> Inl (- EIO) | Inr _ \<Rightarrow> Inr (p, True))
      \<and> fs_mtp fs' = (m2, log @ [space_event q, Renamed old ?aside (succeeded x)])"
      using run old True x
      by (cases x) (auto simp: room aside_name_def next_count_def or_fail_def map_err_def
          and_then_def on_mtp_traced(1) [OF mtp2])
    moreover have "aside_of (pn_name p) ?aside" by (auto simp: aside_of_def)
    ultimately show ?thesis using known_room space by (cases x) auto
  next
    case False
    then obtain f where f: "?free = Some f" "f < pn_size p"
      using known unknown fits by (cases ?free) auto
    have mtp1: "fs_mtp ?fs1 = (m1, log @ [space_event q])" by simp
    show ?thesis
    proof (cases "pn_size p \<le> min u64_max (n + ?osz)")
      case True
      obtain x m2 where x: "sv_delete S old m1 = (x, m2)" by fastforce
      have "r = (case x of Inl e \<Rightarrow> Inl (- EIO) | Inr _ \<Rightarrow> Inr (p\<lparr>pn_replaces := None\<rparr>, False))
        \<and> fs_mtp fs' = (m2, log @ [space_event q, Deleted old (succeeded x)])"
        using run old False True x
        by (cases x) (auto simp: room or_fail_def map_err_def
            and_then_def on_mtp_traced(2) [OF mtp1])
      then show ?thesis using f space by (cases x) auto
    next
      case no: False
      then have "r = Inl (- ENOSPC) \<and> fs_mtp fs' = (m1, log @ [Space ?free])"
        using run old False by (auto simp: room space)
      then show ?thesis using f by auto
    qed
  qed
qed

lemma finish_send_traced:
  assumes "fs_mtp fs = (m, log)"
    and "finish_send (traced S) p exists answer fs = ((rc, p'), fs')"
  shows "rc = (if succeeded answer then 0 else - EIO)"
    and "pn_keep_spool p' = (pn_keep_spool p \<or> \<not> exists \<and> \<not> succeeded answer)"
    and "\<exists>b. log_of fs' = log @ (case pn_replaces p of None \<Rightarrow> []
      | Some old \<Rightarrow> if succeeded answer then [Deleted old b] else [Renamed old (pn_name p) b])"
  using assms
  by (auto simp: finish_send_def Let_def log_of_def on_mtp_traced [OF assms(1)]
      split: sum.splits option.splits prod.splits)

lemma send_pending_log:
  assumes fits: "pn_size p \<le> u64_max" and run: "send_pending (traced S) H p fs = ((rc, p'), fs')"
  shows "\<exists>evs keep. log_of fs' = log_of fs @ evs \<and> send_protocol p rc keep evs
    \<and> pn_keep_spool p' = (pn_keep_spool p \<or> keep)"
proof -
  obtain m log where fs: "fs_mtp fs = (m, log)" by fastforce
  obtain q h where q: "ho_rewind H (pn_spool p) (fs_host fs) = (q, h)" by fastforce
  have fs1: "fs_mtp (fs\<lparr>fs_host := h\<rparr>) = (m, log)" by (simp add: fs)
  show ?thesis
  proof (cases "pn_broken p = None \<and> succeeded q")
    case False
    then have "fs_mtp fs' = fs_mtp fs \<and> p' = p
        \<and> rc = (case pn_broken p of Some e \<Rightarrow> - e | None \<Rightarrow> - EIO)"
      using run q by (auto simp: send_pending_def or_fail_def map_err_def on_host_def succeeded_def
          split: option.splits sum.splits)
    then show ?thesis using send_protocol.NotStarted [of rc p] by (auto simp: log_of_def)
  next
    case True
    obtain x fs2 where x: "make_room (traced S) p (fs\<lparr>fs_host := h\<rparr>) = (x, fs2)" by fastforce
    have body: "send_pending (traced S) H p fs = (case x of
        Inl rc \<Rightarrow> ((rc, p), fs2)
      | Inr (p1, ex) \<Rightarrow> (case stream_spool (traced S) H p1 fs2 of
          (answer, fs3) \<Rightarrow> finish_send (traced S) p1 ex answer fs3))"
      using True q x by (cases q) (auto simp: send_pending_def or_fail_def map_err_def on_host_def
          split: sum.split)
    have finish: "\<exists>fin b. log_of fs' = log' @ [Sent (pn_parent p1) (pn_name p1) (pn_size p1) fin]
          @ (case pn_replaces p1 of None \<Rightarrow> []
             | Some old \<Rightarrow> if fin then [Deleted old b] else [Renamed old (pn_name p1) b])
        \<and> rc = (if fin then 0 else - EIO)
        \<and> pn_keep_spool p' = (pn_keep_spool p1 \<or> \<not> ex \<and> \<not> fin)"
      if x1: "x = Inr (p1, ex)" and fs2: "fs_mtp fs2 = (m', log')" for p1 ex m' log'
    proof -
      obtain r m2 h2 where st: "stream_spool (traced S) H p1 fs2 = (r, fs2\<lparr>fs_mtp := (m2, log' @
          [Sent (pn_parent p1) (pn_name p1) (pn_size p1) (succeeded r)]), fs_host := h2\<rparr>)"
        using stream_spool_traced [OF fs2] by blast
      let ?fs3 = "fs2\<lparr>fs_mtp := (m2, log' @
          [Sent (pn_parent p1) (pn_name p1) (pn_size p1) (succeeded r)]), fs_host := h2\<rparr>"
      have m3: "fs_mtp ?fs3 = (m2, log' @ [Sent (pn_parent p1) (pn_name p1) (pn_size p1) (succeeded r)])"
        by simp
      have "finish_send (traced S) p1 ex r ?fs3 = ((rc, p'), fs')"
        using run body x1 st by simp
      note done_by = finish_send_traced [OF m3 this]
      from done_by(3) obtain b where
        "log_of fs' = log' @ [Sent (pn_parent p1) (pn_name p1) (pn_size p1) (succeeded r)]
          @ (case pn_replaces p1 of None \<Rightarrow> []
             | Some old \<Rightarrow> if succeeded r then [Deleted old b] else [Renamed old (pn_name p1) b])"
        by auto
      with done_by(1,2) show ?thesis by blast
    qed
    show ?thesis
    proof (cases "pn_replaces p")
      case None
      then have "x = Inr (p, True)" "fs2 = fs\<lparr>fs_host := h\<rparr>" using x by (simp_all add: make_room_def)
      with finish [of p True m log] fs1 obtain fin where
        "log_of fs' = log @ [Sent (pn_parent p) (pn_name p) (pn_size p) fin]"
        "rc = (if fin then 0 else - EIO)" "pn_keep_spool p' = pn_keep_spool p"
        using None by auto
      then show ?thesis
        using send_protocol.NewFile [OF None, of rc fin] by (auto simp: log_of_def fs)
    next
      case (Some old)
      have early: "rc = e \<and> p' = p \<and> fs' = fs2" if "x = Inl e" for e
        using run body that by simp
      from make_room_traced [OF fs1 Some fits x] consider
          (aside) m' free a where "aside_of (pn_name p) a" "\<forall>f. free = Some f \<longrightarrow> pn_size p \<le> f" "x = Inr (p, True)"
            "fs_mtp fs2 = (m', log @ [Space free, Renamed old a True])"
        | (not_aside) m' free a where "aside_of (pn_name p) a" "\<forall>f. free = Some f \<longrightarrow> pn_size p \<le> f" "x = Inl (- EIO)"
            "fs_mtp fs2 = (m', log @ [Space free, Renamed old a False])"
        | (removed) m' f where "f < pn_size p" "x = Inr (p\<lparr>pn_replaces := None\<rparr>, False)"
            "fs_mtp fs2 = (m', log @ [Space (Some f), Deleted old True])"
        | (stays) m' f where "f < pn_size p" "x = Inl (- EIO)"
            "fs_mtp fs2 = (m', log @ [Space (Some f), Deleted old False])"
        | (full) m' f where "f < pn_size p" "x = Inl (- ENOSPC)"
            "fs_mtp fs2 = (m', log @ [Space (Some f)])"
        by blast
      then show ?thesis
      proof cases
        case aside
        from finish [OF aside(3,4)] Some obtain fin b where
          l: "log_of fs' = log @ [Space free, Renamed old a True, Sent (pn_parent p) (pn_name p) (pn_size p) fin]
             @ (if fin then [Deleted old b] else [Renamed old (pn_name p) b])"
          "rc = (if fin then 0 else - EIO)" "pn_keep_spool p' = pn_keep_spool p" by auto
        then show ?thesis
          using send_protocol.Replaced [OF Some aside(1,2), of b]
            send_protocol.PutBack [OF Some aside(1,2), of b]
          by (cases fin) (auto simp: log_of_def fs)
      next
        case not_aside
        then show ?thesis
          using early send_protocol.NotAside [OF Some not_aside(1,2)] by (auto simp: log_of_def fs)
      next
        case removed
        from finish [OF removed(2,3)] obtain fin where
          "log_of fs' = log @ [Space (Some f), Deleted old True, Sent (pn_parent p) (pn_name p) (pn_size p) fin]"
          "rc = (if fin then 0 else - EIO)" "pn_keep_spool p' = (pn_keep_spool p \<or> \<not> fin)" by auto
        then show ?thesis
          using send_protocol.RemovedFirst [OF Some removed(1), of rc fin]
          by (intro exI [of _ "\<not> fin"] exI [of _ "[Space (Some f), Deleted old True,
            Sent (pn_parent p) (pn_name p) (pn_size p) fin]"]) (auto simp: log_of_def fs)
      next
        case stays
        then show ?thesis
          using early send_protocol.NotRemoved [OF Some stays(1)] by (auto simp: log_of_def fs)
      next
        case full
        then show ?thesis
          using early send_protocol.NoRoom [OF Some full(1)] by (auto simp: log_of_def fs)
      qed
    qed
  qed
qed

section \<open>The calls of a rename\<close>

text \<open>\<open>logs m Q\<close>: \<open>m\<close> answers \<open>r\<close> after the calls \<open>evs\<close> only when \<open>Q r evs\<close>.\<close>

definition logs ::
    "(('m \<times> event list, 'h) fs, 'e, 'a) sm \<Rightarrow> ('e + 'a \<Rightarrow> event list \<Rightarrow> bool) \<Rightarrow> bool" where
  "logs m Q \<longleftrightarrow> (\<forall>fs r fs'. m fs = (r, fs') \<longrightarrow> (\<exists>evs. log_of fs' = log_of fs @ evs \<and> Q r evs))"

lemma logsI:
  "(\<And>fs r fs'. m fs = (r, fs') \<Longrightarrow> \<exists>evs. log_of fs' = log_of fs @ evs \<and> Q r evs) \<Longrightarrow> logs m Q"
  by (simp add: logs_def)

lemma logsD: "logs m Q \<Longrightarrow> m fs = (r, fs') \<Longrightarrow> \<exists>evs. log_of fs' = log_of fs @ evs \<and> Q r evs"
  by (simp add: logs_def)

lemma logs_quiet: "(\<And>fs. log_of (snd (m fs)) = log_of fs \<and> Q (fst (m fs)) []) \<Longrightarrow> logs m Q"
  by (rule logsI) (metis append_Nil2 fst_conv snd_conv)

lemma logs_weaken: "logs m Q \<Longrightarrow> (\<And>r evs. Q r evs \<Longrightarrow> R r evs) \<Longrightarrow> logs m R"
  unfolding logs_def by blast

lemma logs_and_then:
  assumes "logs m Q" and "\<And>e evs. Q (Inl e) evs \<Longrightarrow> R (Inl e) evs"
    and "\<And>a evs. Q (Inr a) evs \<Longrightarrow> logs (f a) (\<lambda>r evs'. R r (evs @ evs'))"
  shows "logs (and_then m f) R"
proof (rule logsI)
  fix fs r fs'
  assume run: "and_then m f fs = (r, fs')"
  obtain x fs1 where x: "m fs = (x, fs1)" by fastforce
  from logsD [OF assms(1) x] obtain evs where evs: "log_of fs1 = log_of fs @ evs" "Q x evs" by blast
  show "\<exists>evs. log_of fs' = log_of fs @ evs \<and> R r evs"
  proof (cases x)
    case (Inl e)
    then show ?thesis using run x evs assms(2) by auto
  next
    case (Inr a)
    then have "f a fs1 = (r, fs')" using run x by simp
    from logsD [OF assms(3) this] evs Inr show ?thesis by (metis append_assoc)
  qed
qed

lemma logs_call:
  "logs (on_mtp (sv_rename (traced S) h name)) (\<lambda>r evs. evs = [Renamed h name (succeeded r)])"
  "logs (on_mtp (sv_delete (traced S) h)) (\<lambda>r evs. evs = [Deleted h (succeeded r)])"
  "logs (on_mtp (sv_move (traced S) h p)) (\<lambda>r evs. evs = [Moved h p (succeeded r)])"
  by (rule logsI, auto simp: on_mtp_def traced_def logged_def log_of_def split: prod.splits)+

lemma logs_or_fail:
  assumes "logs m Q" and "\<And>e evs. Q (Inl e) evs \<Longrightarrow> R (Inl (- rc)) evs"
    and "\<And>a evs. Q (Inr a) evs \<Longrightarrow> R (Inr a) evs"
  shows "logs (or_fail rc m) R"
proof (rule logsI)
  fix fs r fs'
  assume run: "or_fail rc m fs = (r, fs')"
  obtain x fs1 where x: "m fs = (x, fs1)" by fastforce
  from logsD [OF assms(1) x] obtain evs where "log_of fs1 = log_of fs @ evs" "Q x evs" by blast
  then show "\<exists>evs. log_of fs' = log_of fs @ evs \<and> R r evs"
    using run x assms(2,3) by (cases x) (auto simp: or_fail_def map_err_def)
qed

lemma resolve_rounds_log: "log_of (snd (resolve_rounds (traced S) k path fs)) = log_of fs"
proof (induction k arbitrary: fs)
  case (Suc k)
  have same: "log_of (fs1\<lparr>fs_tree := t\<rparr>) = log_of fs" "log_of fs1 = log_of fs"
    if "on_mtp (sv_list (traced S) p) fs = (r, fs1)" for p r fs1 t
    using that by (auto simp: on_mtp_def traced_def log_of_def on_fst_def split: prod.splits)
  show ?case
    using Suc same by (auto split: lookup.split prod.split sum.split)
qed simp

lemma resolve_log: "log_of (snd (resolve (traced S) path fs)) = log_of fs"
  by (simp add: resolve_def resolve_rounds_log)

lemma logs_resolved: "logs (resolved (traced S) path) (\<lambda>r evs. evs = [])"
proof (rule logs_quiet)
  fix fs
  show "log_of (snd (resolved (traced S) path fs)) = log_of fs \<and> [] = []"
    using resolve_log [of S path fs] by (auto simp: resolved_def split: prod.splits option.splits)
qed

definition removes :: "event list \<Rightarrow> bool" where
  "removes evs \<longleftrightarrow> (\<exists>old b. Deleted old b \<in> set evs)"

lemma removes_simps [simp]:
  "\<not> removes []" "removes (Deleted k b # evs)" "removes (Renamed k name b # evs) = removes evs"
  "removes (Moved k q b # evs) = removes evs" "removes (xs @ ys) = (removes xs \<or> removes ys)"
  by (auto simp: removes_def)

fun event_ok :: "event \<Rightarrow> bool" where
  "event_ok (Space free) = (free \<noteq> None)"
| "event_ok (Renamed h name b) = b"
| "event_ok (Moved h p b) = b"
| "event_ok (Deleted h b) = b"
| "event_ok (Sent p name n b) = b"
| "event_ok (MadeObject p name b) = b"

lemma logs_move_aside:
  "logs (move_aside (traced S) to handle new_parent new_name) (\<lambda>r evs. \<not> removes evs \<and> (case r of
       Inl e \<Rightarrow> True
     | Inr None \<Rightarrow> evs = []
     | Inr (Some None) \<Rightarrow> evs = []
     | Inr (Some (Some taken)) \<Rightarrow> \<exists>a. evs = [Renamed taken a True]))"
proof (rule logsI)
  fix fs r fs'
  assume run: "move_aside (traced S) to handle new_parent new_name fs = (r, fs')"
  obtain x fs1 where x: "resolve (traced S) to fs = (x, fs1)" by fastforce
  then have l1: "log_of fs1 = log_of fs" using resolve_log by (metis snd_conv)
  show "\<exists>evs. log_of fs' = log_of fs @ evs \<and> \<not> removes evs \<and> (case r of
       Inl e \<Rightarrow> True | Inr None \<Rightarrow> evs = [] | Inr (Some None) \<Rightarrow> evs = []
     | Inr (Some (Some taken)) \<Rightarrow> \<exists>a. evs = [Renamed taken a True])"
  proof (cases "x = None \<or> x = Some handle \<or> x = Some TREE_ROOT")
    case True
    then show ?thesis using run x l1 by (auto simp: move_aside_def split: if_splits)
  next
    case False
    then obtain taken where t: "x = Some taken" "taken \<noteq> handle" "taken \<noteq> TREE_ROOT" by auto
    let ?fs2 = "fs1\<lparr>fs_count := fs_count fs1 + 1\<rparr>"
    let ?a = "new_name @ lit ''.bsdroid-old-'' @ decimal (unat (fs_count fs1))"
    obtain y fs3 where y: "on_mtp (sv_rename (traced S) taken ?a) ?fs2 = (y, fs3)" by fastforce
    have "log_of fs3 = log_of fs @ [Renamed taken ?a (succeeded y)]"
      using logsD [OF logs_call(1) y] l1 by (auto simp: log_of_def)
    then show ?thesis
      using run x t y
      by (cases y) (auto simp: move_aside_def aside_name_def next_count_def or_fail_def map_err_def
          and_then_def forget_def log_of_def)
  qed
qed

lemma logs_move_to_folder:
  "logs (move_to_folder (traced S) handle old_parent new_parent)
     (\<lambda>r evs. \<not> removes evs \<and> (succeeded r \<longrightarrow> list_all event_ok evs))"
proof -
  have "logs (or_fail EIO (on_mtp (sv_move (traced S) handle new_parent)))
     (\<lambda>r evs. \<not> removes evs \<and> (succeeded r \<longrightarrow> list_all event_ok evs))"
    by (rule logs_or_fail [OF logs_call(3)]) simp_all
  note moved = logsD [OF this]
  show ?thesis
    by (rule logsI) (auto simp: move_to_folder_def dest: moved split: if_splits)
qed

lemma logs_take_name:
  "logs (take_name (traced S) handle new_parent new_name aside)
     (\<lambda>r evs. \<not> removes evs \<and> (succeeded r \<longrightarrow> list_all event_ok evs))"
proof (rule logsI)
  fix fs r fs'
  assume run: "take_name (traced S) handle new_parent new_name aside fs = (r, fs')"
  obtain x fs1 where x: "on_mtp (sv_rename (traced S) handle new_name) fs = (x, fs1)" by fastforce
  obtain y fs2 where y: "on_mtp (sv_rename (traced S) (the aside) new_name) fs1 = (y, fs2)" by fastforce
  have "log_of fs1 = log_of fs @ [Renamed handle new_name (succeeded x)]"
    "log_of fs2 = log_of fs1 @ [Renamed (the aside) new_name (succeeded y)]"
    using logsD [OF logs_call(1) x] logsD [OF logs_call(1) y] by auto
  then show "\<exists>evs. log_of fs' = log_of fs @ evs \<and> \<not> removes evs \<and> (succeeded r \<longrightarrow> list_all event_ok evs)"
    using run x y
    by (cases x) (auto simp: take_name_def Let_def log_of_def split: if_splits option.splits)
qed

text \<open>
  A rename takes an object away only as its last call, after every step before it worked.
\<close>

definition removes_last :: "event list \<Rightarrow> bool" where
  "removes_last evs \<longleftrightarrow>
     (\<exists>old a steps b. evs = Renamed old a True # steps @ [Deleted old b]
        \<and> \<not> removes steps \<and> list_all event_ok steps)"

lemma logs_rename:
  "logs (op_rename (traced S) from to)
     (\<lambda>r evs. removes evs \<longrightarrow> r = Inr () \<and> removes_last evs)"
proof -
  have forget: "logs (forget folder) (\<lambda>r evs. r = Inr () \<and> evs = [])" for folder
    by (rule logs_quiet) (simp add: forget_def log_of_def)
  have fin: "logs (and_then (case aside of
        Some old \<Rightarrow> ignoring (on_mtp (sv_delete (traced S) old)) | None \<Rightarrow> ok ()) (\<lambda>_.
      and_then (forget old_parent) (\<lambda>_. forget new_parent)))
      (\<lambda>r evs. r = Inr () \<and> (case aside of None \<Rightarrow> evs = [] | Some old \<Rightarrow> \<exists>b. evs = [Deleted old b]))"
    for aside old_parent new_parent
  proof (rule logs_and_then [where Q = "\<lambda>r evs. r = Inr () \<and>
        (case aside of None \<Rightarrow> evs = [] | Some old \<Rightarrow> \<exists>b. evs = [Deleted old b])"])
    show "logs (case aside of Some old \<Rightarrow> ignoring (on_mtp (sv_delete (traced S) old)) | None \<Rightarrow> ok ())
      (\<lambda>r evs. r = Inr () \<and> (case aside of None \<Rightarrow> evs = [] | Some old \<Rightarrow> \<exists>b. evs = [Deleted old b]))"
    proof (rule logsI)
      fix fs r fs'
      assume run: "(case aside of Some old \<Rightarrow> ignoring (on_mtp (sv_delete (traced S) old)) | None \<Rightarrow> ok ()) fs = (r, fs')"
      obtain y fs2 where y: "on_mtp (sv_delete (traced S) (the aside)) fs = (y, fs2)" by fastforce
      then show "\<exists>evs. log_of fs' = log_of fs @ evs \<and> r = Inr () \<and>
          (case aside of None \<Rightarrow> evs = [] | Some old \<Rightarrow> \<exists>b. evs = [Deleted old b])"
        using run logsD [OF logs_call(2) y] by (cases aside) (auto simp: ignoring_def)
    qed
  next
    fix a evs
    assume "Inr a = Inr () \<and> (case aside of None \<Rightarrow> evs = [] | Some old \<Rightarrow> \<exists>b. evs = [Deleted old b])"
    then show "logs (and_then (forget old_parent) (\<lambda>_. forget new_parent)) (\<lambda>r evs'. r = Inr () \<and>
        (case aside of None \<Rightarrow> evs @ evs' = [] | Some old \<Rightarrow> \<exists>b. evs @ evs' = [Deleted old b]))"
      by (intro logs_and_then [OF forget] logs_weaken [OF forget]) (auto split: option.splits)
  qed simp
  have tail: "logs (and_then (move_to_folder (traced S) handle old_parent new_parent) (\<lambda>_.
      and_then (take_name (traced S) handle new_parent new_name aside) (\<lambda>_.
      and_then (case aside of
          Some old \<Rightarrow> ignoring (on_mtp (sv_delete (traced S) old)) | None \<Rightarrow> ok ()) (\<lambda>_.
      and_then (forget old_parent) (\<lambda>_. forget new_parent)))))
      (\<lambda>r evs. removes evs \<longrightarrow> r = Inr () \<and> (\<exists>old steps b. aside = Some old
          \<and> evs = steps @ [Deleted old b] \<and> \<not> removes steps \<and> list_all event_ok steps))"
    for handle old_parent new_parent new_name aside
    by (rule logs_and_then [OF logs_move_to_folder], simp,
        rule logs_and_then [OF logs_take_name], simp, rule logs_weaken [OF fin])
       (fastforce split: option.splits)
  have main: "logs (and_then (move_aside (traced S) to handle new_parent new_name) (\<lambda>aside.
      case aside of
        None \<Rightarrow> ok ()
      | Some moved_aside \<Rightarrow>
          and_then (move_to_folder (traced S) handle old_parent new_parent) (\<lambda>_.
          and_then (take_name (traced S) handle new_parent new_name moved_aside) (\<lambda>_.
          and_then (case moved_aside of
              Some old \<Rightarrow> ignoring (on_mtp (sv_delete (traced S) old)) | None \<Rightarrow> ok ()) (\<lambda>_.
          and_then (forget old_parent) (\<lambda>_. forget new_parent))))))
      (\<lambda>r evs. removes evs \<longrightarrow> r = Inr () \<and> removes_last evs)"
    for handle old_parent new_parent new_name
  proof (rule logs_and_then [OF logs_move_aside])
    fix a evs
    assume q: "\<not> removes evs \<and> (case Inr a of
       Inl e \<Rightarrow> True | Inr None \<Rightarrow> evs = [] | Inr (Some None) \<Rightarrow> evs = []
     | Inr (Some (Some taken)) \<Rightarrow> \<exists>a. evs = [Renamed taken a True])"
    show "logs (case a of
        None \<Rightarrow> ok ()
      | Some moved_aside \<Rightarrow>
          and_then (move_to_folder (traced S) handle old_parent new_parent) (\<lambda>_.
          and_then (take_name (traced S) handle new_parent new_name moved_aside) (\<lambda>_.
          and_then (case moved_aside of
              Some old \<Rightarrow> ignoring (on_mtp (sv_delete (traced S) old)) | None \<Rightarrow> ok ()) (\<lambda>_.
          and_then (forget old_parent) (\<lambda>_. forget new_parent)))))
      (\<lambda>r evs'. removes (evs @ evs') \<longrightarrow> r = Inr () \<and> removes_last (evs @ evs'))"
    proof (cases a)
      case None
      then show ?thesis using q by (auto intro!: logs_quiet)
    next
      case (Some aside)
      show ?thesis
        unfolding Some option.case
        by (rule logs_weaken [OF tail])
           (use q Some in \<open>auto simp: removes_last_def split: option.splits\<close>)
    qed
  qed simp
  have quiet: "logs (err e) (\<lambda>r evs. removes evs \<longrightarrow> r = Inr () \<and> removes_last evs)" for e
    by (rule logs_quiet) simp
  show ?thesis
    unfolding op_rename_def Let_def
    by (rule logs_and_then [OF logs_resolved], simp, clarsimp simp: quiet)
       (intro impI logs_and_then [OF logs_resolved], simp_all add: main)
qed

text \<open>
  A rename onto a taken name in another folder of a device that cannot move objects: the taken
  object has already left its name, and nothing brings it back.
\<close>

lemma resolve_found: "lookup (fs_tree fs) path = Found h \<Longrightarrow> resolve S path fs = (Some h, fs)"
  by (simp add: resolve_def MAX_WALK_def eval_nat_numeral)

text \<open>
  C21: a rename to another folder, over an object that is there, on a device that cannot move
  objects: the object in the way is moved aside, the rename is refused, and the object is not
  given its name back.
\<close>

theorem op_rename_leaves_aside:
  assumes "lookup (fs_tree fs) from = Found handle" and "handle \<noteq> TREE_ROOT"
    and "split_parent from = (old_dir, old_name)" and "split_parent to = (new_dir, new_name)"
    and "new_name \<noteq> []" and "lookup (fs_tree fs) old_dir = Found old_parent"
    and "lookup (fs_tree fs) new_dir = Found new_parent" and "new_parent \<noteq> old_parent"
    and "lookup (fs_tree fs) to = Found taken" and "taken \<noteq> handle" and "taken \<noteq> TREE_ROOT"
    and "fs_mtp fs = (m, log)"
    and "sv_rename S taken (new_name @ lit ''.bsdroid-old-'' @ decimal (unat (fs_count fs))) m = (Inr (), m')"
    and "\<not> sv_can_move S m'"
  shows "\<exists>fs'. op_rename (traced S) from to fs = (Inl (- ENOTSUP), fs')
    \<and> fs_mtp fs' = (m', log @ [Renamed taken
        (new_name @ lit ''.bsdroid-old-'' @ decimal (unat (fs_count fs))) True])"
  using assms
  by (simp add: op_rename_def resolved_def resolve_found Let_def move_aside_def aside_name_def
      next_count_def or_fail_def on_mtp_def traced_def logged_def map_err_def forget_def
      move_to_folder_def and_then_def)

section \<open>Properties\<close>

lemma traced_calls:
  "sv_storage_info (traced S) = logged space_event (sv_storage_info S)"
  "sv_rename (traced S) h name = logged (\<lambda>r. Renamed h name (succeeded r)) (sv_rename S h name)"
  "sv_move (traced S) h q = logged (\<lambda>r. Moved h q (succeeded r)) (sv_move S h q)"
  "sv_delete (traced S) h = logged (\<lambda>r. Deleted h (succeeded r)) (sv_delete S h)"
  "sv_send_stream (traced S) R q name n ((m, log), h') =
     (case sv_send_stream S R q name n (m, h') of
        (r, (m', h'')) \<Rightarrow> (r, ((m', log @ [Sent q name n (succeeded r)]), h'')))"
  "sv_can_rename (traced S) (m, log) = sv_can_rename S m"
  "sv_can_move (traced S) (m, log) = sv_can_move S m"
  by (simp_all add: traced_def)

lemmas send_runs = sample_runs sample_tree_get traced_calls logged_def space_event_def
  send_pending_def make_room_def stream_spool_def finish_send_def log_of_def

text \<open>
  C1: sending a file that replaces one on the device makes the calls of the protocol, in its order
  and no others: the old object moves aside, the new contents go up, and the old object is removed
  last; before the new contents are in place nothing is removed, unless the device said that two
  copies do not fit, and then a send that fails keeps the spool file.
\<close>

theorem send_pending_protocol:
  assumes "pn_size p \<le> u64_max" and "send_pending (traced S) H p fs = ((rc, p'), fs')"
  shows "\<exists>evs keep. log_of fs' = log_of fs @ evs \<and> send_protocol p rc keep evs
    \<and> pn_keep_spool p' = (pn_keep_spool p \<or> keep)
    \<and> (\<forall>pre old b post. evs = pre @ Deleted old b # post \<longrightarrow>
        Sent (pn_parent p) (pn_name p) (pn_size p) True \<in> set pre
        \<or> (\<exists>free. Space (Some free) \<in> set pre \<and> free < pn_size p))"
  using send_pending_log [OF assms] send_protocol_no_early_delete by blast

lemma send_pending_protocol_witness:
  "\<exists>p' fs' evs. send_pending (traced (phone_service sample_dir)) disk_host sample_pending
      (sample_fs (sample_phone 100 False, []) Map.empty) = ((0, p'), fs')
    \<and> send_protocol sample_pending 0 False evs
    \<and> evs = [Space (Some 100), Renamed 2 (lit ''a.jpg.bsdroid-old-5'') True, Sent 1 (lit ''a.jpg'') 4 True, Deleted 2 True]"
proof -
  obtain p' fs' where run: "send_pending (traced (phone_service sample_dir)) disk_host sample_pending
      (sample_fs (sample_phone 100 False, []) Map.empty) = ((0, p'), fs')"
    and log: "log_of fs' = [Space (Some 100), Renamed 2 (lit ''a.jpg.bsdroid-old-5'') True,
      Sent 1 (lit ''a.jpg'') 4 True, Deleted 2 True]" and keep: "\<not> pn_keep_spool p'"
    by (simp add: send_runs lit_def decimal.simps)
  have "pn_size sample_pending \<le> u64_max" by (simp add: sample_pending_def u64_max_def)
  from send_pending_protocol [OF this run] log keep
  show ?thesis using run by (auto simp: log_of_def sample_fs_def)
qed

text \<open>
  A rename over an existing object removes that object only when everything else is done: if
  anything is removed at all, the rename succeeded, and the removal is the last call it makes.
\<close>

theorem rename_removes_last:
  "case op_rename (traced S) from to fs of (r, fs') \<Rightarrow>
     \<exists>evs. log_of fs' = log_of fs @ evs \<and> (if removes evs then r = Inr () \<and> removes_last evs else True)"
  using logsD [OF logs_rename [of S "from" to], of fs] by (auto split: prod.split)

lemma op_rename_leaves_aside_witness:
  "\<exists>fs'. op_rename (traced (phone_service sample_dir)) (lit ''/b.txt'') (lit ''/DCIM/a.jpg'')
      (sample_fs (sample_phone 100 False, []) Map.empty) = (Inl (- ENOTSUP), fs')
    \<and> fs_mtp fs' = (sample_phone 100 False, [Renamed 2 (lit ''a.jpg.bsdroid-old-5'') True])"
proof -
  let ?fs = "sample_fs (sample_phone 100 False, [] :: event list) Map.empty"
  have parents: "split_parent (lit ''/b.txt'') = (lit ''/'', lit ''b.txt'')"
      "split_parent (lit ''/DCIM/a.jpg'') = (lit ''/DCIM'', lit ''a.jpg'')"
    by (simp_all add: split_parent_def lit_def rsplit_once_def)
  have n: "lit ''a.jpg'' \<noteq> []" by (simp add: lit_def)
  have t: "fs_tree ?fs = sample_tree" "fs_mtp ?fs = (sample_phone 100 False, [])" "fs_count ?fs = 5"
    by (simp_all add: sample_fs_def)
  have r: "sv_rename (phone_service sample_dir) 2 name (sample_phone 100 False) = (Inr (), sample_phone 100 False)"
    for name by (simp add: phone_calls sample_phone_def)
  have "\<not> sv_can_move (phone_service sample_dir) (sample_phone 100 False)"
    by (simp add: phone_calls sample_phone_def)
  from op_rename_leaves_aside [of ?fs "lit ''/b.txt''" 3 "lit ''/''" "lit ''b.txt''" "lit ''/DCIM/a.jpg''"
      "lit ''/DCIM''" "lit ''a.jpg''" 0 1 2 "sample_phone 100 False" "[]" "phone_service sample_dir",
      OF _ _ parents n _ _ _ _ _ _ t(2) r this]
  moreover have "lit ''a.jpg'' @ lit ''.bsdroid-old-'' @ decimal 5 = lit ''a.jpg.bsdroid-old-5''"
    by (simp add: lit_def decimal.simps)
  ultimately show ?thesis by (simp add: t sample_lookups TREE_ROOT_def)
qed

end
