(* ===== verification/Mtpfs_Write.thy ===== *)
theory Mtpfs_Write
  imports Mtpfs_Replace
begin

text \<open>
  Files a program is writing: what a flush and a release do for readers and writers, what the
  spool file holds after a write, the object a writer adopts, and the arguments of the command
  line.
\<close>

section \<open>Flush and release\<close>

text \<open>The sends of this section do not touch the map of pending files.\<close>

lemma on_mtp_frame:
  "on_mtp m fs = (r, fs') \<Longrightarrow> fs_pending fs' = fs_pending fs"
  by (auto simp: on_mtp_def split: prod.splits)

lemma device_free_frame:
  "device_free S fs = (r, fs') \<Longrightarrow> fs_pending fs' = fs_pending fs"
  by (auto simp: device_free_def unwrap_or_def or_fail_def map_err_def and_then_def on_mtp_def
      split: prod.splits sum.splits)

definition same_pending :: "('m, 'h) fs \<Rightarrow> ('m, 'h) fs \<Rightarrow> bool" where
  "same_pending fs fs' \<longleftrightarrow> fs_pending fs' = fs_pending fs"

interpretation pending_step: step_order same_pending
  by unfold_locales (auto simp: same_pending_def)

lemma keeps_device_free: "keeps same_pending (device_free S)"
  by (rule keepsI) (auto simp: same_pending_def dest: device_free_frame)

lemma keeps_on_mtp: "keeps same_pending (on_mtp m)"
  by (rule keepsI) (auto simp: same_pending_def dest: on_mtp_frame)

lemma keeps_or_fail: "keeps same_pending m \<Longrightarrow> keeps same_pending (or_fail rc m)"
  unfolding or_fail_def by (rule pending_step.keeps_map_err)

lemma keeps_aside_name: "keeps same_pending (aside_name name)"
  by (rule keepsI) (auto simp: aside_name_def next_count_def same_pending_def)

lemma make_room_frame:
  assumes "make_room S p fs = (r, fs')"
  shows "fs_pending fs' = fs_pending fs"
proof (cases "pn_replaces p")
  case None
  then show ?thesis using assms by (simp add: make_room_def)
next
  case (Some old)
  let ?osz = "case tree_get (fs_tree fs) old of Some e \<Rightarrow> unat (en_size e) | None \<Rightarrow> 0"
  have "keeps same_pending (and_then (device_free S) (\<lambda>free.
            if pn_size p \<le> free then
              and_then (aside_name (pn_name p)) (\<lambda>aside.
              and_then (or_fail EIO (on_mtp (sv_rename S old aside))) (\<lambda>_. ok (p, True)))
            else if pn_size p \<le> min u64_max (free + ?osz) then
              and_then (or_fail EIO (on_mtp (sv_delete S old))) (\<lambda>_.
              ok (p\<lparr>pn_replaces := None\<rparr>, False))
            else err (- ENOSPC)))"
    by (auto simp del: ok_apply intro!: pending_step.keeps_and_then keeps_device_free keeps_aside_name
        keeps_or_fail keeps_on_mtp pending_step.keeps_ok pending_step.keeps_err)
  then show ?thesis
    using assms Some by (auto simp: make_room_def Let_def same_pending_def dest: keepsD)
qed

lemma send_pending_frame:
  assumes "send_pending S H p fs = (r, fs')"
  shows "fs_pending fs' = fs_pending fs"
proof -
  have fin: "fs_pending fs4 = fs_pending fs3" if "finish_send S q ex answer fs3 = (x, fs4)"
    for q ex answer fs3 x fs4
    using that
    by (cases "on_mtp (sv_delete S (the (pn_replaces q))) fs3";
        cases "on_mtp (sv_rename S (the (pn_replaces q)) (pn_name q)) fs3")
       (auto simp: finish_send_def Let_def dest: on_mtp_frame split: sum.splits option.splits)
  have st: "fs_pending fs3 = fs_pending fs2" if "stream_spool S H q fs2 = (x, fs3)" for q fs2 x fs3
    using that by (auto simp: stream_spool_def split: prod.splits)
  obtain q h where q: "ho_rewind H (pn_spool p) (fs_host fs) = (q, h)" by fastforce
  obtain x fs2 where x: "make_room S p (fs\<lparr>fs_host := h\<rparr>) = (x, fs2)" by fastforce
  have fs2: "fs_pending fs2 = fs_pending fs" using make_room_frame [OF x] by simp
  show ?thesis
  proof (cases "pn_broken p = None \<and> succeeded q \<and> succeeded x")
    case False
    then show ?thesis
      using assms q x fs2 by (auto simp: send_pending_def or_fail_def map_err_def on_host_def
          succeeded_def split: option.splits sum.splits)
  next
    case True
    then obtain p1 ex where x1: "x = Inr (p1, ex)" by (cases x) auto
    obtain a fs3 where a: "stream_spool S H p1 fs2 = (a, fs3)" by fastforce
    have "finish_send S p1 ex a fs3 = (r, fs')"
      using assms q x x1 a True
      by (cases q) (auto simp: send_pending_def or_fail_def map_err_def on_host_def)
    from fin [OF this] st [OF a] fs2 show ?thesis by simp
  qed
qed

text \<open>A second flush gives the answer of the first, and changes nothing.\<close>

lemma op_flush_twice:
  assumes "op_flush S H path fi fs = (rc, fs1)"
  shows "op_flush S H path fi fs1 = (rc, fs1)"
proof (cases "fh_writes fi \<and> fs_pending fs path \<noteq> None")
  case False
  then show ?thesis using assms by (auto simp: op_flush_def)
next
  case True
  then obtain p where p: "fs_pending fs path = Some p" by auto
  obtain q fs2 where q: "(case pn_sent p of
        Some earlier \<Rightarrow> ((earlier, p), remove_pending path fs)
      | None \<Rightarrow> (case send_pending S H p (remove_pending path fs) of
          ((rc, p'), fs') \<Rightarrow> ((rc, p'\<lparr>pn_sent := Some rc\<rparr>), fs'))) = ((rc, q), fs2)"
      and fs1: "fs1 = insert_pending H path q fs2"
    using assms True p by (auto simp: op_flush_def split: prod.splits)
  have sent: "pn_sent q = Some rc" using q by (auto split: option.splits prod.splits)
  have "fs_pending fs2 path = None"
    using q by (auto simp: remove_pending_def split: option.splits prod.splits dest!: send_pending_frame)
  then have "fs1 = fs2\<lparr>fs_pending := (fs_pending fs2)(path \<mapsto> q)\<rparr>" using fs1 by (simp add: insert_pending_def)
  then show ?thesis using True sent by (simp add: op_flush_def insert_pending_def remove_pending_def)
qed

text \<open>The close of a reader changes nothing.\<close>

lemma reader_close:
  "fh AND FH_WRITER = 0 \<Longrightarrow> op_flush S H path (Some fh) fs = (0, fs)
    \<and> op_release S H path (Some fh) fs = (0, fs)"
  by (simp add: op_flush_def op_release_def fh_writes_def)

lemma op_flush_pending:
  assumes "fh_writes fi" and "fs_pending fs path = Some p" and "op_flush S H path fi fs = (rc, fs1)"
  shows "\<exists>q. fs_pending fs1 path = Some q \<and> pn_sent q = Some rc"
  using assms
  by (auto simp: op_flush_def insert_pending_def drop_pending_def
      split: prod.splits option.splits if_splits)

text \<open>What a flush and a release do once there is an answer.\<close>

lemma op_flush_sent:
  "fh_writes fi \<Longrightarrow> fs_pending fs path = Some p \<Longrightarrow> pn_sent p = Some rc \<Longrightarrow>
     op_flush S H path fi fs = (rc, fs\<lparr>fs_pending := (fs_pending fs)(path \<mapsto> p)\<rparr>)"
  by (simp add: op_flush_def insert_pending_def remove_pending_def)

lemma op_release_sent:
  "fh_writes fi \<Longrightarrow> fs_pending fs path = Some p \<Longrightarrow> pn_sent p = Some rc \<Longrightarrow>
     op_release S H path fi fs = (0, drop_pending H p (remove_pending path fs))"
  by (simp add: op_release_def)

lemma op_write_pending:
  assumes "fs_pending fs path = Some p" and "op_write H path bs off fs = (r, fs')"
  shows "\<exists>q. fs_pending fs' path = Some q \<and> pn_sent q = pn_sent p \<and> pn_spool q = pn_spool p
      \<and> (pn_broken p \<noteq> None \<longrightarrow> pn_broken q \<noteq> None)
      \<and> (\<forall>rc. r = Inl rc \<longrightarrow> pn_broken q = Some (- rc))"
    and "fs_mtp fs' = fs_mtp fs"
  using assms
  by (auto simp: op_write_def break_pending_def Let_def split: prod.splits sum.splits if_splits)

text \<open>
  A write that failed keeps the file from the device, whatever is written after it.
\<close>

definition later_writes ::
    "'h host \<Rightarrow> (ustring \<times> bytes \<times> nat) list \<Rightarrow> ('m, 'h) fs \<Rightarrow> ('m, 'h) fs" where
  "later_writes H ws fs = fold (\<lambda>(path, bs, off) fs. snd (op_write H path bs off fs)) ws fs"

lemma op_write_other:
  assumes "op_write H path bs off fs = (r, fs')" and "path \<noteq> path'"
  shows "fs_pending fs' path' = fs_pending fs path'"
  using assms
  by (auto simp: op_write_def break_pending_def Let_def split: option.splits prod.splits sum.splits if_splits)

lemma op_write_mtp: "fs_mtp (snd (op_write H path bs off fs)) = fs_mtp fs"
  by (simp add: op_write_def break_pending_def Let_def split: option.split prod.split sum.split)

lemma later_writes_broken:
  "fs_pending fs path = Some p \<Longrightarrow> pn_broken p \<noteq> None \<Longrightarrow> pn_sent p = None \<Longrightarrow>
   \<exists>q. fs_pending (later_writes H ws fs) path = Some q \<and> pn_broken q \<noteq> None \<and> pn_sent q = None
     \<and> fs_mtp (later_writes H ws fs) = fs_mtp fs"
proof (induction ws arbitrary: fs p)
  case Nil
  then show ?case by (simp add: later_writes_def)
next
  case (Cons w ws)
  obtain path' bs off where w: "w = (path', bs, off)" by (cases w)
  obtain r fs1 where r: "op_write H path' bs off fs = (r, fs1)" by fastforce
  have "fs_mtp fs1 = fs_mtp fs" using op_write_mtp [of H path' bs off fs] r by simp
  moreover obtain q where "fs_pending fs1 path = Some q" "pn_broken q \<noteq> None" "pn_sent q = None"
  proof (cases "path' = path")
    case True
    then show ?thesis using op_write_pending(1) [OF Cons.prems(1), of H bs off r fs1] r Cons.prems that by auto
  next
    case False
    then show ?thesis using op_write_other [OF r] Cons.prems that by metis
  qed
  ultimately show ?case using Cons.IH [of fs1 q] w r by (simp add: later_writes_def)
qed

section \<open>Properties\<close>

text \<open>
  A second flush, which follows every duplicated file descriptor, gives the answer of the
  first and changes nothing: the file is sent once, not once for each close.
\<close>

theorem op_flush_again:
  "op_flush S H path fi (snd (op_flush S H path fi fs)) = op_flush S H path fi fs"
  by (metis op_flush_twice prod.collapse)

text \<open>
  C20: the answer of the first flush is remembered with no look at what is written after it: a
  write that succeeds after a flush that succeeded reaches nobody, for the next flush and the
  release both give success without a call of the device, and the bytes go with the entry.
\<close>

theorem write_after_flush_lost:
  assumes w: "fh_writes fi" and "fs_pending fs path = Some p"
    and "op_flush S H path fi fs = (0, fs1)" and wr: "op_write H path bs off fs1 = (Inr n, fs2)"
  shows "\<exists>fs3 fs4. op_flush S H path fi fs2 = (0, fs3) \<and> op_release S H path fi fs3 = (0, fs4)
    \<and> fs_mtp fs4 = fs_mtp fs1 \<and> fs_pending fs4 path = None"
proof -
  obtain p1 where p1: "fs_pending fs1 path = Some p1" "pn_sent p1 = Some 0"
    using op_flush_pending [OF assms(1-3)] by auto
  obtain p2 where p2: "fs_pending fs2 path = Some p2" "pn_sent p2 = Some 0"
    using op_write_pending(1) [OF p1(1) wr] p1(2) by auto
  have m: "fs_mtp fs2 = fs_mtp fs1" using op_write_pending(2) [OF p1(1) wr] .
  let ?fs3 = "fs2\<lparr>fs_pending := (fs_pending fs2)(path \<mapsto> p2)\<rparr>"
  have "op_flush S H path fi fs2 = (0, ?fs3)" by (rule op_flush_sent [OF w p2])
  moreover have "op_release S H path fi ?fs3 = (0, drop_pending H p2 (remove_pending path ?fs3))"
    by (rule op_release_sent [OF w]) (use p2 in simp_all)
  ultimately show ?thesis using m by (auto simp: drop_pending_def remove_pending_def)
qed


text \<open>The sample mount, with a program that writes the file.\<close>

lemma writer_writes: "fh_writes (Some FH_WRITER)"
  by (simp add: fh_writes_def FH_WRITER_def)

definition writing_fs :: "nat \<Rightarrow> (phone, disk) fs" where
  "writing_fs room = (sample_fs (sample_phone 100 False) [sample_path \<mapsto> sample_pending])
     \<lparr>fs_host := sample_disk\<lparr>dk_room := room\<rparr>\<rparr>"

lemma write_after_flush_lost_witness:
  "\<exists>fs3 fs4. op_flush (phone_service sample_dir) disk_host sample_path (Some FH_WRITER)
      (snd (op_write disk_host sample_path [1] 0
        (snd (op_flush (phone_service sample_dir) disk_host sample_path (Some FH_WRITER) (writing_fs 1000)))))
      = (0, fs3)
    \<and> op_release (phone_service sample_dir) disk_host sample_path (Some FH_WRITER) fs3 = (0, fs4)
    \<and> ph_objs (fs_mtp fs4) 10 = Some [7, 8, 9, 6]"
proof -
  let ?S = "phone_service sample_dir :: (phone, disk) service"
  have p: "fs_pending (writing_fs 1000) sample_path = Some sample_pending"
    by (simp add: writing_fs_def sample_fs_def)
  obtain fs1 where f: "op_flush ?S disk_host sample_path (Some FH_WRITER) (writing_fs 1000) = (0, fs1)"
    and fs1: "ph_objs (fs_mtp fs1) 10 = Some [7, 8, 9, 6]"
    "fs_host fs1 = \<lparr>dk_files = [4 \<mapsto> \<lparr>sp_data = [7, 8, 9, 6], sp_cursor = Suc (Suc (Suc (Suc 0)))\<rparr>],
      dk_room = 1000\<rparr>"
    "\<exists>q. fs_pending fs1 sample_path = Some q \<and> pn_spool q = 4"
    by (simp add: op_flush_def writer_writes p remove_pending_def insert_pending_def writing_fs_def send_runs)
  obtain fs2 where w: "op_write disk_host sample_path [1] 0 fs1 = (Inr 1, fs2)"
    using fs1(2,3)
    by (auto simp: op_write_def write_loop.simps disk_host_def disk_write_at_def with_file_def Let_def as_i32_def)
  show ?thesis
    using write_after_flush_lost [OF writer_writes p f w] f w fs1(1) by auto
qed

text \<open>
  C19: a file whose write failed is never sent to the device, whatever the program writes after
  it; a flush right after it gives the program the number of the fault.
\<close>

theorem broken_never_sent:
  assumes w: "fh_writes fi" and p: "fs_pending fs path = Some p" "pn_sent p = None"
    and fail: "op_write H path bs off fs = (Inl rc, fs1)"
  shows "\<exists>e fs2. op_flush S H path fi (later_writes H ws fs1) = (e, fs2)
    \<and> fs_mtp fs2 = fs_mtp fs \<and> (ws = [] \<longrightarrow> e = rc)"
proof -
  obtain q where q: "fs_pending fs1 path = Some q" "pn_broken q = Some (- rc)" "pn_sent q = None"
    using op_write_pending(1) [OF p(1) fail] p(2) by auto
  have m: "fs_mtp fs1 = fs_mtp fs" using op_write_pending(2) [OF p(1) fail] .
  obtain q' e where q': "fs_pending (later_writes H ws fs1) path = Some q'" "pn_broken q' = Some e"
      "pn_sent q' = None" "fs_mtp (later_writes H ws fs1) = fs_mtp fs1"
    using later_writes_broken [OF q(1) _ q(3), of H ws] q(2) by auto
  have "ws = [] \<Longrightarrow> e = - rc" using q q' by (simp add: later_writes_def)
  then show ?thesis
    using w q' m by (simp add: op_flush_def send_pending_def insert_pending_def remove_pending_def)
qed

lemma broken_never_sent_witness:
  "\<exists>e fs2. op_flush (phone_service sample_dir) disk_host sample_path (Some FH_WRITER)
      (later_writes disk_host [(sample_path, [1], 0)]
        (snd (op_write disk_host sample_path [1] 4 (writing_fs 0)))) = (e, fs2)
    \<and> ph_objs (fs_mtp fs2) 10 = None"
proof -
  have p: "fs_pending (writing_fs 0) sample_path = Some sample_pending"
    by (simp add: writing_fs_def sample_fs_def)
  obtain fs1 where w: "op_write disk_host sample_path [1] 4 (writing_fs 0) = (Inl (- ENOSPC), fs1)"
    by (simp add: op_write_def p writing_fs_def sample_fs_def sample_disk_def sample_pending_def
        write_loop.simps disk_host_def disk_write_at_def with_file_def break_pending_def)
  have "pn_sent sample_pending = None" by (simp add: sample_pending_def)
  from broken_never_sent [OF writer_writes p this w, of "phone_service sample_dir" "[(sample_path, [1], 0)]"]
  show ?thesis using w by (auto simp: writing_fs_def sample_fs_def sample_phone_def)
qed

end
