(* ===== verification/Mtpfs_Resolve.thy ===== *)
theory Mtpfs_Resolve
  imports Mtpfs_Phone
begin

text \<open>
  The walk of a path, \<open>resolve\<close>: over a device that lists its folders honestly the answer is
  the object the folders lead to, whatever the tree already holds, as long as the path has
  fewer parts than the limit of listings; a longer path that no listing covers is not found.
\<close>

section \<open>The folders of a device\<close>

type_synonym folders = "u32 \<Rightarrow> entry list"

fun dir_walk :: "folders \<Rightarrow> u32 \<Rightarrow> ustring list \<Rightarrow> u32 option" where
  "dir_walk dir c [] = Some c"
| "dir_walk dir c (part # parts) =
     (case find (\<lambda>e. en_name e = part) (dir c) of
        None \<Rightarrow> None
      | Some e \<Rightarrow> dir_walk dir (en_handle e) parts)"

text \<open>A handle names one object, in every folder that holds it.\<close>

definition one_entry :: "folders \<Rightarrow> bool" where
  "one_entry dir \<longleftrightarrow> (\<forall>p q e e'. e \<in> set (dir p) \<longrightarrow> e' \<in> set (dir q) \<longrightarrow> en_handle e = en_handle e' \<longrightarrow> e = e')"

definition lists_honestly :: "('m \<Rightarrow> bool) \<Rightarrow> folders \<Rightarrow> ('m, 'h) service \<Rightarrow> bool" where
  "lists_honestly good dir S \<longleftrightarrow>
     (\<forall>p m. good m \<longrightarrow> (\<exists>m'. sv_list S p m = (Inr (dir p), m') \<and> good m'))"

text \<open>What the tree holds of a folder is the listing of that folder.\<close>

definition mirrors :: "folders \<Rightarrow> tree \<Rightarrow> bool" where
  "mirrors dir t \<longleftrightarrow> (\<forall>p\<in>tr_listed t. tr_children t p = Some (map en_handle (dir p))
     \<and> (\<forall>e\<in>set (dir p). tr_entries t (en_handle e) = Some e))"

lemma mirrors_new: "mirrors dir tree_new"
  by (simp add: mirrors_def tree_new_def)

lemma mirrors_forget: "mirrors dir t \<Longrightarrow> mirrors dir (forget_listing p t)"
  by (auto simp: mirrors_def forget_listing_def)

lemma mirrors_set_children:
  assumes one: "one_entry dir" and t: "mirrors dir t"
  shows "mirrors dir (set_children p (dir p) t)"
proof -
  have new: "known_before (dir p) m (en_handle e) = Some e" if "e \<in> set (dir p)" for e m
  proof -
    obtain e' where "find (\<lambda>x. en_handle x = en_handle e) (rev (dir p)) = Some e'"
      using \<open>e \<in> set (dir p)\<close> by (cases "find (\<lambda>x. en_handle x = en_handle e) (rev (dir p))")
        (auto simp: find_None_iff)
    moreover from this have "e' \<in> set (dir p)" "en_handle e' = en_handle e"
      by (metis (mono_tags, lifting) find_Some_iff nth_mem set_rev)+
    ultimately show ?thesis using one that by (auto simp: known_before_def one_entry_def)
  qed
  have old: "known_before (dir p) (tr_entries t) (en_handle e) = Some e"
    if "e \<in> set (dir q)" "tr_entries t (en_handle e) = Some e" for e q
  proof (cases "find (\<lambda>x. en_handle x = en_handle e) (rev (dir p))")
    case None
    then show ?thesis using that by (simp add: known_before_def)
  next
    case (Some e')
    then have "e' \<in> set (dir p)" "en_handle e' = en_handle e"
      by (metis (mono_tags, lifting) find_Some_iff nth_mem set_rev)+
    then have "e' = e" using one that(1) unfolding one_entry_def by blast
    then show ?thesis using Some by (simp add: known_before_def)
  qed
  show ?thesis using t new old by (auto simp: mirrors_def)
qed

lemma children_named_mirrors:
  assumes "mirrors dir t" and "p \<in> tr_listed t"
  shows "children_named t p name = find (\<lambda>e. en_name e = name) (dir p)"
proof -
  have "tr_children t p = Some (map en_handle (dir p))"
    "\<forall>e\<in>set (dir p). tr_entries t (en_handle e) = Some e"
    using assms by (auto simp: mirrors_def)
  moreover from this(2) have "List.map_filter (tr_entries t) (map en_handle (dir p)) = dir p"
    by (induction "dir p") (auto simp: List.map_filter_simps map_idI comp_def map_filter_known)
  ultimately show ?thesis by (simp add: children_named_def)
qed

text \<open>The walk of the tree is the walk of the folders until it meets a folder with no listing.\<close>

lemma lookup_from_mirrors:
  assumes "mirrors dir t"
  shows "lookup_from t c ps = Found h \<Longrightarrow> dir_walk dir c ps = Some h"
    and "lookup_from t c ps = NotFound \<Longrightarrow> dir_walk dir c ps = None"
  using assms
  by (induction t c ps rule: lookup_from.induct)
     (auto simp: children_named_mirrors split: if_splits option.splits)

lemma lookup_from_unlisted:
  "mirrors dir t \<Longrightarrow> lookup_from t c ps = NeedListing f \<Longrightarrow>
     \<exists>i<length ps. dir_walk dir c (take i ps) = Some f \<and> f \<notin> tr_listed t
       \<and> (\<forall>j<i. \<exists>g\<in>tr_listed t. dir_walk dir c (take j ps) = Some g)"
proof (induction ps arbitrary: c)
  case (Cons part parts)
  show ?case
  proof (cases "c \<in> tr_listed t")
    case False
    then show ?thesis using Cons.prems by (intro exI [of _ 0]) auto
  next
    case True
    then obtain e where e: "find (\<lambda>e. en_name e = part) (dir c) = Some e"
        "lookup_from t (en_handle e) parts = NeedListing f"
      using Cons.prems by (auto simp: children_named_mirrors split: option.splits)
    from Cons.IH [OF Cons.prems(1) e(2)] obtain i where i: "i < length parts"
        "dir_walk dir (en_handle e) (take i parts) = Some f" "f \<notin> tr_listed t"
        "\<forall>j<i. \<exists>g\<in>tr_listed t. dir_walk dir (en_handle e) (take j parts) = Some g" by blast
    have "\<exists>g\<in>tr_listed t. dir_walk dir c (take j (part # parts)) = Some g" if "j < Suc i" for j
      using that i(4) e(1) True by (cases j) auto
    then show ?thesis using i e(1) by (intro exI [of _ "Suc i"]) auto
  qed
qed simp

section \<open>The walk of the filesystem\<close>

text \<open>Everything but the tree and the device stays as it was.\<close>

definition only_listed :: "('m, 'h) fs \<Rightarrow> ('m, 'h) fs \<Rightarrow> bool" where
  "only_listed fs fs' \<longleftrightarrow>
     fs_pending fs' = fs_pending fs \<and> fs_count fs' = fs_count fs \<and> fs_host fs' = fs_host fs"

lemma resolve_rounds_walk:
  assumes honest: "lists_honestly good dir S" and one: "one_entry dir"
  shows "mirrors dir (fs_tree fs) \<Longrightarrow> good (fs_mtp fs) \<Longrightarrow> j \<le> length (split_path path) \<Longrightarrow>
    (\<forall>i<j. \<forall>g. dir_walk dir TREE_ROOT (take i (split_path path)) = Some g \<longrightarrow> g \<in> tr_listed (fs_tree fs)) \<Longrightarrow>
    length (split_path path) < j + k \<Longrightarrow>
    \<exists>fs'. resolve_rounds S k path fs = (dir_walk dir TREE_ROOT (split_path path), fs')
      \<and> mirrors dir (fs_tree fs') \<and> good (fs_mtp fs') \<and> only_listed fs fs'"
proof (induction k arbitrary: j fs)
  case (Suc k)
  let ?ps = "split_path path"
  show ?case
  proof (cases "lookup (fs_tree fs) path")
    case (Found h)
    then have "dir_walk dir TREE_ROOT ?ps = Some h"
      using lookup_from_mirrors(1) [OF Suc.prems(1)] by (simp add: lookup_def)
    then show ?thesis using Found Suc.prems by (auto simp: only_listed_def)
  next
    case NotFound
    then have "dir_walk dir TREE_ROOT ?ps = None"
      using lookup_from_mirrors(2) [OF Suc.prems(1)] by (simp add: lookup_def)
    then show ?thesis using NotFound Suc.prems by (auto simp: only_listed_def)
  next
    case (NeedListing f)
    obtain m where m: "sv_list S f (fs_mtp fs) = (Inr (dir f), m)" "good m"
      using honest Suc.prems(2) unfolding lists_honestly_def by blast
    let ?fs1 = "fs\<lparr>fs_mtp := m, fs_tree := set_children f (dir f) (fs_tree fs)\<rparr>"
    have step: "resolve_rounds S (Suc k) path fs = resolve_rounds S k path ?fs1"
      using NeedListing m(1) by (simp add: on_mtp_def)
    obtain i where i: "i < length ?ps" "dir_walk dir TREE_ROOT (take i ?ps) = Some f"
        "f \<notin> tr_listed (fs_tree fs)"
        "\<forall>j<i. \<exists>g\<in>tr_listed (fs_tree fs). dir_walk dir TREE_ROOT (take j ?ps) = Some g"
      using lookup_from_unlisted [OF Suc.prems(1)] NeedListing unfolding lookup_def by blast
    have ij: "j \<le> i" using i(2,3) Suc.prems(4) by (metis not_le)
    have "\<exists>fs'. resolve_rounds S k path ?fs1 = (dir_walk dir TREE_ROOT ?ps, fs')
      \<and> mirrors dir (fs_tree fs') \<and> good (fs_mtp fs') \<and> only_listed ?fs1 fs'"
    proof (rule Suc.IH [of ?fs1 "Suc i"])
      show "mirrors dir (fs_tree ?fs1)" using mirrors_set_children [OF one Suc.prems(1)] by simp
      show "good (fs_mtp ?fs1)" using m(2) by simp
      show "Suc i \<le> length ?ps" using i(1) by simp
      show "\<forall>j<Suc i. \<forall>g. dir_walk dir TREE_ROOT (take j ?ps) = Some g \<longrightarrow> g \<in> tr_listed (fs_tree ?fs1)"
        using i(2,4) by (fastforce simp: less_Suc_eq)
      show "length ?ps < Suc i + k" using Suc.prems(5) ij by simp
    qed
    then show ?thesis unfolding step by (simp add: only_listed_def)
  qed
qed simp

text \<open>
  C14: over a device that lists its folders honestly, the walk of a path of fewer parts than the
  limit finds the object the folders lead to, or nothing when they lead nowhere, whatever the tree
  already held; all it changes is the tree, which mirrors the device as before.
\<close>

theorem resolve_walk:
  assumes "lists_honestly good dir S" and "one_entry dir"
    and "mirrors dir (fs_tree fs)" and "good (fs_mtp fs)" and "length (split_path path) < MAX_WALK"
  shows "\<exists>fs'. resolve S path fs = (dir_walk dir TREE_ROOT (split_path path), fs')
      \<and> mirrors dir (fs_tree fs') \<and> good (fs_mtp fs') \<and> only_listed fs fs'"
  unfolding resolve_def
  by (rule resolve_rounds_walk [OF assms(1,2), where j = 0]) (use assms in auto)

section \<open>A path too deep for one walk\<close>

lemma resolve_rounds_listed:
  "finite (tr_listed (fs_tree fs)) \<Longrightarrow> resolve_rounds S k path fs = (r, fs') \<Longrightarrow>
     finite (tr_listed (fs_tree fs')) \<and> card (tr_listed (fs_tree fs')) \<le> card (tr_listed (fs_tree fs)) + k
     \<and> (\<forall>h. r = Some h \<longrightarrow> lookup (fs_tree fs') path = Found h
          \<and> card (tr_listed (fs_tree fs')) < card (tr_listed (fs_tree fs)) + k)"
proof (induction k arbitrary: fs)
  case (Suc k)
  show ?case
  proof (cases "lookup (fs_tree fs) path")
    case (NeedListing f)
    obtain x fs1 where x: "on_mtp (sv_list S f) fs = (x, fs1)" by fastforce
    have t: "fs_tree fs1 = fs_tree fs" using x by (auto simp: on_mtp_def split: prod.splits)
    show ?thesis
    proof (cases x)
      case (Inl e)
      then show ?thesis using Suc.prems NeedListing x t by simp
    next
      case (Inr es)
      let ?fs2 = "fs1\<lparr>fs_tree := set_children f es (fs_tree fs1)\<rparr>"
      have run: "resolve_rounds S k path ?fs2 = (r, fs')" using Suc.prems(2) NeedListing x Inr by simp
      have "finite (tr_listed (fs_tree ?fs2))" using Suc.prems(1) t by simp
      moreover have "card (tr_listed (fs_tree ?fs2)) \<le> Suc (card (tr_listed (fs_tree fs)))"
        using Suc.prems(1) t by (simp add: card_insert_if)
      ultimately show ?thesis using Suc.IH [OF _ run] by fastforce
    qed
  qed (use Suc.prems in auto)
qed simp

lemma lookup_listed:
  "lookup_from t c ps = Found h \<Longrightarrow>
     \<exists>cs. length cs = length ps \<and> set cs \<subseteq> tr_listed t
       \<and> (\<forall>i<length ps. lookup_from t c (take i ps) = Found (cs ! i))"
proof (induction t c ps rule: lookup_from.induct)
  case (2 t c part parts)
  then obtain e where e: "children_named t c part = Some e" "lookup_from t (en_handle e) parts = Found h"
      and c: "c \<in> tr_listed t"
    by (auto split: if_splits option.splits)
  from "2.IH" [OF _ e] c obtain cs where cs: "length cs = length parts" "set cs \<subseteq> tr_listed t"
      "\<forall>i<length parts. lookup_from t (en_handle e) (take i parts) = Found (cs ! i)" by auto
  have "lookup_from t c (take i (part # parts)) = Found ((c # cs) ! i)" if "i < length (part # parts)" for i
    using that cs e c by (cases i) auto
  then show ?case using cs c by (intro exI [of _ "c # cs"]) auto
qed simp

lemma resolve_rounds_mirrors:
  assumes honest: "lists_honestly good dir S" and one: "one_entry dir"
  shows "mirrors dir (fs_tree fs) \<Longrightarrow> good (fs_mtp fs) \<Longrightarrow>
    resolve_rounds S k path fs = (r, fs') \<Longrightarrow> mirrors dir (fs_tree fs')"
proof (induction k arbitrary: fs)
  case (Suc k)
  show ?case
  proof (cases "lookup (fs_tree fs) path")
    case (NeedListing f)
    obtain m where m: "sv_list S f (fs_mtp fs) = (Inr (dir f), m)" "good m"
      using honest Suc.prems(2) unfolding lists_honestly_def by blast
    let ?fs1 = "fs\<lparr>fs_mtp := m, fs_tree := set_children f (dir f) (fs_tree fs)\<rparr>"
    have run: "resolve_rounds S k path ?fs1 = (r, fs')"
      using NeedListing m(1) Suc.prems(3) by (simp add: on_mtp_def)
    have mi: "mirrors dir (fs_tree ?fs1)" using mirrors_set_children [OF one Suc.prems(1)] by simp
    have go: "good (fs_mtp ?fs1)" using m(2) by simp
    show ?thesis by (rule Suc.IH [OF mi go run])
  qed (use Suc.prems in auto)
qed simp

text \<open>
  In a mount that listed nothing yet, a path through as many different folders as the limit is
  not found, although each of its folders is there.
\<close>

text \<open>
  C31: a path of 64 parts or more is not found on a mount that holds no listing yet, though every
  folder on the way is there: each listing costs one of the 64 rounds, and the last round has none
  left to look at what the listing gave.
\<close>

theorem resolve_too_deep:
  assumes honest: "lists_honestly good dir S" and one: "one_entry dir"
    and cold: "tr_listed (fs_tree fs) = {}" and good: "good (fs_mtp fs)"
    and deep: "MAX_WALK \<le> length (split_path path)"
    and different: "\<forall>i<length (split_path path). \<forall>j<length (split_path path).
      dir_walk dir TREE_ROOT (take i (split_path path)) = dir_walk dir TREE_ROOT (take j (split_path path)) \<longrightarrow> i = j"
  shows "fst (resolve S path fs) = None"
proof (rule ccontr)
  let ?ps = "split_path path"
  assume "fst (resolve S path fs) \<noteq> None"
  then obtain h fs' where run: "resolve_rounds S MAX_WALK path fs = (Some h, fs')"
    unfolding resolve_def by (metis option.exhaust prod.collapse)
  have listed: "lookup_from (fs_tree fs') TREE_ROOT ?ps = Found h" "card (tr_listed (fs_tree fs')) < MAX_WALK"
      "finite (tr_listed (fs_tree fs'))"
    using resolve_rounds_listed [OF _ run] cold by (auto simp: lookup_def)
  have "mirrors dir (fs_tree fs)" using cold by (simp add: mirrors_def)
  then have m: "mirrors dir (fs_tree fs')"
    using resolve_rounds_mirrors [OF honest one _ good run] by simp
  obtain cs where cs: "length cs = length ?ps" "set cs \<subseteq> tr_listed (fs_tree fs')"
      "\<forall>i<length ?ps. lookup_from (fs_tree fs') TREE_ROOT (take i ?ps) = Found (cs ! i)"
    using lookup_listed [OF listed(1)] by blast
  have walk: "dir_walk dir TREE_ROOT (take i ?ps) = Some (cs ! i)" if "i < length ?ps" for i
    using lookup_from_mirrors(1) [OF m] cs(3) that by blast
  have "distinct cs"
    unfolding distinct_conv_nth using different walk cs(1) by metis
  then have "length ?ps = card (set cs)" using cs(1) by (simp add: distinct_card)
  also have "\<dots> \<le> card (tr_listed (fs_tree fs'))" using cs(2) listed(3) by (simp add: card_mono)
  finally show False using listed(2) deep by simp
qed

section \<open>Examples\<close>

lemma phone_lists_honestly: "lists_honestly (\<lambda>_. True) dir (phone_service dir)"
  by (simp add: lists_honestly_def phone_calls)

lemma resolve_walk_witness:
  "fst (resolve (phone_service sample_dir) (lit ''/DCIM/a.jpg'')
     ((sample_fs (sample_phone 100 False) Map.empty)\<lparr>fs_tree := tree_new\<rparr>)) = Some 2"
proof -
  let ?fs = "(sample_fs (sample_phone 100 False) Map.empty)\<lparr>fs_tree := tree_new\<rparr>"
  have parts: "split_path (lit ''/DCIM/a.jpg'') = [lit ''DCIM'', lit ''a.jpg'']"
    by (simp add: split_path_def lit_def)
  have "one_entry sample_dir"
    by (auto simp: one_entry_def sample_dir_def sample_folder_def sample_file_def sample_note_def split: if_splits)
  moreover have "mirrors sample_dir (fs_tree ?fs)" by (simp add: mirrors_new)
  moreover have "dir_walk sample_dir TREE_ROOT [lit ''DCIM'', lit ''a.jpg''] = Some 2"
    by (simp add: sample_dir_def TREE_ROOT_def sample_folder_def sample_file_def sample_note_def lit_def)
  ultimately show ?thesis
    using resolve_walk [OF phone_lists_honestly, of sample_dir ?fs "lit ''/DCIM/a.jpg''"]
    by (auto simp: parts MAX_WALK_def)
qed

text \<open>A folder in a folder in a folder.\<close>

definition chain_dir :: folders where
  "chain_dir p = [\<lparr>en_handle = p + 1, en_parent = p, en_name = [100], en_is_dir = True, en_size = 0\<rparr>]"

lemma dir_walk_chain: "dir_walk chain_dir p (replicate i [100]) = Some (p + word_of_nat i)"
  by (induction i arbitrary: p) (simp_all add: chain_dir_def)

lemma resolve_too_deep_witness:
  "fst (resolve (phone_service chain_dir) (concat (map (\<lambda>p. 47 # p) (replicate 64 [100])))
     ((sample_fs (sample_phone 100 False) Map.empty)\<lparr>fs_tree := tree_new\<rparr>)) = None
   \<and> dir_walk chain_dir TREE_ROOT (replicate 64 [100]) = Some 64"
proof -
  let ?fs = "(sample_fs (sample_phone 100 False) Map.empty)\<lparr>fs_tree := tree_new\<rparr>"
  let ?path = "concat (map (\<lambda>p. 47 # p) (replicate 64 [100 :: nat]))"
  have parts: "split_path ?path = replicate 64 [100]"
    by (rule split_path_parts) (auto simp: legal_name_def)
  have one: "one_entry chain_dir" by (auto simp: one_entry_def chain_dir_def)
  have take: "take i (replicate 64 [100 :: nat]) = replicate i [100]" if "i < 64" for i
    using that by (simp add: take_replicate min_def)
  have inj: "i = j" if "i < 64" "j < 64" "(word_of_nat i :: u32) = word_of_nat j" for i j
    using that by (simp add: word_of_nat_eq_iff take_bit_nat_eq_self)
  have "\<forall>i<64. \<forall>j<64. dir_walk chain_dir TREE_ROOT (take i (replicate 64 [100])) =
      dir_walk chain_dir TREE_ROOT (take j (replicate 64 [100])) \<longrightarrow> i = j"
    by (intro allI impI inj) (simp_all add: take dir_walk_chain TREE_ROOT_def)
  moreover have "tr_listed (fs_tree ?fs) = {}" by (simp add: tree_new_def)
  ultimately show ?thesis
    using resolve_too_deep [OF phone_lists_honestly one, of ?fs ?path]
    by (simp only: parts length_replicate MAX_WALK_def dir_walk_chain) (simp add: TREE_ROOT_def)
qed

end
