(* ===== verification/Mtpfs_Reads.thy ===== *)
theory Mtpfs_Reads
  imports Mtpfs_Phone Mtpfs_Backend_Laws
begin

text \<open>
  A read of a mounted file, from the callback down to the bytes of the endpoints: a device that
  answers the requests for parts of one object is put behind the session, and what a program reads
  is the slice of that object.
\<close>

section \<open>A device that answers\<close>

text \<open>
  A device is what it answers to the writes it has seen. It reads from the queue of its answers
  as the scripted device does.
\<close>

definition answering :: "(bytes list \<Rightarrow> answer list) \<Rightarrow> fake_device transport" where
  "answering R = fake_transport
     \<lparr>tp_write := \<lambda>bs timeout f. (Inr (length bs),
        f\<lparr>fk_writes := fk_writes f @ [bs], fk_answers := fk_answers f @ R (fk_writes f @ [bs])\<rparr>)\<rparr>"

lemma answering_read: "tp_read (answering R) = fake_read"
  by (simp add: answering_def fake_transport_def)

interpretation answering: transport "answering R"
  by unfold_locales
     (auto simp: answering_def fake_transport_def fake_read_def Let_def split: if_splits answer.splits)

text \<open>The answer of an operation depends on the reads of the transport alone.\<close>

lemma read_once_cong: "tp_read T = tp_read T' \<Longrightarrow> read_once T = read_once T'"
  by (intro ext) (simp add: read_once_def)

lemma read_rounds_cong:
  assumes "tp_read T = tp_read T'"
  shows "read_rounds T = read_rounds T'"
proof (intro ext)
  show "read_rounds T W step n k buf p s = read_rounds T' W step n k buf p s" for W step n k buf p s
    by (induction k arbitrary: buf p s) (simp_all add: read_once_cong [OF assms] and_then_def Let_def
        split: prod.split sum.split)
qed

lemma read_answer_cong:
  assumes "tp_read T = tp_read T'"
  shows "read_answer T = read_answer T'"
  by (intro ext)
     (simp only: read_answer_def read_answer_with_def data_phase_def read_container_def
        read_once_cong [OF assms] read_rounds_cong [OF assms])

definition data_answers :: "nat \<Rightarrow> u16 \<Rightarrow> u32 \<Rightarrow> bytes \<Rightarrow> answer list" where
  "data_answers k code tid payload =
     map Bytes (chunks_of k (data_header code tid (length payload) @ payload))
       @ [Bytes (response_bytes RESP_OK tid [])]"

definition receive :: "(bytes list \<Rightarrow> answer list) \<Rightarrow> bytes \<Rightarrow> fake_device \<Rightarrow> fake_device" where
  "receive R bs f = f\<lparr>fk_writes := fk_writes f @ [bs], fk_answers := fk_answers f @ R (fk_writes f @ [bs])\<rparr>"

lemma answering_write_all:
  "write_all (answering R) step bs s = (Inr (), at_device (receive R bs) s)"
  by (simp add: write_all_def map_err_def and_then_def on_device_def answering_def at_device_def receive_def)

lemma read_answer_answering: "read_answer (answering R) = read_answer fake_transport"
  by (rule read_answer_cong) (simp add: answering_read fake_transport_def)

definition idle :: "fake_device \<Rightarrow> bool" where
  "idle f \<longleftrightarrow> fk_at f = length (fk_answers f)"

lemma idle_receive: "idle f \<Longrightarrow> left_answers (receive R bs f) = R (fk_writes f @ [bs])"
  by (simp add: receive_def idle_def left_answers_def)

lemma idle_after:
  "idle f \<Longrightarrow> n = length (R (fk_writes f @ [bs])) \<Longrightarrow> idle (after_answers n (receive R bs f))"
  by (simp add: idle_def after_answers_def receive_def)

lemma operation_answering:
  assumes idle: "idle (ses_device s)"
    and reply: "R (fk_writes (ses_device s) @ [build_command code (ses_transaction s) ps])
      = data_answers (cfg_read_buffer (ses_config s)) code (ses_transaction s) payload"
    and size: "READ_BUFFER_MIN \<le> cfg_read_buffer (ses_config s)" "length payload \<le> MAX_PAYLOAD_LEN"
  shows "\<exists>out s'. operation (answering R) step code ps s = (Inr out, s')
    \<and> o_response_code out = RESP_OK \<and> o_data out = payload
    \<and> ses_config s' = ses_config s \<and> idle (ses_device s')"
proof -
  let ?b = "cfg_read_buffer (ses_config s)" and ?tid = "ses_transaction s"
  let ?cmd = "build_command code ?tid ps"
  let ?all = "data_header code ?tid (length payload) @ payload"
  let ?s = "at_device (receive R ?cmd) (s\<lparr>ses_transaction := ?tid + 1\<rparr>)"
  have b: "0 < ?b" "HEADER_LEN \<le> ?b" using size(1) by (simp_all add: READ_BUFFER_MIN_def HEADER_LEN_def)
  have "length ?all \<noteq> 0" by (simp add: HEADER_LEN_def)
  then have ne: "?all \<noteq> []" by (simp only: length_0_conv not_False_eq_True)
  define t ts where tt: "t = take ?b ?all" "ts = chunks_of ?b (drop ?b ?all)"
  have ch: "chunks_of ?b ?all = t # ts"
    using ne b(1) unfolding tt by (subst chunks_of.simps) simp
  have "concat (t # ts) = ?all" using concat_chunks_of [OF b(1), of ?all] ch by simp
  moreover have "list_all (\<lambda>x. x \<noteq> [] \<and> length x \<le> ?b) ts"
    using chunks_of_sizes [of _ ?b "drop ?b ?all"] b(1) by (auto simp: list_all_iff tt(2))
  moreover have "left_answers (ses_device ?s) = Bytes t # map Bytes ts @ [Bytes (response_bytes RESP_OK ?tid [])]"
    using idle_receive [OF idle, of R ?cmd] reply by (simp add: data_answers_def ch)
  ultimately have d: "device_sends ?s code ?tid payload t ts [] (Bytes (response_bytes RESP_OK ?tid []) # [])"
    using size b(2) by (simp add: device_sends_def tt(1))
  have rounds: "length ts \<le> rounds_for (HEADER_LEN + length payload) (cfg_read_buffer (ses_config ?s))"
    using length_chunks_of [OF b(1), of ?all] by (simp add: ch rounds_for_def)
  have run: "operation_stream (answering R) vec_writer step code ps (s, [])
      = read_answer fake_transport vec_writer step (?s, [])"
    by (simp add: operation_stream_def next_transaction_def answering_write_all read_answer_answering)
  from read_answer_transfers [OF d rounds, of step "[]"] size(1)
  have "\<exists>s'. read_answer fake_transport vec_writer step (?s, [])
      = (Inr \<lparr>so_response_code = RESP_OK, so_response_params = [], so_bytes = length payload, so_reads = length ts + 1\<rparr>,
         (at_device (after_answers (length ts + 2)) ?s, payload))"
    by (simp add: READ_BUFFER_MIN_def)
  moreover have "idle (ses_device (at_device (after_answers (length ts + 2)) ?s))"
    using idle_after [OF idle, of _ R ?cmd] reply by (simp add: data_answers_def ch)
  ultimately show ?thesis by (simp add: operation_def collecting_def run)
qed

section \<open>The requests for parts of an object\<close>

definition object_reply :: "nat \<Rightarrow> u32 \<Rightarrow> bytes \<Rightarrow> bytes \<Rightarrow> answer list" where
  "object_reply k h content bs =
     (case container_parse bs of
        Inl e \<Rightarrow> []
      | Inr c \<Rightarrow>
          if c_kind c = Command \<and> c_code c = GET_PARTIAL_OBJECT_64 \<and> length (parameters c) = 4
             \<and> parameters c ! 0 = h
          then data_answers k (c_code c) (c_transaction_id c)
                 (take (unat (parameters c ! 3))
                   (drop (unat (parameters c ! 1) + 2 ^ 32 * unat (parameters c ! 2)) content))
          else [Bytes (response_bytes RESP_INVALID_OBJECT_HANDLE (c_transaction_id c) [])])"

lemma object_reply_part:
  assumes "at < 2 ^ 64" and "n < 2 ^ 32"
  shows "object_reply k h content (build_command GET_PARTIAL_OBJECT_64 tid (partial_params GET_PARTIAL_OBJECT_64 h at n))
    = data_answers k GET_PARTIAL_OBJECT_64 tid (take n (drop at content))"
proof -
  obtain lo hi w where p: "partial_params GET_PARTIAL_OBJECT_64 h at n = [h, lo, hi, w]"
    and "unat lo + 2 ^ 32 * unat hi = at" "unat w = n"
    using partial_params_64 [OF assms] by blast
  moreover obtain c where "container_parse (build_command GET_PARTIAL_OBJECT_64 tid [h, lo, hi, w]) = Inr c"
    "c_kind c = Command" "c_code c = GET_PARTIAL_OBJECT_64" "c_transaction_id c = tid"
    "parameters c = [h, lo, hi, w]"
    using command_parses [of GET_PARTIAL_OBJECT_64 tid "[h, lo, hi, w]" "[]"] by (auto simp: MAX_PARAMS_def)
  ultimately show ?thesis by (simp add: object_reply_def numeral_3_eq_3)
qed

text \<open>The mounts whose device is at rest, with the buffer its transfers fill.\<close>

definition at_rest :: "nat \<Rightarrow> fake_device mtp \<Rightarrow> bool" where
  "at_rest k t \<longleftrightarrow> idle (ses_device (mt_session t)) \<and> cfg_read_buffer (ses_config (mt_session t)) = k
     \<and> mt_partial_read t = GET_PARTIAL_OBJECT_64 \<and> mt_packet t \<noteq> 1"

definition holds_object :: "nat \<Rightarrow> u32 \<Rightarrow> bytes \<Rightarrow> fake_device transport" where
  "holds_object k h content = answering (\<lambda>ws. object_reply k h content (last ws))"

lemma partial_read_answering:
  assumes t: "at_rest k t" and k: "READ_BUFFER_MIN \<le> k" and size: "length content \<le> MAX_PAYLOAD_LEN"
    and n: "at + n \<le> length content"
  shows "\<exists>t'. partial_read (holds_object k h content) h at n t = (Inr (take n (drop at content)), t')
    \<and> mt_cache t' = mt_cache t \<and> at_rest k t'"
proof -
  let ?R = "\<lambda>ws. object_reply k h content (last ws)" and ?s = "mt_session t"
  let ?ps = "partial_params GET_PARTIAL_OBJECT_64 h at n"
  have "n < 2 ^ 32" "at < 2 ^ 64"
    using n size by (simp_all add: MAX_PAYLOAD_LEN_def u32_max_def HEADER_LEN_def)
  then have "?R (fk_writes (ses_device ?s) @ [build_command GET_PARTIAL_OBJECT_64 (ses_transaction ?s) ?ps])
      = data_answers (cfg_read_buffer (ses_config ?s)) GET_PARTIAL_OBJECT_64 (ses_transaction ?s) (take n (drop at content))"
    using t by (simp add: object_reply_part at_rest_def)
  with operation_answering [of ?s ?R GET_PARTIAL_OBJECT_64 ?ps "take n (drop at content)" "''GetPartialObject''"] t k size
  obtain out s' where
    "operation (answering ?R) ''GetPartialObject'' GET_PARTIAL_OBJECT_64 ?ps ?s = (Inr out, s')"
    "o_response_code out = RESP_OK" "o_data out = take n (drop at content)"
    "ses_config s' = ses_config ?s" "idle (ses_device s')"
    by (fastforce simp: at_rest_def)
  then show ?thesis
    using t by (simp add: partial_read_def be_operation_def on_session_def and_then_def check_outcome_def
        outcome_is_ok_def holds_object_def at_rest_def)
qed

lemma holds_object_honest:
  assumes "READ_BUFFER_MIN \<le> k" and "length content \<le> MAX_PAYLOAD_LEN"
  shows "honest_reads (at_rest k) content (partial_read (holds_object k h content) h)"
  unfolding honest_reads_def
proof (intro conjI allI impI)
  fix at n t
  assume t: "at_rest k t" and n: "0 < n" "at + n \<le> length content"
  obtain t' where "partial_read (holds_object k h content) h at n t = (Inr (take n (drop at content)), t')"
    "mt_cache t' = mt_cache t" "at_rest k t'"
    using partial_read_answering [OF t assms n(2)] by blast
  moreover have "take n (drop at content) \<noteq> []" using n by simp
  ultimately show "\<exists>d t'. partial_read (holds_object k h content) h at n t = (Inr d, t') \<and> d \<noteq> []
      \<and> part_of content at d \<and> mt_cache t' = mt_cache t \<and> at_rest k t'"
    using part_of_prefix by blast
next
  show "at_rest k (t\<lparr>mt_cache := c\<rparr>)" if "at_rest k t" for t c
    using that by (simp add: at_rest_def)
qed

section \<open>The callback\<close>

lemma op_read_slice:
  assumes honest: "honest_reads good content (partial_read T (fh_handle fh))"
    and packet: "\<And>t. good t \<Longrightarrow> mt_packet t \<noteq> 1"
    and mount: "good (fs_mtp fs)" "cache_holds content (fh_handle fh) (fs_mtp fs)"
    and path: "fs_pending fs path = None" "fh_handle fh \<noteq> 0"
    and entry: "tree_get (fs_tree fs) (fh_handle fh) = Some e" "unat (en_size e) = length content"
  shows "\<exists>m. op_read (mtp_service T) H path sz offset (Some fh) fs
      = (Inr (take sz (drop offset content)), fs\<lparr>fs_mtp := m\<rparr>)
    \<and> good m \<and> cache_holds content (fh_handle fh) m"
proof (cases "length content \<le> offset")
  case True
  then have "op_read (mtp_service T) H path sz offset (Some fh) fs
      = (Inr (take sz (drop offset content)), fs\<lparr>fs_mtp := fs_mtp fs\<rparr>)"
    using path entry by (simp add: op_read_def)
  then show ?thesis using mount by blast
next
  case False
  let ?h = "fh_handle fh" and ?n = "min sz (length content - offset)"
  obtain m where m: "read_at T ?h offset ?n (length content) (fs_mtp fs) = (Inr (take ?n (drop offset content)), m)"
    "good m" "cache_holds content ?h m"
    using read_at_slice [OF honest packet mount, of offset ?n] by blast
  have "take ?n (drop offset content) = take sz (drop offset content)"
    "take (min (length content - offset) sz) (drop offset content) = take sz (drop offset content)"
    by (simp_all add: min_def)
  with m(1) have "op_read (mtp_service T) H path sz offset (Some fh) fs
      = (Inr (take sz (drop offset content)), fs\<lparr>fs_mtp := m\<rparr>)"
    using path entry False
    by (simp add: op_read_def or_fail_def map_err_def and_then_def on_mtp_def mtp_service_def)
  with m(2,3) show ?thesis by blast
qed

text \<open>The mount of the examples, whose device is at rest and whose cache is empty.\<close>

lemma sample_at_rest:
  "at_rest 512 ((fresh_mtp default_settings 512 (fake_session []))\<lparr>mt_partial_read := GET_PARTIAL_OBJECT_64\<rparr>)"
  "cache_holds content h ((fresh_mtp default_settings 512 (fake_session []))\<lparr>mt_partial_read := GET_PARTIAL_OBJECT_64\<rparr>)"
  by (simp add: at_rest_def fresh_mtp_def idle_def fake_config_def READ_BUFFER_MIN_def,
      simp add: fake_session_def new_without_recovery_def fake_new_def)
     (simp add: cache_holds_def fresh_mtp_def)

text \<open>
  C3: on a mount over a device that holds an object, any read of the open file gives the bytes that
  stand there, cut at the end of the object and at nothing else, from the callback down to the
  containers on the wire: whatever the offset and the size, whatever the cache holds of the object,
  and wherever the requests and the transfers are split. The mount is ready for the next read.
\<close>

theorem op_read_over_wire:
  assumes "at_rest k (fs_mtp fs)" and "READ_BUFFER_MIN \<le> k" and "length content \<le> MAX_PAYLOAD_LEN"
    and "cache_holds content (fh_handle fh) (fs_mtp fs)"
    and "fs_pending fs path = None" and "fh_handle fh \<noteq> 0"
    and "tree_get (fs_tree fs) (fh_handle fh) = Some e" and "unat (en_size e) = length content"
  shows "\<exists>m. op_read (mtp_service (holds_object k (fh_handle fh) content)) H path sz offset (Some fh) fs
      = (Inr (take sz (drop offset content)), fs\<lparr>fs_mtp := m\<rparr>)
    \<and> at_rest k m \<and> cache_holds content (fh_handle fh) m"
  by (rule op_read_slice [OF holds_object_honest]) (use assms in \<open>simp_all add: at_rest_def\<close>)

lemma op_read_over_wire_witness:
  "fst (op_read (mtp_service (holds_object 512 2 [1, 2, 3])) disk_host sample_path 9 1 (Some 2)
      (sample_fs ((fresh_mtp default_settings 512 (fake_session []))\<lparr>mt_partial_read := GET_PARTIAL_OBJECT_64\<rparr>)
        Map.empty)) = Inr [2, 3]"
proof -
  let ?t = "(fresh_mtp default_settings 512 (fake_session []))\<lparr>mt_partial_read := GET_PARTIAL_OBJECT_64\<rparr>"
  let ?fs = "sample_fs ?t Map.empty"
  have fh: "fh_handle 2 = 2" by (simp add: fh_handle_def)
  note sample_at_rest
  moreover have "tree_get (fs_tree ?fs) 2 = Some sample_file" "unat (en_size sample_file) = length [1, 2, 3 :: 8 word]"
    by (simp_all add: sample_fs_def tree_get_def sample_tree_get)
  ultimately show ?thesis
    using op_read_over_wire [of 512 ?fs "[1, 2, 3]" 2 sample_path sample_file disk_host 9 1]
    by (auto simp: fh sample_fs_def READ_BUFFER_MIN_def MAX_PAYLOAD_LEN_def u32_max_def HEADER_LEN_def)
qed

end
