(* ===== verification/Mtpfs_Send.thy ===== *)
theory Mtpfs_Send
  imports Mtpfs_Write Mtpfs_Reads
begin

text \<open>
  What a program writes and what the device gets: the bytes of a write are what a read of the same
  file gives before the close, and the close sends the contents of the spool file as a send of
  them from memory would.
\<close>

section \<open>A write and a read\<close>

lemma pn_size_same: "pn_size p = n \<Longrightarrow> p\<lparr>pn_size := n\<rparr> = p"
  by (cases p) simp

context spool_disk
begin

lemma op_write_contents:
  assumes p: "fs_pending fs path = Some p" and c: "contents (fs_host fs) (pn_spool p) = Some c"
    and size: "length c = pn_size p" and bs: "bs \<noteq> []"
    and run: "op_write H path bs off fs = (Inr n, fs1)"
  shows "\<exists>h1. fs1 = fs\<lparr>fs_host := h1, fs_pending := (fs_pending fs)(path \<mapsto> p\<lparr>pn_size := max (pn_size p) (off + length bs)\<rparr>)\<rparr>
    \<and> contents h1 = (contents (fs_host fs))(pn_spool p \<mapsto> overwrite off bs c)"
    and "length (overwrite off bs c) = max (pn_size p) (off + length bs)"
proof -
  obtain x h1 where x: "write_loop H (pn_spool p) bs off 0 (fs_host fs) = (x, h1)" by fastforce
  obtain k where k: "x = Inr k" "length bs \<le> k"
    using run p x by (cases x) (auto simp: op_write_def break_pending_def split: if_splits)
  have "k \<le> length bs" using write_loop_writes [OF c _ x [unfolded k(1)]] by simp
  then have "contents h1 = (contents (fs_host fs))(pn_spool p \<mapsto> overwrite off bs c)"
    using write_loop_all [OF c] x k by simp
  moreover have "fs1 = fs\<lparr>fs_host := h1, fs_pending := (fs_pending fs)(path \<mapsto> p\<lparr>pn_size := max (pn_size p) (off + length bs)\<rparr>)\<rparr>"
    using run p x k by (auto simp: op_write_def Let_def max_def pn_size_same split: if_splits)
  ultimately show "\<exists>h1. fs1 = fs\<lparr>fs_host := h1, fs_pending := (fs_pending fs)(path \<mapsto> p\<lparr>pn_size := max (pn_size p) (off + length bs)\<rparr>)\<rparr>
    \<and> contents h1 = (contents (fs_host fs))(pn_spool p \<mapsto> overwrite off bs c)"
    by blast
  show "length (overwrite off bs c) = max (pn_size p) (off + length bs)"
    using bs size by (auto simp: overwrite_def)
qed

lemma op_read_pending:
  assumes "fs_pending fs path = Some p" and "contents (fs_host fs) (pn_spool p) = Some c"
    and "length c = pn_size p" and "op_read S H path sz off fi fs = (Inr bs, fs1)"
  shows "bs = take sz (drop off c)"
proof (cases "pn_size p \<le> off")
  case True
  then show ?thesis using assms by (simp add: op_read_def)
next
  case False
  then obtain h1 where "ho_read_at H (pn_spool p) (min sz (pn_size p - off)) off (fs_host fs) = (Inr bs, h1)"
    using assms by (auto simp: op_read_def or_fail_def map_err_def on_host_def split: prod.splits sum.splits)
  then have "bs = take (min sz (pn_size p - off)) (drop off c)"
    using read_at_slice assms(2) by blast
  then show ?thesis using assms(3) by (simp add: min_def)
qed

end

section \<open>The spool file as a source of bytes\<close>

definition disk_left :: "u64 \<Rightarrow> disk \<Rightarrow> bytes" where
  "disk_left n d = (case dk_files d n of None \<Rightarrow> [] | Some fl \<Rightarrow> drop (sp_cursor fl) (sp_data fl))"

interpretation spool_source: byte_source "ho_read disk_host n" "disk_left n"
proof
  fix len d step
  assume len: "len \<le> length (disk_left n d)"
  show "\<exists>d'. read_exact_or_short (ho_read disk_host n) len step d = (Inr (take len (disk_left n d)), d')
      \<and> disk_left n d' = drop len (disk_left n d)"
  proof (cases "dk_files d n")
    case None
    then show ?thesis
      using len by (simp add: disk_left_def read_exact_or_short_def read_exact_loop.simps)
  next
    case (Some fl)
    let ?d = "put_file n (fl\<lparr>sp_cursor := sp_cursor fl + len\<rparr>) (dk_room d) d"
    have lf: "disk_left n d = drop (sp_cursor fl) (sp_data fl)" using Some by (simp add: disk_left_def)
    show ?thesis
    proof (cases "len = 0")
      case True
      then show ?thesis by (simp add: read_exact_or_short_def read_exact_loop.simps)
    next
      case False
      have "take len (disk_left n d) \<noteq> []" "length (take len (disk_left n d)) = len" using False len by auto
      moreover have "ho_read disk_host n len d = (ReadBytes (take len (disk_left n d)), ?d)"
        using Some len lf by (simp add: disk_host_def Let_def min_absorb2)
      ultimately have "read_exact_loop (ho_read disk_host n) len [] d = Some (Inr (take len (disk_left n d)), ?d)"
        using False by (subst read_exact_loop.simps) (simp add: read_exact_loop.simps)
      then show ?thesis
        using lf by (simp add: read_exact_or_short_def disk_left_def put_file_def add.commute)
    qed
  qed
qed

section \<open>Streaming and sending from memory\<close>

definition same_setup :: "'d mtp \<Rightarrow> 'd mtp \<Rightarrow> bool" where
  "same_setup t t' \<longleftrightarrow> ses_config (mt_session t') = ses_config (mt_session t) \<and> mt_storage t' = mt_storage t"

interpretation agreed: step_order same_setup
  by unfold_locales (auto simp: same_setup_def)

lemma setup_on_session: "keeps keeps_config m \<Longrightarrow> keeps same_setup (on_session m)"
  by (rule keepsI) (auto simp: on_session_def same_setup_def keeps_config_def dest: keepsD split: prod.splits sum.splits)

lemma keeps_operation_with_data: "keeps keeps_config (operation_with_data T step code ps payload)"
  by (rule keepsI)
     (auto simp: operation_with_data_def keeps_config2_def keeps_config_def
       dest: keepsD [OF keeps_operation_sending] split: prod.splits)

lemma setup_steps: "keeps same_setup drop_cache" "keeps same_setup (check_outcome step out)"
  by (auto simp: keeps_def same_setup_def drop_cache_def check_outcome_def)

lemma setup_announce: "keeps same_setup (announce_object T info parg)"
  unfolding announce_object_def sending_data_def
  by (auto simp del: ok_apply intro!: agreed.keeps_intros setup_on_session keeps_operation_with_data setup_steps)

lemma announce_config:
  "announce_object T info parg t = (x, t') \<Longrightarrow> ses_config (mt_session t') = ses_config (mt_session t)"
  using keepsD [OF setup_announce] by (fastforce simp: same_setup_def)

context byte_source
begin

lemma stream_is_send:
  assumes ok: "config_ok (ses_config (mt_session t))"
  shows "answer_fst (send_object_stream T R parent name (length (left r)) (t, r))
    = send_object T parent name (left r) False t"
proof (cases "MAX_PAYLOAD_LEN < length (left r)")
  case True
  then show ?thesis by (simp add: send_object_stream_def send_object_def)
next
  case False
  let ?info = "build_for_send (mt_storage t) parent name (word_of_nat (length (left r))) False"
  obtain x t1 where x: "announce_object T ?info (parent_arg parent) t = (x, t1)" by fastforce
  show ?thesis
  proof (cases x)
    case (Inl e)
    then show ?thesis using False x by (simp add: send_object_stream_def send_object_def Let_def and_then_def)
  next
    case (Inr handle)
    have ok1: "config_ok (ses_config (mt_session t1))" using ok announce_config [OF x] by simp
    obtain y s2 r2 where y: "operation_sending T R ''SendObject'' SEND_OBJECT [] (length (left r)) (mt_session t1, r) = (y, (s2, r2))"
      by (metis prod.exhaust)
    have "operation_with_data T ''SendObject'' SEND_OBJECT [] (left r) (mt_session t1) = (y, s2)"
      using operation_sending_frames [OF ok1 refl, of r T "''SendObject''" SEND_OBJECT "[]"]
        operation_with_data_frames [OF ok1, of "left r" T "''SendObject''" SEND_OBJECT "[]"] False y by simp
    then show ?thesis
      using False x Inr y
      by (cases y) (simp_all add: send_object_stream_def send_object_def sending_data_def on_session_def
          and_then_def Let_def drop_cache_def check_outcome_def)
  qed
qed

end

lemma stream_spool_send:
  assumes "config_ok (ses_config (mt_session (fs_mtp fs)))"
    and "dk_files (fs_host fs) (pn_spool p) = Some fl" "sp_cursor fl = 0" "sp_data fl = c" "length c = pn_size p"
    and "send_object T (pn_parent p) (pn_name p) c False (fs_mtp fs) = (x, m)"
  shows "\<exists>d. stream_spool (mtp_service T) disk_host p fs = (x, fs\<lparr>fs_mtp := m, fs_host := d\<rparr>)"
proof -
  have left: "disk_left (pn_spool p) (fs_host fs) = c" using assms(2-4) by (simp add: disk_left_def)
  obtain y m' d where y: "send_object_stream T (ho_read disk_host (pn_spool p)) (pn_parent p) (pn_name p) (pn_size p)
      (fs_mtp fs, fs_host fs) = (y, (m', d))"
    by (metis prod.exhaust)
  then have "(y, m') = (x, m)"
    using spool_source.stream_is_send [OF assms(1), of T "pn_spool p" "pn_parent p" "pn_name p" "fs_host fs"]
      assms(5,6) by (simp add: left)
  then have "stream_spool (mtp_service T) disk_host p fs = (x, fs\<lparr>fs_mtp := m, fs_host := d\<rparr>)"
    using y by (simp add: stream_spool_def mtp_service_def)
  then show ?thesis by blast
qed

section \<open>The close of a new file\<close>

lemma op_flush_new:
  assumes "fh_writes fi" and "fs_pending fs path = Some p"
    and "pn_sent p = None" "pn_broken p = None" "pn_replaces p = None"
    and "disk_contents (fs_host fs) (pn_spool p) = Some c" and "length c = pn_size p"
    and "config_ok (ses_config (mt_session (fs_mtp fs)))"
    and "send_object T (pn_parent p) (pn_name p) c False (fs_mtp fs) = (x, m)"
  shows "\<exists>fs1. op_flush (mtp_service T) disk_host path fi fs = (case x of Inl _ \<Rightarrow> - EIO | Inr _ \<Rightarrow> 0, fs1)
    \<and> fs_mtp fs1 = m"
proof -
  obtain fl where fl: "dk_files (fs_host fs) (pn_spool p) = Some fl" "sp_data fl = c"
    using assms(6) by (auto simp: disk_contents_def)
  let ?d = "put_file (pn_spool p) (fl\<lparr>sp_cursor := 0\<rparr>) (dk_room (fs_host fs)) (fs_host fs)"
  let ?fs = "(remove_pending path fs)\<lparr>fs_host := ?d\<rparr>"
  have rewind: "ho_rewind disk_host (pn_spool p) (fs_host fs) = (Inr (), ?d)"
    using fl by (simp add: disk_host_def with_file_def)
  have f: "fs_mtp ?fs = fs_mtp fs" "fs_host ?fs = ?d" by (simp_all add: remove_pending_def)
  have "dk_files (fs_host ?fs) (pn_spool p) = Some (fl\<lparr>sp_cursor := 0\<rparr>)" by (simp add: put_file_def)
  then obtain d where "stream_spool (mtp_service T) disk_host p ?fs = (x, ?fs\<lparr>fs_mtp := m, fs_host := d\<rparr>)"
    using stream_spool_send [of ?fs p "fl\<lparr>sp_cursor := 0\<rparr>" c T x m] assms(7-9) fl f by auto
  then have "send_pending (mtp_service T) disk_host p (remove_pending path fs)
      = finish_send (mtp_service T) p True x (?fs\<lparr>fs_mtp := m, fs_host := d\<rparr>)"
    using assms(4,5) rewind
    by (simp add: send_pending_def make_room_def or_fail_def map_err_def on_host_def remove_pending_def)
  then show ?thesis
    using assms(1-5) by (cases x) (simp_all add: op_flush_def finish_send_def insert_pending_def drop_pending_def
        remove_pending_def Let_def split: option.split)
qed

section \<open>A scripted device that takes a file\<close>

lemma operation_with_data_fake:
  assumes "config_ok (ses_config s)" and "length payload \<le> MAX_PAYLOAD_LEN"
    and left: "left_answers (ses_device s) = Bytes (response_bytes rc tid rps) # later"
    and fits: "12 + 4 * length rps \<le> cfg_read_buffer (ses_config s)" "12 + 4 * length rps < 2 ^ 32"
  shows "\<exists>g. operation_with_data fake_transport step code ps payload s =
      (Inr \<lparr>o_response_code = rc, o_data = [], o_response_params = rps, o_reads = 1\<rparr>,
       at_device g (s\<lparr>ses_transaction := ses_transaction s + 1\<rparr>))
    \<and> (\<forall>f. fk_writes (g f) = fk_writes f @ build_command code (ses_transaction s) ps
          # data_frames (ses_config s) (data_header code (ses_transaction s) (length payload)) payload
        \<and> left_answers (g f) = drop 1 (left_answers f))"
proof -
  let ?frames = "data_frames (ses_config s) (data_header code (ses_transaction s) (length payload)) payload"
  let ?s1 = "at_device (record_write (build_command code (ses_transaction s) ps)) (s\<lparr>ses_transaction := ses_transaction s + 1\<rparr>)"
  obtain g where g: "write_frames fake_transport step ?frames ?s1 = (Inr (), at_device g ?s1)"
    "\<forall>f. fk_writes (g f) = fk_writes f @ ?frames \<and> left_answers (g f) = left_answers f"
    using write_frames_fake by blast
  have "read_answer fake_transport vec_writer step (at_device g ?s1, []) =
      (Inr \<lparr>so_response_code = rc, so_response_params = rps, so_bytes = 0, so_reads = 1\<rparr>,
       (at_device (after_answers 1) (at_device g ?s1), []))"
    by (rule read_answer_response) (use left fits g(2) in auto)
  then have "operation_with_data fake_transport step code ps payload s =
      (Inr \<lparr>o_response_code = rc, o_data = [], o_response_params = rps, o_reads = 1\<rparr>,
       at_device (\<lambda>f. after_answers 1 (g (record_write (build_command code (ses_transaction s) ps) f)))
         (s\<lparr>ses_transaction := ses_transaction s + 1\<rparr>))"
    using g(1) unfolding operation_with_data_frames [OF assms(1,2)]
    by (simp add: next_transaction_def fake_write_all collecting_def)
  then show ?thesis using g(2) by (intro exI conjI) auto
qed

text \<open>A session in order whose device has a script of answers left, and its operations.\<close>

definition answers_left :: "answer list \<Rightarrow> fake_device session \<Rightarrow> bool" where
  "answers_left as s \<longleftrightarrow> config_ok (ses_config s) \<and> cfg_read_buffer (ses_config s) = 512
     \<and> left_answers (ses_device s) = as"

lemma answered_operation:
  assumes "answers_left (Bytes (response_bytes rc tid rps) # as) s" and "length rps \<le> 5"
  shows "\<exists>s'. operation fake_transport step code ps s =
      (Inr \<lparr>o_response_code = rc, o_data = [], o_response_params = rps, o_reads = 1\<rparr>, s') \<and> answers_left as s'"
  using operation_fake_response [of s rc tid rps as step code ps] assms by (simp add: answers_left_def)

lemma answered_operation_with_data:
  assumes "answers_left (Bytes (response_bytes rc tid rps) # as) s" and "length rps \<le> 5"
    and "length payload \<le> MAX_PAYLOAD_LEN"
  shows "\<exists>s'. operation_with_data fake_transport step code ps payload s =
      (Inr \<lparr>o_response_code = rc, o_data = [], o_response_params = rps, o_reads = 1\<rparr>, s') \<and> answers_left as s'"
  using operation_with_data_fake [of s payload rc tid rps as step code ps] assms by (auto simp: answers_left_def)

lemma answers_left_session: "answers_left as (fake_session as)"
  by (simp add: answers_left_def fake_config_ok) (simp add: fake_config_def READ_BUFFER_MIN_def)

lemma length_push_string: "length (push_string out s) \<le> length out + 511"
  using cut_units_le [of 254 "encode_utf16 s"] by (auto simp: push_string_def Let_def min.coboundedI2)

lemma announced_dataset_fits: "length (build_for_send storage parent name sz dir) \<le> MAX_PAYLOAD_LEN"
proof -
  have "length (build_for_send storage parent name sz dir) \<le> 2200"
    unfolding build_for_send_def Let_def
    by (rule order_trans [OF length_push_string], rule order_trans [OF add_right_mono [OF length_push_string]],
        rule order_trans [OF add_right_mono [OF add_right_mono [OF length_push_string]]],
        rule order_trans [OF add_right_mono [OF add_right_mono [OF add_right_mono [OF length_push_string]]]]) simp
  then show ?thesis by (simp add: MAX_PAYLOAD_LEN_def u32_max_def HEADER_LEN_def)
qed

lemma answered_send:
  assumes as: "answers_left (Bytes (response_bytes RESP_OK i [w, q, h]) # Bytes (response_bytes RESP_OK j []) # as) (mt_session t)"
    and fits: "length bs \<le> MAX_PAYLOAD_LEN"
  shows "\<exists>m. send_object fake_transport parent name bs False t = (Inr h, m) \<and> answers_left as (mt_session m)"
proof -
  let ?info = "build_for_send (mt_storage t) parent name (word_of_nat (length bs)) False"
  obtain s1 where s1: "operation_with_data fake_transport ''SendObjectInfo'' SEND_OBJECT_INFO [mt_storage t, parent_arg parent] ?info
      (mt_session t) = (Inr \<lparr>o_response_code = RESP_OK, o_data = [], o_response_params = [w, q, h], o_reads = 1\<rparr>, s1)"
    "answers_left (Bytes (response_bytes RESP_OK j []) # as) s1"
    using answered_operation_with_data [OF as _ announced_dataset_fits] by fastforce
  obtain s2 where s2: "operation_with_data fake_transport ''SendObject'' SEND_OBJECT [] bs s1 =
      (Inr \<lparr>o_response_code = RESP_OK, o_data = [], o_response_params = [], o_reads = 1\<rparr>, s2)" "answers_left as s2"
    using answered_operation_with_data [OF s1(2) _ fits] by fastforce
  have "\<not> MAX_PAYLOAD_LEN < length bs" using fits by simp
  then show ?thesis
    using s1(1) s2
    by (simp add: send_object_def announce_object_def sending_data_def on_session_def and_then_def
        drop_cache_def check_outcome_def outcome_is_ok_def Let_def)
qed

text \<open>The mount of the example: a session that is about to be told that the file is there.\<close>

definition taking_mtp :: "fake_device mtp" where
  "taking_mtp = fresh_mtp default_settings 512 (fake_session
     [Bytes (response_bytes RESP_OK 0 [65537, 1, 10]), Bytes (response_bytes RESP_OK 1 [])])"

lemma taking_mtp_sends:
  "\<exists>m. send_object fake_transport 1 (lit ''a.jpg'') [7, 8, 9, 6] False taking_mtp = (Inr 10, m)"
  using answered_send [of 0 65537 1 10 1 "[]" taking_mtp "[7, 8, 9, 6]" 1 "lit ''a.jpg''"]
    answers_left_session [of "[Bytes (response_bytes RESP_OK 0 [65537, 1, 10]), Bytes (response_bytes RESP_OK 1 [])]"]
  by (auto simp: taking_mtp_def fresh_mtp_def MAX_PAYLOAD_LEN_def u32_max_def HEADER_LEN_def)

section \<open>Properties\<close>

text \<open>
  C4: the bytes a write puts into an open file are the bytes a read of that place gives, before the
  device has seen any of them; the spool file holds the old contents with the bytes in their place,
  as long as the size the mount reports, and a gap reads as zeroes.
\<close>

theorem write_then_read:
  assumes "fs_pending fs path = Some p" and "disk_contents (fs_host fs) (pn_spool p) = Some c"
    and "length c = pn_size p" and "bs \<noteq> []" and "op_write disk_host path bs off fs = (Inr n, fs1)"
    and "op_read S disk_host path sz at fi fs1 = (Inr out, fs2)"
  shows "out = take sz (drop at (overwrite off bs c))
    \<and> (at = off \<and> sz = length bs \<longrightarrow> out = bs)
    \<and> (\<exists>q. fs_pending fs1 path = Some q \<and> pn_size q = length (overwrite off bs c)
        \<and> disk_contents (fs_host fs1) (pn_spool q) = Some (overwrite off bs c))"
proof -
  let ?q = "p\<lparr>pn_size := max (pn_size p) (off + length bs)\<rparr>"
  note w = spool.op_write_contents [OF assms(1-5)]
  have q: "fs_pending fs1 path = Some ?q" "disk_contents (fs_host fs1) (pn_spool ?q) = Some (overwrite off bs c)"
    "length (overwrite off bs c) = pn_size ?q"
    using w by auto
  have "out = take sz (drop at (overwrite off bs c))"
    using spool.op_read_pending [OF q assms(6)] .
  then show ?thesis using q overwrite_slice [of bs off c] by auto
qed

text \<open>
  C5: the close of a file a program made sends the contents of the spool file, whole and in order:
  the device, the session and the answer are those of a send of the same bytes from memory, and
  the program gets a fault exactly when that send has one.
\<close>

theorem flush_sends_contents:
  assumes "fh_writes fi" and "fs_pending fs path = Some p"
    and "pn_sent p = None" "pn_broken p = None" "pn_replaces p = None"
    and "disk_contents (fs_host fs) (pn_spool p) = Some c" and "length c = pn_size p"
    and "config_ok (ses_config (mt_session (fs_mtp fs)))"
    and "send_object T (pn_parent p) (pn_name p) c False (fs_mtp fs) = (x, m)"
  shows "\<exists>fs1. op_flush (mtp_service T) disk_host path fi fs = (case x of Inl _ \<Rightarrow> - EIO | Inr _ \<Rightarrow> 0, fs1)
    \<and> fs_mtp fs1 = m"
  using assms by (rule op_flush_new)

lemma write_then_read_witness:
  "\<exists>fs1 fs2. op_write disk_host sample_path [1, 2] 1 (writing_fs 1000) = (Inr 2, fs1)
    \<and> op_read (phone_service sample_dir) disk_host sample_path 2 1 None fs1 = (Inr [1, 2], fs2)"
proof -
  have p: "fs_pending (writing_fs 1000) sample_path = Some sample_pending"
    by (simp add: writing_fs_def sample_fs_def)
  have c: "disk_contents (fs_host (writing_fs 1000)) (pn_spool sample_pending) = Some [7, 8, 9, 6]"
    by (simp add: writing_fs_def sample_disk_def sample_pending_def disk_contents_def)
  obtain fs1 where w: "op_write disk_host sample_path [1, 2] 1 (writing_fs 1000) = (Inr 2, fs1)"
    by (simp add: op_write_def p)
       (simp add: writing_fs_def sample_disk_def sample_pending_def write_loop.simps disk_host_def
          disk_write_at_def with_file_def Let_def as_i32_def)
  obtain out fs2 where r: "op_read (phone_service sample_dir) disk_host sample_path 2 1 None fs1 = (Inr out, fs2)"
  proof -
    have "length [7, 8, 9, 6 :: 8 word] = pn_size sample_pending" by (simp add: sample_pending_def)
    note fs1 = spool.op_write_contents(1) [OF p c this _ w]
    obtain q x where "fs_pending fs1 sample_path = Some q" "disk_contents (fs_host fs1) (pn_spool q) = Some x"
      using fs1 by auto
    moreover from this(2) obtain fl where "dk_files (fs_host fs1) (pn_spool q) = Some fl" by (rule disk_fileE)
    moreover from this have "ho_read_at disk_host (pn_spool q) k at (fs_host fs1) = (Inr (take k (drop at (sp_data fl))), fs_host fs1)" for k at
      by (simp add: disk_host_def with_file_def)
    ultimately have "\<exists>out fs2. op_read (phone_service sample_dir) disk_host sample_path 2 1 None fs1 = (Inr out, fs2)"
      by (simp add: op_read_def or_fail_def map_err_def on_host_def)
    then show ?thesis using that by blast
  qed
  have "length [7, 8, 9, 6 :: 8 word] = pn_size sample_pending" by (simp add: sample_pending_def)
  from write_then_read [OF p c this _ w r] w r show ?thesis by auto
qed

lemma flush_sends_contents_witness:
  "\<exists>fs1. op_flush (mtp_service fake_transport) disk_host sample_path (Some FH_WRITER)
     (sample_fs taking_mtp [sample_path \<mapsto> sample_pending\<lparr>pn_replaces := None\<rparr>]) = (0, fs1)"
proof -
  let ?p = "sample_pending\<lparr>pn_replaces := None\<rparr>"
  let ?fs = "sample_fs taking_mtp [sample_path \<mapsto> ?p]"
  obtain m where m: "send_object fake_transport (pn_parent ?p) (pn_name ?p) [7, 8, 9, 6] False (fs_mtp ?fs) = (Inr 10, m)"
    using taking_mtp_sends by (auto simp: sample_pending_def sample_fs_def)
  have "config_ok (ses_config (mt_session (fs_mtp ?fs)))"
    by (simp add: sample_fs_def taking_mtp_def fresh_mtp_def fake_config_ok)
  with flush_sends_contents [OF writer_writes _ _ _ _ _ _ this m, of sample_path]
  show ?thesis
    by (auto simp: sample_fs_def sample_pending_def sample_disk_def disk_contents_def)
qed

end
