(* ===== verification/Mtpfs_Edit.thy ===== *)
theory Mtpfs_Edit
  imports Mtpfs_Send
begin

text \<open>
  A change of a file that is on the device. The open copies the object to a spool file before the
  program writes a byte of it: read by read over the endpoints, write by write into the spool
  folder. What the copy leaves is the object, whole, and a write changes it where it says.
\<close>

section \<open>One step of the copy\<close>

lemma disk_appends:
  assumes "dk_files d n = Some \<lparr>sp_data = c, sp_cursor = length c\<rparr>" and "length bs \<le> dk_room d"
  shows "ho_write_all disk_host n bs d =
    (Inr (), put_file n \<lparr>sp_data = c @ bs, sp_cursor = length (c @ bs)\<rparr> (dk_room d - length bs) d)"
proof -
  have "overwrite (length c) bs c = c @ bs" by (simp add: overwrite_def)
  then show ?thesis
    using assms by (simp add: disk_host_def disk_write_all_def with_file_def Let_def min_def)
qed

lemma put_file_simps [simp]:
  "dk_files (put_file n fl room d) = (dk_files d)(n \<mapsto> fl)" "dk_room (put_file n fl room d) = room"
  by (simp_all add: put_file_def)

lemma disk_spool_new:
  "\<exists>fs1. make_spool disk_host fs = (Inr (fs_count fs), fs1)
    \<and> dk_files (fs_host fs1) (fs_count fs) = Some \<lparr>sp_data = [], sp_cursor = 0\<rparr>
    \<and> dk_room (fs_host fs) \<le> dk_room (fs_host fs1)
    \<and> fs_pending fs1 = fs_pending fs \<and> fs_tree fs1 = fs_tree fs \<and> fs_mtp fs1 = fs_mtp fs"
  by (simp add: make_spool_def next_count_def on_host_def disk_host_def and_then_def)

text \<open>The states a copy goes through: what is in the spool file, and what the device is ready for.\<close>

definition copied ::
    "('d mtp \<Rightarrow> bool) \<Rightarrow> u32 \<Rightarrow> bytes \<Rightarrow> u64 \<Rightarrow> nat \<Rightarrow> ('d mtp, disk) fs \<Rightarrow> ('d mtp, disk) fs \<Rightarrow> bool" where
  "copied good h content n k fs fs' \<longleftrightarrow>
     k \<le> length content
   \<and> dk_files (fs_host fs') n = Some \<lparr>sp_data = take k content, sp_cursor = k\<rparr>
   \<and> length content - k \<le> dk_room (fs_host fs')
   \<and> good (fs_mtp fs') \<and> cache_holds content h (fs_mtp fs')
   \<and> fs_pending fs' = fs_pending fs \<and> fs_tree fs' = fs_tree fs"

locale readable_object =
  fixes T :: "'d transport" and good :: "'d mtp \<Rightarrow> bool" and h :: u32 and content :: bytes
  assumes honest: "honest_reads good content (partial_read T h)"
    and packet: "good t \<Longrightarrow> mt_packet t \<noteq> 1"
begin

lemma copy_step:
  assumes c: "copied good h content n k fs fs1" and k: "k < length content"
  shows "\<exists>data fs2 fs3. on_mtp (sv_read_at (mtp_service T :: ('d mtp, disk) service) h k (min READ_CHUNK (length content - k)) (length content)) fs1
      = (Inr data, fs2) \<and> data \<noteq> [] \<and> on_host (ho_write_all disk_host n data) fs2 = (Inr (), fs3)
    \<and> copied good h content n (k + length data) fs fs3"
proof -
  define w where "w = min READ_CHUNK (length content - k)"
  have w: "0 < w" "w \<le> length content - k" using k by (simp_all add: w_def READ_CHUNK_def)
  let ?data = "take w (drop k content)"
  have c': "dk_files (fs_host fs1) n = Some \<lparr>sp_data = take k content, sp_cursor = length (take k content)\<rparr>"
    "length content - k \<le> dk_room (fs_host fs1)" "good (fs_mtp fs1)" "cache_holds content h (fs_mtp fs1)"
    "fs_pending fs1 = fs_pending fs" "fs_tree fs1 = fs_tree fs"
    using c by (simp_all add: copied_def min_def)
  obtain m where m: "read_at T h k w (length content) (fs_mtp fs1) = (Inr ?data, m)"
    "good m" "cache_holds content h m"
    using read_at_slice [OF honest packet c'(3,4), of k w] by blast
  have len: "length ?data = w" using w by simp
  have join: "take k content @ ?data = take (k + w) content" by (rule take_add [symmetric])
  let ?fs2 = "fs1\<lparr>fs_mtp := m\<rparr>"
  let ?d = "put_file n \<lparr>sp_data = take (k + w) content, sp_cursor = k + w\<rparr> (dk_room (fs_host fs1) - w) (fs_host fs1)"
  have "length (take (k + w) content) = k + w" using w k by simp
  then have "ho_write_all disk_host n ?data (fs_host fs1) = (Inr (), ?d)"
    using disk_appends [OF c'(1), of ?data] c'(2) w(2) unfolding join len by simp
  then have put: "on_host (ho_write_all disk_host n ?data) ?fs2 = (Inr (), ?fs2\<lparr>fs_host := ?d\<rparr>)"
    by (simp add: on_host_def)
  have got: "on_mtp (sv_read_at (mtp_service T :: ('d mtp, disk) service) h k w (length content)) fs1 = (Inr ?data, ?fs2)"
    using m(1) by (simp add: on_mtp_def mtp_service_def)
  have "k + w \<le> length content" "length content - (k + w) \<le> dk_room (fs_host fs1) - w"
    using w c'(2) k by linarith+
  then have "copied good h content n (k + length ?data) fs (?fs2\<lparr>fs_host := ?d\<rparr>)"
    using c'(5,6) m(2,3) unfolding copied_def len by simp
  moreover have "?data \<noteq> []" using len w(1) by (metis length_greater_0_conv)
  ultimately show ?thesis using put got unfolding w_def [symmetric] by blast
qed

lemma copy_loop_copies:
  assumes "copied good h content n k fs fs1"
  shows "\<exists>fs'. copy_loop (mtp_service T) disk_host h (length content) n k fs1 = (Inr (length content), fs')
    \<and> copied good h content n (length content) fs fs'"
  using assms
proof (induction "length content - k" arbitrary: k fs1 rule: less_induct)
  case less
  note unfold = copy_loop.simps [of "mtp_service T" disk_host h "length content" n k fs1]
  show ?case
  proof (cases "length content \<le> k")
    case True
    then have "k = length content" using less.prems by (simp add: copied_def)
    then show ?thesis using less.prems unfold by auto
  next
    case False
    obtain data fs2 fs3 where s:
      "on_mtp (sv_read_at (mtp_service T :: ('d mtp, disk) service) h k (min READ_CHUNK (length content - k)) (length content)) fs1 = (Inr data, fs2)"
      "data \<noteq> []" "on_host (ho_write_all disk_host n data) fs2 = (Inr (), fs3)"
      "copied good h content n (k + length data) fs fs3"
      using copy_step [OF less.prems] False by auto
    have "length content - (k + length data) < length content - k" using bytes_left [OF s(2) False] .
    from less.hyps [OF this s(4)] show ?thesis
      using unfold False s(1-3) by simp
  qed
qed

lemma adopt_copies:
  assumes t: "good (fs_mtp fs)" "cache_holds content h (fs_mtp fs)"
    and e: "unat (en_size e) = length content" and free: "fs_pending fs path = None"
    and room: "length content \<le> dk_room (fs_host fs)"
  shows "\<exists>fs1. adopt_for_write (mtp_service T) disk_host path h e True fs = (Inr (), fs1)
    \<and> fs_pending fs1 = (fs_pending fs)(path \<mapsto>
        \<lparr>pn_parent = en_parent e, pn_name = en_name e, pn_spool = fs_count fs, pn_size = length content,
         pn_sent = None, pn_replaces = Some h, pn_broken = None, pn_keep_spool = False\<rparr>)
    \<and> disk_contents (fs_host fs1) (fs_count fs) = Some content"
proof -
  let ?n = "fs_count fs"
  obtain fs1 where mk: "make_spool disk_host fs = (Inr ?n, fs1)"
    and new: "dk_files (fs_host fs1) ?n = Some \<lparr>sp_data = [], sp_cursor = 0\<rparr>"
      "dk_room (fs_host fs) \<le> dk_room (fs_host fs1)" "fs_pending fs1 = fs_pending fs" "fs_tree fs1 = fs_tree fs"
      "fs_mtp fs1 = fs_mtp fs"
    using disk_spool_new by blast
  have start: "copied good h content ?n 0 fs fs1" using new t room by (simp add: copied_def)
  have "\<exists>fs2. (if 0 < en_size e then copy_object_to_spool (mtp_service T) disk_host h (unat (en_size e)) ?n else ok 0) fs1
      = (Inr (length content), fs2) \<and> copied good h content ?n (length content) fs fs2"
  proof (cases "0 < en_size e")
    case True
    then show ?thesis using copy_loop_copies [OF start] by (simp add: copy_object_to_spool_def e)
  next
    case False
    then have "length content = 0" using e by (simp add: word_gt_0)
    then show ?thesis using False start by simp
  qed
  then obtain fs2 where copy: "(if 0 < en_size e then copy_object_to_spool (mtp_service T) disk_host h (unat (en_size e)) ?n else ok 0) fs1
      = (Inr (length content), fs2)" and fs2: "copied good h content ?n (length content) fs fs2" by blast
  have "\<not> (case ho_free disk_host (fs_host fs) of Some free \<Rightarrow> unat (en_size e) > free | None \<Rightarrow> False)"
    using room by (simp add: disk_host_def e)
  then show ?thesis
    using mk copy fs2 free
    by (simp add: adopt_for_write_def or_fail_def map_err_def and_then_def modify_def insert_pending_def
        copied_def disk_contents_def)
qed

end

text \<open>The device that holds one object is such a device, for the buffers and the sizes the program allows.\<close>

interpretation held_object: readable_object
    "holds_object (max READ_BUFFER_MIN k) h (take MAX_PAYLOAD_LEN content)" "at_rest (max READ_BUFFER_MIN k)"
    h "take MAX_PAYLOAD_LEN content" for k h content
  by unfold_locales (auto simp: at_rest_def intro!: holds_object_honest)

section \<open>The property\<close>

lemma writer_handle:
  assumes "oflag_writes flags" and "flags AND TRUNC = 0"
    and "lookup (fs_tree fs) path = Found h" and "tree_get (fs_tree fs) h = Some e" and "\<not> en_is_dir e"
    and "fs_pending fs path = None" and "adopt_for_write S H path h e True fs = (Inr (), fs1)"
  shows "op_open S H path (Some flags) fs = (Inr (Some (ucast h OR FH_WRITER)), fs1)"
  using assms by (simp add: op_open_def resolved_def resolve_found file_entry_def and_then_def)

text \<open>
  C7: opening a file of the device for a change, with no truncation, copies the object to a spool
  file of its own, byte for byte, when the disk has room for it; and the writes of the program
  change that copy where they say and nowhere else, so what the close sends is the old contents
  with the new bytes in their place.
\<close>

theorem change_keeps_the_rest:
  assumes "at_rest k (fs_mtp fs)" and "READ_BUFFER_MIN \<le> k" and "length content \<le> MAX_PAYLOAD_LEN"
    and "cache_holds content h (fs_mtp fs)"
    and "lookup (fs_tree fs) path = Found h" and "tree_get (fs_tree fs) h = Some e" and "\<not> en_is_dir e"
    and "unat (en_size e) = length content" and "fs_pending fs path = None"
    and "oflag_writes flags" and "flags AND TRUNC = 0" and "length content \<le> dk_room (fs_host fs)"
  shows "\<exists>fs1 p. op_open (mtp_service (holds_object k h content)) disk_host path (Some flags) fs
      = (Inr (Some (ucast h OR FH_WRITER)), fs1)
    \<and> fs_pending fs1 path = Some p \<and> pn_replaces p = Some h \<and> pn_size p = length content
    \<and> disk_contents (fs_host fs1) (pn_spool p) = Some content
    \<and> (\<forall>bs off n fs2. bs \<noteq> [] \<longrightarrow> op_write disk_host path bs off fs1 = (Inr n, fs2) \<longrightarrow>
        (\<exists>q. fs_pending fs2 path = Some q \<and> pn_replaces q = Some h
          \<and> disk_contents (fs_host fs2) (pn_spool q) = Some (overwrite off bs content)
          \<and> pn_size q = length (overwrite off bs content)))"
proof -
  let ?p = "\<lparr>pn_parent = en_parent e, pn_name = en_name e, pn_spool = fs_count fs, pn_size = length content,
         pn_sent = None, pn_replaces = Some h, pn_broken = None, pn_keep_spool = False\<rparr>"
  have k: "max READ_BUFFER_MIN k = k" and c: "take MAX_PAYLOAD_LEN content = content"
    using assms(2,3) by simp_all
  obtain fs1 where a: "adopt_for_write (mtp_service (holds_object k h content)) disk_host path h e True fs = (Inr (), fs1)"
    and p: "fs_pending fs1 path = Some ?p" and d: "disk_contents (fs_host fs1) (pn_spool ?p) = Some content"
    using held_object.adopt_copies [of k fs content h e path, unfolded k c] assms(1,4,8,9,12) by auto
  have op: "op_open (mtp_service (holds_object k h content)) disk_host path (Some flags) fs
      = (Inr (Some (ucast h OR FH_WRITER)), fs1)"
    by (rule writer_handle [OF assms(10,11,5,6,7,9) a])
  have "\<exists>q. fs_pending fs2 path = Some q \<and> pn_replaces q = Some h
      \<and> disk_contents (fs_host fs2) (pn_spool q) = Some (overwrite off bs content)
      \<and> pn_size q = length (overwrite off bs content)"
    if "bs \<noteq> []" "op_write disk_host path bs off fs1 = (Inr n, fs2)" for bs off n fs2
    using spool.op_write_contents [OF p d _ that] by auto
  then show ?thesis using op p d by fastforce
qed

lemma change_keeps_the_rest_witness:
  "\<exists>fs1 p. op_open (mtp_service (holds_object 512 2 [1, 2, 3])) disk_host sample_path (Some WRONLY)
      (sample_fs ((fresh_mtp default_settings 512 (fake_session []))\<lparr>mt_partial_read := GET_PARTIAL_OBJECT_64\<rparr>)
        Map.empty) = (Inr (Some (2 OR FH_WRITER)), fs1)
    \<and> fs_pending fs1 sample_path = Some p \<and> disk_contents (fs_host fs1) (pn_spool p) = Some [1, 2, 3]"
proof -
  let ?t = "(fresh_mtp default_settings 512 (fake_session []))\<lparr>mt_partial_read := GET_PARTIAL_OBJECT_64\<rparr>"
  let ?fs = "sample_fs ?t Map.empty"
  have "at_rest 512 (fs_mtp ?fs)" "cache_holds [1, 2, 3] 2 (fs_mtp ?fs)"
    using sample_at_rest by (simp_all add: sample_fs_def)
  moreover have "lookup (fs_tree ?fs) sample_path = Found 2" "tree_get (fs_tree ?fs) 2 = Some sample_file"
      "unat (en_size sample_file) = length [1, 2, 3 :: 8 word]" "\<not> en_is_dir sample_file" "fs_pending ?fs sample_path = None"
      "length [1, 2, 3 :: 8 word] \<le> dk_room (fs_host ?fs)"
    by (simp_all add: sample_fs_def tree_get_def sample_tree_get sample_path_def sample_lookups sample_file_def sample_disk_def)
  moreover have "oflag_writes WRONLY" "WRONLY AND TRUNC = 0"
    by (simp_all add: oflag_writes_def WRONLY_def TRUNC_def ACCMODE_def)
  ultimately show ?thesis
    using change_keeps_the_rest [of 512 ?fs "[1, 2, 3]" 2 sample_path sample_file WRONLY]
    by (fastforce simp: READ_BUFFER_MIN_def MAX_PAYLOAD_LEN_def u32_max_def HEADER_LEN_def)
qed

end
