(* ===== verification/Mtpfs_Mount.thy ===== *)
theory Mtpfs_Mount
  imports Mtpfs_Spool
begin

text \<open>
  The life of a mount: the requests FUSE can make, the states they can lead to, and what holds in
  each of them. A file a program writes has a spool file of its own, which nobody else writes, and
  which holds as many bytes as the mount reports; the tree is consistent.
\<close>

section \<open>Requests\<close>

datatype request =
    CallGetattr "u32 \<times> u32" ustring
  | CallReaddir bool ustring
  | CallStatfs
  | CallOpen ustring "u32 option"
  | CallRead ustring nat nat "u64 option"
  | CallCreate ustring bool
  | CallWrite ustring bytes nat
  | CallFlush ustring "u64 option"
  | CallRelease ustring "u64 option"
  | CallUnlink ustring
  | CallMkdir ustring
  | CallRmdir ustring
  | CallTruncate ustring nat
  | CallRename ustring ustring
  | CallUtimens
  | CallChmod
  | CallChown

text \<open>The table of callbacks \<open>main\<close> gives FUSE; the state after a request.\<close>

fun serve :: "('m, 'h) service \<Rightarrow> 'h host \<Rightarrow> request \<Rightarrow> ('m, 'h) fs \<Rightarrow> ('m, 'h) fs" where
  "serve S H (CallGetattr owner path) fs = snd (op_getattr S owner path fs)"
| "serve S H (CallReaddir filler path) fs = snd (op_readdir S filler path fs)"
| "serve S H CallStatfs fs = snd (op_statfs S fs)"
| "serve S H (CallOpen path flags) fs = snd (op_open S H path flags fs)"
| "serve S H (CallRead path sz offset fi) fs = snd (op_read S H path sz offset fi fs)"
| "serve S H (CallCreate path fi) fs = snd (op_create S H path fi fs)"
| "serve S H (CallWrite path bs offset) fs = snd (op_write H path bs offset fs)"
| "serve S H (CallFlush path fi) fs = snd (op_flush S H path fi fs)"
| "serve S H (CallRelease path fi) fs = snd (op_release S H path fi fs)"
| "serve S H (CallUnlink path) fs = snd (op_unlink S path fs)"
| "serve S H (CallMkdir path) fs = snd (op_mkdir S path fs)"
| "serve S H (CallRmdir path) fs = snd (op_rmdir S path fs)"
| "serve S H (CallTruncate path sz) fs = snd (op_truncate S H path sz fs)"
| "serve S H (CallRename old new) fs = snd (op_rename S old new fs)"
| "serve S H CallUtimens fs = snd (op_utimens fs)"
| "serve S H CallChmod fs = snd (op_chmod fs)"
| "serve S H CallChown fs = snd (op_chown fs)"

text \<open>The state of a new mount.\<close>

definition new_mount :: "'m \<Rightarrow> 'h \<Rightarrow> ('m, 'h) fs" where
  "new_mount m h = \<lparr>fs_mtp = m, fs_tree = tree_new, fs_pending = Map.empty, fs_count = 0, fs_host = h\<rparr>"

definition room :: "nat \<Rightarrow> ('m, 'h) fs \<Rightarrow> bool" where
  "room k fs \<longleftrightarrow> unat (fs_count fs) + k < 2 ^ 64"

text \<open>
  The kernel sends no empty write. A request takes at most two numbers of the counter, so the
  states are those before its 64 bits run out.
\<close>

inductive reachable_mount :: "('m, 'h) service \<Rightarrow> 'h host \<Rightarrow> ('m, 'h) fs \<Rightarrow> bool" for S H where
  Mount: "reachable_mount S H (new_mount m h)"
| Serve: "reachable_mount S H fs \<Longrightarrow> room 2 fs
    \<Longrightarrow> (\<forall>path offset. call \<noteq> CallWrite path [] offset) \<Longrightarrow> reachable_mount S H (serve S H call fs)"

section \<open>Steps that leave the open files alone\<close>

definition quiet :: "('h \<Rightarrow> u64 \<Rightarrow> bytes option) \<Rightarrow> nat \<Rightarrow> ('m, 'h) fs \<Rightarrow> ('m, 'h) fs \<Rightarrow> bool" where
  "quiet contents k fs fs' \<longleftrightarrow>
     (tree_ok (fs_tree fs) \<longrightarrow> tree_ok (fs_tree fs')) \<and> fs_pending fs' = fs_pending fs
     \<and> unat (fs_count fs) \<le> unat (fs_count fs') \<and> unat (fs_count fs') \<le> unat (fs_count fs) + k
     \<and> (\<forall>n<fs_count fs. contents (fs_host fs') n = contents (fs_host fs) n)"

definition uses ::
    "('h \<Rightarrow> u64 \<Rightarrow> bytes option) \<Rightarrow> nat \<Rightarrow> (('m, 'h) fs \<Rightarrow> 'x \<times> ('m, 'h) fs) \<Rightarrow> bool" where
  "uses contents k m \<longleftrightarrow> (\<forall>s r t. room k s \<longrightarrow> m s = (r, t) \<longrightarrow> quiet contents k s t)"

lemma usesI: "(\<And>s r t. room k s \<Longrightarrow> m s = (r, t) \<Longrightarrow> quiet contents k s t) \<Longrightarrow> uses contents k m"
  by (simp add: uses_def)

lemma usesD: "uses contents k m \<Longrightarrow> room k s \<Longrightarrow> m s = (r, t) \<Longrightarrow> quiet contents k s t"
  by (simp add: uses_def)

lemma quiet_refl [simp]: "quiet contents k s s"
  by (simp add: quiet_def)

lemma quiet_trans:
  assumes "quiet contents i s t" and "quiet contents j t u"
  shows "quiet contents (i + j) s u"
proof -
  have "fs_count s \<le> fs_count t" using assms(1) by (simp add: quiet_def word_le_nat_alt)
  then show ?thesis using assms by (auto simp: quiet_def)
qed

lemma room_mono: "room k s \<Longrightarrow> j \<le> k \<Longrightarrow> room j s"
  by (simp add: room_def)

lemma room_quiet: "quiet contents i s t \<Longrightarrow> room (i + j) s \<Longrightarrow> room j t"
  by (simp add: room_def quiet_def)

lemma quiet_mono: "quiet contents i s t \<Longrightarrow> i \<le> k \<Longrightarrow> quiet contents k s t"
  by (auto simp: quiet_def)

lemma uses_and_then:
  assumes m: "uses contents i m" and f: "\<And>a. uses contents j (f a)" and k: "k = i + j"
  shows "uses contents k (and_then m f)"
proof (rule usesI)
  fix s r t
  assume b: "room k s" and run: "and_then m f s = (r, t)"
  obtain q s1 where q: "m s = (q, s1)" by fastforce
  have one: "quiet contents i s s1" using usesD [OF m room_mono [OF b] q] k by simp
  show "quiet contents k s t"
  proof (cases q)
    case (Inl e)
    then show ?thesis using run q one quiet_mono [OF one] k by simp
  next
    case (Inr a)
    have "room j s1" using room_quiet [OF one] b k by simp
    moreover have "f a s1 = (r, t)" using run q Inr by simp
    ultimately show ?thesis using quiet_trans [OF one usesD [OF f]] k by blast
  qed
qed

lemma uses_0_and_then:
  "uses contents 0 m \<Longrightarrow> (\<And>a. uses contents j (f a)) \<Longrightarrow> uses contents j (and_then m f)"
  by (rule uses_and_then [where i = 0 and j = j]) simp_all

lemma uses_and_then_0:
  "uses contents i m \<Longrightarrow> (\<And>a. uses contents 0 (f a)) \<Longrightarrow> uses contents i (and_then m f)"
  by (rule uses_and_then [where i = i and j = 0]) simp_all

lemma uses_same: "(\<And>s. snd (m s) = s) \<Longrightarrow> uses contents k m"
  by (rule usesI) (metis quiet_refl snd_conv)

lemma uses_simple: "uses contents k (ok a)" "uses contents k (err e)"
  by (simp_all add: uses_same)

lemma uses_map_err: "uses contents k m \<Longrightarrow> uses contents k (map_err g m)"
  by (rule usesI) (auto simp: map_err_def dest: usesD split: prod.splits sum.splits)

lemma uses_or_fail: "uses contents k m \<Longrightarrow> uses contents k (or_fail rc m)"
  unfolding or_fail_def by (rule uses_map_err)

lemma uses_unwrap_or: "uses contents k m \<Longrightarrow> uses contents k (unwrap_or d m)"
  by (rule usesI) (auto simp: unwrap_or_def dest: usesD split: prod.splits sum.splits)

lemma uses_ignoring: "uses contents k m \<Longrightarrow> uses contents k (ignoring m)"
  by (rule usesI) (auto simp: ignoring_def intro: usesD [OF _ _ prod.collapse [symmetric]])

lemma uses_on_mtp: "uses contents k (on_mtp m)"
  by (rule usesI) (auto simp: on_mtp_def quiet_def split: prod.splits)

lemma quiet_tree: "(tree_ok (fs_tree fs) \<Longrightarrow> tree_ok t) \<Longrightarrow> quiet contents k fs (fs\<lparr>fs_tree := t\<rparr>)"
  by (simp add: quiet_def)

lemma uses_forget: "uses contents k (forget folder)"
  by (rule usesI) (auto simp: forget_def intro!: quiet_tree tree_ok_forget)

lemma uses_next_count: "uses contents 1 next_count"
proof (rule usesI)
  fix s t :: "('b, 'a) fs" and r :: "'c + u64"
  assume b: "room 1 s" and "next_count s = (r, t)"
  then have "t = s\<lparr>fs_count := fs_count s + 1\<rparr>" by (simp add: next_count_def)
  moreover have "unat (fs_count s + 1) = unat (fs_count s) + 1"
    using b by (simp add: room_def unat_word_ariths)
  ultimately show "quiet contents 1 s t" by (simp add: quiet_def)
qed

lemma uses_aside_name: "uses contents 1 (aside_name name)"
  unfolding aside_name_def by (intro uses_and_then_0 uses_next_count uses_simple)

lemma uses_resolve: "uses contents k (resolve S path)"
proof -
  have "uses contents k (resolve_rounds S n path)" for n
  proof (induction n)
    case 0
    then show ?case by (simp add: uses_same)
  next
    case (Suc n)
    show ?case
    proof (rule usesI)
      fix s r t
      assume b: "room k s" and run: "resolve_rounds S (Suc n) path s = (r, t)"
      show "quiet contents k s t"
      proof (cases "lookup (fs_tree s) path")
        case (NeedListing p)
        obtain x s1 where x: "on_mtp (sv_list S p) s = (x, s1)" by fastforce
        have one: "quiet contents 0 s s1" using usesD [OF uses_on_mtp room_mono [OF b] x] by simp
        show ?thesis
        proof (cases x)
          case (Inl e)
          then show ?thesis using run NeedListing x quiet_mono [OF one] by simp
        next
          case (Inr es)
          let ?s2 = "s1\<lparr>fs_tree := set_children p es (fs_tree s1)\<rparr>"
          have "quiet contents 0 s ?s2"
            using quiet_trans [OF one quiet_tree [OF tree_ok_set_children]] by simp
          moreover from room_quiet [OF this] b have "room k ?s2" by simp
          then have "quiet contents k ?s2 t"
            using usesD [OF Suc, of ?s2 r t] run NeedListing x Inr by simp
          ultimately show ?thesis using quiet_trans [of contents 0 s ?s2 k t] by simp
        qed
      qed (use run in auto)
    qed
  qed
  then show ?thesis unfolding resolve_def uses_def by simp
qed

lemma uses_resolved: "uses contents k (resolved S path)"
  by (rule usesI) (auto simp: resolved_def dest!: usesD [OF uses_resolve] split: prod.splits option.splits)

lemmas uses_intros = uses_0_and_then uses_simple uses_or_fail uses_unwrap_or uses_ignoring
  uses_on_mtp uses_forget uses_resolved

lemma uses_if: "uses contents k m \<Longrightarrow> uses contents k n \<Longrightarrow> uses contents k (if b then m else n)"
  by simp

lemma uses_option:
  "uses contents k n \<Longrightarrow> (\<And>a. uses contents k (f a)) \<Longrightarrow> uses contents k (case x of None \<Rightarrow> n | Some a \<Rightarrow> f a)"
  by (cases x) simp_all

lemma uses_mono: "uses contents i m \<Longrightarrow> i \<le> k \<Longrightarrow> uses contents k m"
  unfolding uses_def using quiet_mono room_mono by blast

section \<open>The requests that only look\<close>

lemma uses_getattr: "uses contents 0 (op_getattr S owner path)"
proof (rule usesI)
  fix s r t
  assume b: "room 0 s" and run: "op_getattr S owner path s = (r, t)"
  let ?f = "\<lambda>handle fs. case (if handle = TREE_ROOT then Some (MODE_DIR, 0, 2)
                 else case tree_get (fs_tree fs) handle of
                     None \<Rightarrow> None
                   | Some e \<Rightarrow> if en_is_dir e then Some (MODE_DIR, 0, 2)
                              else Some (MODE_FILE, unat (en_size e), 1)) of
             None \<Rightarrow> (Inl (- ENOENT), fs)
           | Some (mode, sz, links) \<Rightarrow>
               (Inr \<lparr>st_mode = mode, st_nlink = links, st_size = sz, st_uid = fst owner,
                     st_gid = snd owner, st_blocks = (sz + 511) div 512, st_blksize = 65536\<rparr>, fs)"
  have "uses contents 0 (?f handle)" for handle
    by (rule uses_same) (simp split: option.split)
  then have "uses contents 0 (and_then (resolved S path) ?f)"
    by (intro uses_0_and_then uses_resolved)
  from usesD [OF this b, of r t] show "quiet contents 0 s t"
    using run by (cases "fs_pending s path") (simp_all add: op_getattr_def)
qed

lemma uses_readdir: "uses contents 0 (op_readdir S filler path)"
  unfolding op_readdir_def
proof (intro uses_0_and_then uses_resolved)
  fix handle
  show "uses contents 0 (\<lambda>fs. if is_listed (fs_tree fs) handle then (Inr (), fs)
       else case or_fail EIO (on_mtp (sv_list S handle)) fs of
           (Inl rc, fs') \<Rightarrow> (Inl rc, fs')
         | (Inr es, fs') \<Rightarrow> (Inr (), fs'\<lparr>fs_tree := set_children handle es (fs_tree fs')\<rparr>))"
    by (rule usesI)
       (auto simp: or_fail_def map_err_def on_mtp_def quiet_def tree_ok_set_children
         split: prod.splits sum.splits if_splits)
qed (rule uses_same, simp split: option.split)

lemma uses_statfs: "uses contents 0 (op_statfs S)"
  unfolding op_statfs_def Let_def by (auto intro!: uses_intros split: prod.split)

lemma uses_remove: "uses contents 0 (remove_object S path want_dir)"
  unfolding remove_object_def
proof (intro uses_0_and_then uses_resolved)
  fix handle
  show "uses contents 0 (\<lambda>fs. if handle = TREE_ROOT then (Inl (- EIO), fs)
     else case tree_get (fs_tree fs) handle of
         None \<Rightarrow> (Inl (- ENOENT), fs)
       | Some e \<Rightarrow>
           if en_is_dir e \<noteq> want_dir then (Inl (if want_dir then - ENOTDIR else - EISDIR), fs)
           else and_then (or_fail EIO (on_mtp (sv_delete S handle))) (\<lambda>_. forget (en_parent e)) fs)"
    by (rule usesI)
       (auto dest: usesD [OF uses_and_then_0 [OF uses_or_fail [OF uses_on_mtp] uses_forget]] split: if_splits option.splits)
qed

lemma uses_mkdir: "uses contents 0 (op_mkdir S path)"
  unfolding op_mkdir_def by (auto intro!: uses_intros split: prod.split)

lemma uses_move_aside: "uses contents 1 (move_aside S to handle new_parent new_name)"
proof (rule usesI)
  fix s r t
  assume b: "room 1 s" and run: "move_aside S to handle new_parent new_name s = (r, t)"
  obtain x s1 where x: "resolve S to s = (x, s1)" by fastforce
  have one: "quiet contents 0 s s1" using usesD [OF uses_resolve room_mono [OF b] x] by simp
  have b1: "room 1 s1" using room_quiet [OF one, of 1] b by simp
  have "uses contents 1 (and_then (aside_name new_name) (\<lambda>aside.
           and_then (or_fail EIO (on_mtp (sv_rename S taken aside))) (\<lambda>_.
           and_then (forget new_parent) (\<lambda>_. ok (Some (Some taken))))))" for taken
    by (intro uses_and_then_0 [OF uses_aside_name] uses_intros)
  note step = usesD [OF this b1]
  have "quiet contents 1 s1 t"
  proof (cases x)
    case None
    then show ?thesis using run x by (simp add: move_aside_def)
  next
    case (Some taken)
    consider "taken = handle" | "taken \<noteq> handle" "taken = TREE_ROOT" | "taken \<noteq> handle" "taken \<noteq> TREE_ROOT"
      by blast
    then show ?thesis using run x Some step [of taken r t] by cases (simp_all add: move_aside_def)
  qed
  then show "quiet contents 1 s t" using quiet_trans [OF one] by simp
qed

lemma uses_rename: "uses contents 1 (op_rename S from to)"
proof -
  have move: "uses contents 0 (move_to_folder S handle old_parent new_parent)" for handle old_parent new_parent
    by (rule usesI) (auto simp: move_to_folder_def dest: usesD [OF uses_or_fail [OF uses_on_mtp]] split: if_splits)
  have take: "uses contents 0 (take_name S handle new_parent new_name aside)" for handle new_parent new_name aside
    by (rule usesI) (auto simp: take_name_def on_mtp_def Let_def quiet_def tree_ok_forget
        split: if_splits prod.splits sum.splits option.splits)
  show ?thesis
    unfolding op_rename_def Let_def
    by (intro uses_and_then_0 [OF uses_move_aside] uses_0_and_then uses_if uses_option uses_simple
        uses_resolved move take uses_ignoring uses_on_mtp uses_forget)
qed

section \<open>The open files\<close>

definition entry_ok :: "('h \<Rightarrow> u64 \<Rightarrow> bytes option) \<Rightarrow> ('m, 'h) fs \<Rightarrow> pending \<Rightarrow> bool" where
  "entry_ok contents fs p \<longleftrightarrow> pn_spool p < fs_count fs
     \<and> (\<exists>c. contents (fs_host fs) (pn_spool p) = Some c \<and> (pn_broken p = None \<longrightarrow> length c = pn_size p))"

definition unused :: "pending \<Rightarrow> ('m, 'h) fs \<Rightarrow> bool" where
  "unused p fs \<longleftrightarrow> (\<forall>path q. fs_pending fs path = Some q \<longrightarrow> pn_spool q \<noteq> pn_spool p)"

definition apart :: "(ustring \<rightharpoonup> pending) \<Rightarrow> bool" where
  "apart pend \<longleftrightarrow> (\<forall>path path' p q. pend path = Some p \<longrightarrow> pend path' = Some q \<longrightarrow> path \<noteq> path' \<longrightarrow>
     pn_spool p \<noteq> pn_spool q)"

lemma apart_insert:
  assumes "apart pend" and "\<And>path' q. pend path' = Some q \<Longrightarrow> path' \<noteq> path \<Longrightarrow> pn_spool q \<noteq> pn_spool p"
  shows "apart (pend(path \<mapsto> p))"
  unfolding apart_def
proof (intro allI impI)
  fix a b x y
  assume "(pend(path \<mapsto> p)) a = Some x" "(pend(path \<mapsto> p)) b = Some y" "a \<noteq> b"
  then show "pn_spool x \<noteq> pn_spool y"
    using assms(1) [unfolded apart_def] assms(2) by (metis fun_upd_apply option.inject)
qed

definition mount_ok :: "('h \<Rightarrow> u64 \<Rightarrow> bytes option) \<Rightarrow> ('m, 'h) fs \<Rightarrow> bool" where
  "mount_ok contents fs \<longleftrightarrow> tree_ok (fs_tree fs)
     \<and> (\<forall>path p. fs_pending fs path = Some p \<longrightarrow> entry_ok contents fs p)
     \<and> apart (fs_pending fs) \<and> finite (dom (fs_pending fs))"

lemma mount_ok_new: "mount_ok contents (new_mount m h)"
  by (simp add: mount_ok_def new_mount_def tree_ok_new apart_def)

lemma mount_ok_entry: "mount_ok contents fs \<Longrightarrow> fs_pending fs path = Some p \<Longrightarrow> entry_ok contents fs p"
  by (simp add: mount_ok_def)

lemma entry_ok_quiet: "quiet contents k fs fs' \<Longrightarrow> entry_ok contents fs p \<Longrightarrow> entry_ok contents fs' p"
  by (auto simp: entry_ok_def quiet_def word_less_nat_alt)

lemma unused_quiet: "quiet contents k fs fs' \<Longrightarrow> unused p fs \<Longrightarrow> unused p fs'"
  by (simp add: unused_def quiet_def)

lemma mount_ok_quiet:
  assumes "quiet contents k fs fs'" and "mount_ok contents fs"
  shows "mount_ok contents fs'"
proof -
  have "fs_pending fs' = fs_pending fs" "tree_ok (fs_tree fs) \<longrightarrow> tree_ok (fs_tree fs')"
    using assms(1) by (simp_all add: quiet_def)
  then show ?thesis using assms entry_ok_quiet [OF assms(1)] unfolding mount_ok_def by metis
qed

lemma mount_ok_remove:
  assumes "mount_ok contents fs"
  shows "mount_ok contents (remove_pending path fs)"
    and "fs_pending fs path = Some p \<Longrightarrow> unused p (remove_pending path fs)"
    and "fs_pending fs path = Some p \<Longrightarrow> entry_ok contents (remove_pending path fs) p"
  using assms by (auto simp: mount_ok_def remove_pending_def entry_ok_def unused_def apart_def split: if_splits)

lemma room_remove [simp]: "room k (remove_pending path fs) = room k fs"
  by (simp add: room_def remove_pending_def)

context spool_files
begin

lemma mount_ok_drop:
  assumes "mount_ok contents fs" and "unused p fs"
  shows "mount_ok contents (drop_pending H p fs)"
  using assms by (auto simp: mount_ok_def drop_pending_def entry_ok_def unused_def remove_gone)

lemma drop_fields: "fs_pending (drop_pending H p fs) = fs_pending fs" "fs_count (drop_pending H p fs) = fs_count fs"
  by (simp_all add: drop_pending_def)

lemma mount_ok_insert:
  assumes ok: "mount_ok contents fs" and new: "entry_ok contents fs p" "unused p fs"
  shows "mount_ok contents (insert_pending H path p fs)"
    and "fs_pending (insert_pending H path p fs) = (fs_pending fs)(path \<mapsto> p)"
    and "fs_count (insert_pending H path p fs) = fs_count fs"
proof -
  let ?fs = "fs\<lparr>fs_pending := (fs_pending fs)(path \<mapsto> p)\<rparr>"
  have "apart (fs_pending ?fs)"
    using apart_insert [of "fs_pending fs" path p] ok new(2) by (simp add: mount_ok_def unused_def)
  then have "mount_ok contents ?fs"
    using ok new by (auto simp: mount_ok_def entry_ok_def)
  moreover have "unused old ?fs" if "fs_pending fs path = Some old" for old
  proof -
    have "pn_spool old \<noteq> pn_spool p" using that new(2) by (simp add: unused_def)
    then show ?thesis using that ok by (auto simp: mount_ok_def unused_def apart_def)
  qed
  ultimately show "mount_ok contents (insert_pending H path p fs)"
    by (auto simp: insert_pending_def mount_ok_drop split: option.split)
  show "fs_pending (insert_pending H path p fs) = (fs_pending fs)(path \<mapsto> p)"
    "fs_count (insert_pending H path p fs) = fs_count fs"
    by (auto simp: insert_pending_def drop_fields split: option.split)
qed

text \<open>A change of one open file and of its spool file.\<close>

lemma mount_ok_change:
  assumes ok: "mount_ok contents fs" and p: "fs_pending fs path = Some p" "pn_spool q = pn_spool p"
    and other: "\<And>n. n \<noteq> pn_spool p \<Longrightarrow> contents h n = contents (fs_host fs) n"
    and new: "\<exists>c. contents h (pn_spool p) = Some c \<and> (pn_broken q = None \<longrightarrow> length c = pn_size q)"
  shows "mount_ok contents (fs\<lparr>fs_host := h, fs_pending := (fs_pending fs)(path \<mapsto> q)\<rparr>)"
proof -
  have "pn_spool r \<noteq> pn_spool p" if "fs_pending fs path' = Some r" "path' \<noteq> path" for path' r
    using ok p(1) that by (auto simp: mount_ok_def apart_def)
  moreover from this have "apart ((fs_pending fs)(path \<mapsto> q))"
    using apart_insert [of "fs_pending fs" path q] ok p(2) by (simp add: mount_ok_def)
  ultimately show ?thesis
    using ok p new by (auto simp: mount_ok_def entry_ok_def other)
qed

end

section \<open>Every request keeps the open files\<close>

text \<open>A service that reads the spool file it is given, and touches no other part of the host.\<close>

locale mount = spool_files H contents cursor
  for H :: "'h host" and contents :: "'h \<Rightarrow> u64 \<Rightarrow> bytes option" and cursor :: "'h \<Rightarrow> u64 \<Rightarrow> nat" +
  fixes S :: "('m, 'h) service"
  assumes stream_reads: "sv_send_stream S (ho_read H n) p name len (m, h) = (r, (m', h')) \<Longrightarrow> contents h' = contents h"
begin

lemma uses_host_read:
  assumes "\<And>h x h'. m h = (x, h') \<Longrightarrow> contents h' = contents h"
  shows "uses contents k (on_host m)"
  by (rule usesI) (auto simp: on_host_def quiet_def dest: assms split: prod.splits)

lemma uses_read: "uses contents 0 (op_read S H path sz offset fi)"
proof (rule usesI)
  fix s r t
  assume b: "room 0 s" and run: "op_read S H path sz offset fi s = (r, t)"
  show "quiet contents 0 s t"
  proof (cases "fs_pending s path")
    case (Some p)
    have "uses contents 0 (or_fail EIO (on_host (ho_read_at H (pn_spool p) (min sz (pn_size p - offset)) offset)))"
      by (intro uses_or_fail uses_host_read) (rule read_at_keeps)
    from usesD [OF this b] show ?thesis
      using run Some by (cases "pn_size p \<le> offset") (simp_all add: op_read_def)
  next
    case None
    let ?get = "\<lambda>handle fs. case tree_get (fs_tree fs) handle of
             None \<Rightarrow> (Inl (- ENOENT), fs)
           | Some e \<Rightarrow>
               let file_size = unat (en_size e) in
               if file_size \<le> offset then (Inr [], fs)
               else
                 and_then (or_fail EIO (on_mtp
                   (sv_read_at S handle offset (min sz (file_size - offset)) file_size))) (\<lambda>data.
                 ok (take (min (length data) sz) data)) fs"
    have get: "uses contents 0 (?get handle)" for handle
      by (rule usesI)
         (auto simp: Let_def dest: usesD [OF uses_0_and_then [OF uses_or_fail [OF uses_on_mtp] uses_simple(1)]]
           split: option.splits if_splits)
    have "uses contents 0 (and_then (case fi of
                     Some fh \<Rightarrow> if fh_handle fh \<noteq> 0 then ok (fh_handle fh) else resolved S path
                   | None \<Rightarrow> resolved S path) ?get)"
      by (intro uses_0_and_then uses_option uses_if uses_simple uses_resolved get)
    from usesD [OF this b] show ?thesis using run None by (simp add: op_read_def)
  qed
qed

lemma uses_device_free: "uses contents 0 (device_free S)"
  unfolding device_free_def by (auto intro!: uses_intros)

lemma uses_make_room: "uses contents 1 (make_room S p)"
proof (cases "pn_replaces p")
  case None
  then show ?thesis by (simp add: make_room_def uses_simple del: ok_apply)
next
  case (Some old)
  have "uses contents 1 (and_then (device_free S) (\<lambda>free.
            if pn_size p \<le> free then
              and_then (aside_name (pn_name p)) (\<lambda>aside.
              and_then (or_fail EIO (on_mtp (sv_rename S old aside))) (\<lambda>_. ok (p, True)))
            else if pn_size p \<le> min u64_max (free + old_size) then
              and_then (or_fail EIO (on_mtp (sv_delete S old))) (\<lambda>_.
              ok (p\<lparr>pn_replaces := None\<rparr>, False))
            else err (- ENOSPC)))" for old_size
    by (intro uses_0_and_then [OF uses_device_free] uses_if uses_and_then_0 [OF uses_aside_name]
        uses_0_and_then uses_or_fail uses_on_mtp uses_simple)
  note step = usesD [OF this]
  show ?thesis by (rule usesI, rule step) (simp_all add: make_room_def Some Let_def)
qed

lemma make_room_entry:
  "make_room S p fs = (Inr (p', ex), fs') \<Longrightarrow>
     pn_spool p' = pn_spool p \<and> pn_size p' = pn_size p \<and> pn_broken p' = pn_broken p"
  by (auto simp: make_room_def Let_def and_then_Inr_iff split: option.splits if_splits)

lemma quiet_stream: "stream_spool S H p s = (r, t) \<Longrightarrow> quiet contents k s t"
  by (auto simp: stream_spool_def quiet_def dest: stream_reads split: prod.splits)

lemma quiet_finish: "finish_send S p ex answer s = (r, t) \<Longrightarrow> quiet contents 0 s t"
  by (cases "on_mtp (sv_delete S (the (pn_replaces p))) s"; cases "on_mtp (sv_rename S (the (pn_replaces p)) (pn_name p)) s")
     (auto simp: finish_send_def Let_def on_mtp_def quiet_def tree_ok_forget split: sum.splits option.splits prod.splits)

lemma finish_entry:
  "finish_send S p ex answer s = ((rc, p'), t) \<Longrightarrow>
     pn_spool p' = pn_spool p \<and> pn_size p' = pn_size p \<and> pn_broken p' = pn_broken p"
  by (auto simp: finish_send_def Let_def split: sum.splits)

lemma send_pending_quiet:
  assumes b: "room 1 fs" and run: "send_pending S H p fs = ((rc, p'), fs')"
  shows "quiet contents 1 fs fs'"
    and "pn_spool p' = pn_spool p" "pn_size p' = pn_size p" "pn_broken p' = pn_broken p"
proof -
  obtain x fs1 where x: "or_fail EIO (on_host (ho_rewind H (pn_spool p))) fs = (x, fs1)" by fastforce
  have "uses contents 0 (or_fail EIO (on_host (ho_rewind H (pn_spool p))))"
    by (intro uses_or_fail uses_host_read) (rule rewind_keeps)
  from usesD [OF this room_mono [OF b] x] have one: "quiet contents 0 fs fs1" by simp
  obtain y fs2 where y: "make_room S p fs1 = (y, fs2)" by fastforce
  have two: "quiet contents 1 fs1 fs2" using usesD [OF uses_make_room _ y] room_quiet [OF one, of 1] b by simp
  have early: "quiet contents 1 fs fs1" "quiet contents 1 fs fs2"
    using quiet_mono [OF one] quiet_trans [OF one two] by simp_all
  have "quiet contents 1 fs fs' \<and> pn_spool p' = pn_spool p \<and> pn_size p' = pn_size p \<and> pn_broken p' = pn_broken p"
  proof (cases "pn_broken p = None \<and> (\<exists>u. x = Inr u) \<and> (\<exists>q. y = Inr q)")
    case False
    then show ?thesis
      using run x y early by (auto simp: send_pending_def split: option.splits sum.splits)
  next
    case True
    then obtain u p1 ex where xy: "x = Inr u" "y = Inr (p1, ex)" by auto
    obtain a fs3 where a: "stream_spool S H p1 fs2 = (a, fs3)" by fastforce
    have fin: "finish_send S p1 ex a fs3 = ((rc, p'), fs')"
      using run True x y xy a by (simp add: send_pending_def)
    have "quiet contents (1 + 0) fs fs'"
      using quiet_trans [OF early(2) quiet_trans [OF quiet_stream [OF a, of 0] quiet_finish [OF fin]]] by simp
    then show ?thesis using finish_entry [OF fin] make_room_entry [of p fs1 p1 ex fs2] y xy by simp
  qed
  then show "quiet contents 1 fs fs'" "pn_spool p' = pn_spool p" "pn_size p' = pn_size p" "pn_broken p' = pn_broken p"
    by blast+
qed

text \<open>A send of an entry that was taken out of the map.\<close>

lemma send_removed:
  assumes ok: "mount_ok contents fs" and p: "fs_pending fs path = Some p" and b: "room 1 fs"
    and run: "send_pending S H q (remove_pending path fs) = ((rc, p'), fs')"
    and q: "pn_spool q = pn_spool p" "pn_size q = pn_size p" "pn_broken q = pn_broken p"
  shows "mount_ok contents fs'" and "entry_ok contents fs' p'" and "unused p' fs'"
    and "fs_pending fs' = fs_pending (remove_pending path fs)"
proof -
  have b': "room 1 (remove_pending path fs)" using b by simp
  note s = send_pending_quiet [OF b' run]
  note r = mount_ok_remove [OF ok]
  show "mount_ok contents fs'" by (rule mount_ok_quiet [OF s(1) r(1)])
  show "entry_ok contents fs' p'"
    using entry_ok_quiet [OF s(1) r(3) [OF p]] s(2-4) q by (simp add: entry_ok_def)
  show "unused p' fs'"
    using unused_quiet [OF s(1) r(2) [OF p]] s(2) q(1) by (simp add: unused_def)
  show "fs_pending fs' = fs_pending (remove_pending path fs)" using s(1) by (simp add: quiet_def)
qed

lemma flush_ok:
  assumes "mount_ok contents fs" and "room 1 fs"
  shows "mount_ok contents (snd (op_flush S H path fi fs))"
proof (cases "fh_writes fi \<and> fs_pending fs path \<noteq> None")
  case False
  then show ?thesis using assms(1) by (auto simp: op_flush_def)
next
  case True
  then obtain p where p: "fs_pending fs path = Some p" by auto
  note r = mount_ok_remove [OF assms(1), of path]
  show ?thesis
  proof (cases "pn_sent p")
    case (Some earlier)
    then show ?thesis
      using True p mount_ok_insert(1) [OF r(1) r(3) [OF p] r(2) [OF p]] by (simp add: op_flush_def)
  next
    case None
    obtain rc p' fs' where run: "send_pending S H p (remove_pending path fs) = ((rc, p'), fs')"
      by (metis prod.exhaust)
    note s = send_removed [OF assms(1) p assms(2) run refl refl refl]
    have "entry_ok contents fs' (p'\<lparr>pn_sent := Some rc\<rparr>)" "unused (p'\<lparr>pn_sent := Some rc\<rparr>) fs'"
      using s(2,3) by (simp_all add: entry_ok_def unused_def)
    from mount_ok_insert(1) [OF s(1) this] show ?thesis
      using True p None run by (simp add: op_flush_def)
  qed
qed

lemma release_ok:
  assumes "mount_ok contents fs" and "room 1 fs"
  shows "mount_ok contents (snd (op_release S H path fi fs))"
proof (cases "fh_writes fi \<and> fs_pending fs path \<noteq> None")
  case False
  then show ?thesis using assms(1) by (auto simp: op_release_def)
next
  case True
  then obtain p where p: "fs_pending fs path = Some p" by auto
  note r = mount_ok_remove [OF assms(1), of path]
  show ?thesis
  proof (cases "pn_sent p")
    case (Some earlier)
    then show ?thesis
      using True p mount_ok_drop [OF r(1) r(2) [OF p]] by (simp add: op_release_def)
  next
    case None
    obtain rc p' fs' where run: "send_pending S H p (remove_pending path fs) = ((rc, p'), fs')"
      by (metis prod.exhaust)
    note s = send_removed [OF assms(1) p assms(2) run refl refl refl]
    from mount_ok_drop [OF s(1,3)] show ?thesis
      using True p None run by (simp add: op_release_def)
  qed
qed

lemma write_ok:
  assumes ok: "mount_ok contents fs" and bs: "bs \<noteq> []"
  shows "mount_ok contents (snd (op_write H path bs off fs))"
proof (cases "fs_pending fs path")
  case None
  then show ?thesis using ok by (simp add: op_write_def)
next
  case (Some p)
  obtain c where c: "contents (fs_host fs) (pn_spool p) = Some c" "pn_broken p = None \<longrightarrow> length c = pn_size p"
    using mount_ok_entry [OF ok Some] by (auto simp: entry_ok_def)
  obtain x h where x: "write_loop H (pn_spool p) bs off 0 (fs_host fs) = (x, h)" by fastforce
  have other: "n \<noteq> pn_spool p \<Longrightarrow> contents h n = contents (fs_host fs) n" for n
    using write_loop_other [OF x] by blast
  obtain c' where c': "contents h (pn_spool p) = Some c'" using write_loop_other [OF x] c(1) by blast
  show ?thesis
  proof (cases "x = Inr (length bs)")
    case True
    then have "contents h (pn_spool p) = Some (overwrite off bs c)"
      using write_loop_all [OF c(1)] x by simp
    moreover have "pn_broken p = None \<Longrightarrow> length (overwrite off bs c) = max (pn_size p) (off + length bs)"
      using bs c(2) by (auto simp: overwrite_def)
    ultimately have "mount_ok contents (fs\<lparr>fs_host := h, fs_pending := (fs_pending fs)(path \<mapsto>
        (if off + length bs > pn_size p then p\<lparr>pn_size := off + length bs\<rparr> else p))\<rparr>)"
      by (intro mount_ok_change [OF ok Some]) (auto simp: other max_def)
    then show ?thesis using Some x True by (simp add: op_write_def Let_def)
  next
    case False
    have "mount_ok contents (fs\<lparr>fs_host := h, fs_pending := (fs_pending fs)(path \<mapsto> p\<lparr>pn_broken := Some rc\<rparr>)\<rparr>)" for rc
      by (intro mount_ok_change [OF ok Some]) (auto simp: other c')
    moreover have "n < length bs" if "x = Inr n" for n
      using write_loop_writes [OF c(1) _ x [unfolded that]] False that by simp
    ultimately show ?thesis using Some x by (cases x) (auto simp: op_write_def break_pending_def Let_def)
  qed
qed

text \<open>A spool file that is new: nobody else writes it.\<close>

lemma make_spool_new:
  assumes b: "room 1 fs" and run: "make_spool H fs = (r, fs')"
  shows "quiet contents 1 fs fs'"
    and "r = Inr n \<Longrightarrow> n = fs_count fs \<and> contents (fs_host fs') n = Some [] \<and> cursor (fs_host fs') n = 0
      \<and> fs_count fs' = fs_count fs + 1"
proof -
  obtain x h where x: "ho_create H (fs_count fs) (fs_host fs) = (x, h)" by fastforce
  have fs': "fs' = fs\<lparr>fs_count := fs_count fs + 1, fs_host := h\<rparr>"
    using run x by (cases x) (auto simp: make_spool_def and_then_def next_count_def on_host_def)
  have "unat (fs_count fs + 1) = unat (fs_count fs) + 1" using b by (simp add: room_def unat_word_ariths)
  moreover have "m < fs_count fs \<Longrightarrow> contents h m = contents (fs_host fs) m" for m
    using create_other [OF x] by (metis less_irrefl)
  ultimately show "quiet contents 1 fs fs'" by (simp add: quiet_def fs')
  show "r = Inr n \<Longrightarrow> n = fs_count fs \<and> contents (fs_host fs') n = Some [] \<and> cursor (fs_host fs') n = 0
      \<and> fs_count fs' = fs_count fs + 1"
    using run x create_new [of "fs_count fs" "fs_host fs"]
    by (cases x) (auto simp: make_spool_def and_then_def next_count_def on_host_def)
qed

lemma new_is_unused: "mount_ok contents fs \<Longrightarrow> fs_count fs \<le> pn_spool p \<Longrightarrow> unused p fs"
  by (fastforce simp: mount_ok_def entry_ok_def unused_def)

definition fills :: "u64 \<Rightarrow> ('m, 'h) fs \<Rightarrow> ('m, 'h) fs \<Rightarrow> bool" where
  "fills n fs fs' \<longleftrightarrow> fs_pending fs' = fs_pending fs \<and> fs_tree fs' = fs_tree fs \<and> fs_count fs' = fs_count fs
     \<and> (\<forall>m. m \<noteq> n \<longrightarrow> contents (fs_host fs') m = contents (fs_host fs) m)"

lemma copy_loop_fills:
  assumes "copy_loop S H handle sz n at fs = (r, fs')" and "contents (fs_host fs) n = Some c"
    and "length c = at" and "cursor (fs_host fs) n = at"
  shows "fills n fs fs' \<and> (\<forall>k. r = Inr k \<longrightarrow> (\<exists>c'. contents (fs_host fs') n = Some c' \<and> length c' = k))"
  using assms
proof (induction "sz - at" arbitrary: at fs c rule: less_induct)
  case less
  note unfold = copy_loop.simps [of S H handle sz n at fs]
  show ?case
  proof (cases "sz \<le> at")
    case True
    then show ?thesis using less.prems unfold by (auto simp: fills_def)
  next
    case False
    obtain x fs1 where x: "on_mtp (sv_read_at S handle at (min READ_CHUNK (sz - at)) sz) fs = (x, fs1)" by fastforce
    then have fs1: "fs_host fs1 = fs_host fs" "fills n fs fs1"
      by (auto simp: on_mtp_def fills_def split: prod.splits)
    show ?thesis
    proof (cases "\<exists>data. x = Inr data \<and> data \<noteq> []")
      case no: False
      then show ?thesis using less.prems unfold False x fs1 by (cases x) auto
    next
      case True
      then obtain data where data: "x = Inr data" "data \<noteq> []" by blast
      obtain y h where y: "ho_write_all H n data (fs_host fs) = (y, h)" by fastforce
      let ?fs2 = "fs1\<lparr>fs_host := h\<rparr>"
      have run2: "on_host (ho_write_all H n data) fs1 = (y, ?fs2)" using y fs1(1) by (simp add: on_host_def)
      have f2: "fills n fs ?fs2" using fs1(2) write_all_other [OF y] by (auto simp: fills_def)
      show ?thesis
      proof (cases y)
        case (Inl e)
        then show ?thesis using less.prems unfold False x data run2 f2 by auto
      next
        case (Inr u)
        have "contents h = (contents (fs_host fs))(n \<mapsto> c @ data)" "cursor h n = length (c @ data)"
          using write_all_end [of n data "fs_host fs" u h c] y Inr less.prems by simp_all
        moreover have "copy_loop S H handle sz n (at + length data) ?fs2 = (r, fs')"
          using less.prems(1) unfold False x data run2 Inr by simp
        moreover have "sz - (at + length data) < sz - at" using bytes_left [OF data(2)] False by simp
        ultimately have "fills n ?fs2 fs' \<and> (\<forall>k. r = Inr k \<longrightarrow> (\<exists>c'. contents (fs_host fs') n = Some c' \<and> length c' = k))"
          using less.hyps [of "at + length data" ?fs2 "c @ data"] less.prems(3) by simp
        then show ?thesis using f2 by (auto simp: fills_def)
      qed
    qed
  qed
qed

text \<open>An object a program writes over: the count grows by one, and a new entry has its own file.\<close>

lemma adopt_ok:
  assumes ok: "mount_ok contents fs" and b: "room 1 fs"
    and run: "adopt_for_write S H path handle entry keep fs = (r, fs')"
  shows "mount_ok contents fs'" and "unat (fs_count fs') \<le> unat (fs_count fs) + 1"
proof -
  let ?p = "\<lambda>n sz. \<lparr>pn_parent = en_parent entry, pn_name = en_name entry, pn_spool = n, pn_size = sz,
          pn_sent = None, pn_replaces = Some handle, pn_broken = None, pn_keep_spool = False\<rparr>"
  obtain x fs1 where x: "make_spool H fs = (x, fs1)" by fastforce
  note n = make_spool_new [OF b x]
  have ok1: "mount_ok contents fs1" using mount_ok_quiet [OF n(1) ok] .
  have c1: "unat (fs_count fs1) \<le> unat (fs_count fs) + 1" using n(1) by (simp add: quiet_def)
  have "mount_ok contents fs' \<and> unat (fs_count fs') \<le> unat (fs_count fs) + 1"
  proof (cases "\<exists>k. x = Inr k")
    case False
    then obtain e where "x = Inl e" by (cases x) auto
    then have "fs' = fs1 \<or> fs' = fs"
      using run x by (auto simp: adopt_for_write_def or_fail_def map_err_def and_then_def split: if_splits)
    then show ?thesis using ok ok1 c1 by auto
  next
    case True
    then obtain k where k: "x = Inr k" by blast
    note new = n(2) [OF k]
    let ?copy = "if keep \<and> 0 < en_size entry then copy_object_to_spool S H handle (unat (en_size entry)) k else ok 0"
    obtain y fs2 where y: "?copy fs1 = (y, fs2)" by fastforce
    have fill: "fills k fs1 fs2 \<and> (\<forall>sz. y = Inr sz \<longrightarrow> (\<exists>c'. contents (fs_host fs2) k = Some c' \<and> length c' = sz))"
      using copy_loop_fills [of handle "unat (en_size entry)" k 0 fs1 y fs2 "[]"] y new
      by (auto simp: copy_object_to_spool_def fills_def split: if_splits)
    have free: "unused (?p k sz) fs1" for sz
      using new_is_unused [OF ok, of "?p k sz"] unused_quiet [OF n(1)] new by simp
    have ok2: "mount_ok contents fs2"
    proof -
      have "pn_spool q \<noteq> k" if "fs_pending fs1 path' = Some q" for path' q
        using free [of 0] that by (auto simp: unused_def)
      then show ?thesis
        using ok1 fill by (simp add: mount_ok_def fills_def entry_ok_def)
    qed
    have free2: "unused (?p k sz) fs2" for sz using free fill by (simp add: unused_def fills_def)
    have cnt: "fs_count fs2 = fs_count fs1" using fill by (simp add: fills_def)
    have k_less: "k < fs_count fs2"
      using new b by (simp add: cnt room_def word_less_nat_alt unat_word_ariths)
    have "fs' = fs \<or> fs' = fs2 \<or> (\<exists>sz. y = Inr sz \<and> fs' = insert_pending H path (?p k sz) fs2)"
      using run x k y by (cases y)
        (auto simp: adopt_for_write_def or_fail_def map_err_def and_then_def modify_def split: if_splits)
    then show ?thesis
    proof (elim disjE exE conjE)
      fix sz
      assume sz: "y = Inr sz" "fs' = insert_pending H path (?p k sz) fs2"
      have "entry_ok contents fs2 (?p k sz)" using fill sz(1) k_less by (auto simp: entry_ok_def)
      then show ?thesis using mount_ok_insert [OF ok2 _ free2] sz(2) c1 cnt by simp
    qed (use ok ok2 c1 cnt in auto)
  qed
  then show "mount_ok contents fs'" "unat (fs_count fs') \<le> unat (fs_count fs) + 1" by blast+
qed

lemma quiet_state: "quiet contents 0 fs fs' \<Longrightarrow> mount_ok contents fs \<Longrightarrow> room k fs \<Longrightarrow>
  mount_ok contents fs' \<and> room k fs' \<and> fs_pending fs' = fs_pending fs"
  using mount_ok_quiet [of contents 0 fs fs'] room_quiet [of contents 0 fs fs' k] by (simp add: quiet_def [of contents 0 fs fs'])

lemma open_ok:
  assumes ok: "mount_ok contents fs" and b: "room 1 fs"
  shows "mount_ok contents (snd (op_open S H path fi fs))"
proof -
  obtain x fs1 where x: "resolved S path fs = (x, fs1)" by fastforce
  have q: "mount_ok contents fs1" "room 1 fs1"
    using quiet_state [OF usesD [OF uses_resolved room_mono [OF b] x] ok b] by simp_all
  have fe: "file_entry h s = (y, s') \<Longrightarrow> s' = s" for h s s' y
    by (auto simp: file_entry_def split: option.splits if_splits)
  show ?thesis
  proof (cases "\<exists>h e. x = Inr h \<and> fst (file_entry h fs1) = Inr e")
    case False
    then show ?thesis
      using x q fe by (cases x) (auto simp: op_open_def Let_def and_then_def split: prod.split sum.split dest: fe)
  next
    case True
    then obtain h e where he: "x = Inr h" "file_entry h fs1 = (Inr e, fs1)"
      using fe by (metis prod.collapse)
    then show ?thesis
      using x q adopt_ok(1) [OF q]
      by (auto simp: op_open_def Let_def and_then_def split: prod.split sum.split)
  qed
qed

lemma create_ok:
  assumes ok: "mount_ok contents fs" and b: "room 1 fs"
  shows "mount_ok contents (snd (op_create S H path fi fs))"
proof (cases "split_parent path")
  case (Pair dir name)
  obtain x fs1 where x: "resolved S dir fs = (x, fs1)" by fastforce
  have q: "mount_ok contents fs1" "room 1 fs1"
    using quiet_state [OF usesD [OF uses_resolved room_mono [OF b] x] ok b] by simp_all
  obtain y fs2 where y: "make_spool H fs1 = (y, fs2)" by fastforce
  note n = make_spool_new [OF q(2) y]
  have ok2: "mount_ok contents fs2" by (rule mount_ok_quiet [OF n(1) q(1)])
  show ?thesis
  proof (cases "name \<noteq> [] \<and> (\<exists>p k. x = Inr p \<and> y = Inr k)")
    case False
    then show ?thesis
      using Pair ok q ok2 x y by (cases x; cases y)
        (auto simp: op_create_def and_then_def or_fail_def map_err_def)
  next
    case True
    then obtain p k where pk: "x = Inr p" "y = Inr k" by blast
    let ?p = "\<lparr>pn_parent = p, pn_name = name, pn_spool = k, pn_size = 0, pn_sent = None,
             pn_replaces = None, pn_broken = None, pn_keep_spool = False\<rparr>"
    have "unused ?p fs2" using new_is_unused [OF q(1), of ?p] unused_quiet [OF n(1)] n(2) [OF pk(2)] by simp
    moreover have "entry_ok contents fs2 ?p"
      using n(2) [OF pk(2)] q(2) by (auto simp: entry_ok_def room_def word_less_nat_alt unat_word_ariths)
    ultimately show ?thesis
      using mount_ok_insert(1) [OF ok2] Pair True x y pk
      by (auto simp: op_create_def and_then_def or_fail_def map_err_def modify_def)
  qed
qed

lemma set_len_ok:
  assumes ok: "mount_ok contents fs" and p: "fs_pending fs path = Some p"
    and run: "set_pending_len H path p sz fs = (r, fs')"
  shows "mount_ok contents fs'" and "fs_count fs' = fs_count fs"
    and "r = Inr u \<Longrightarrow> fs_pending fs' path = Some (p\<lparr>pn_size := sz\<rparr>)"
proof -
  obtain x h where x: "ho_set_len H (pn_spool p) sz (fs_host fs) = (x, h)" by fastforce
  obtain c where c: "contents (fs_host fs) (pn_spool p) = Some c" "pn_broken p = None \<longrightarrow> length c = pn_size p"
    using mount_ok_entry [OF ok p] by (auto simp: entry_ok_def)
  have other: "n \<noteq> pn_spool p \<Longrightarrow> contents h n = contents (fs_host fs) n" for n
    using set_len_other [OF x] by blast
  show "fs_count fs' = fs_count fs" "r = Inr u \<Longrightarrow> fs_pending fs' path = Some (p\<lparr>pn_size := sz\<rparr>)"
    using run x by (cases x; auto simp: set_pending_len_def or_fail_def map_err_def and_then_def on_host_def)+
  show "mount_ok contents fs'"
  proof (cases x)
    case (Inl e)
    then have "fs' = fs\<lparr>fs_host := h\<rparr>"
      using run x by (simp add: set_pending_len_def or_fail_def map_err_def and_then_def on_host_def)
    then show ?thesis
      using ok set_len_fault x Inl by (auto simp: mount_ok_def entry_ok_def)
  next
    case (Inr v)
    then have "contents h (pn_spool p) = Some (take sz c @ replicate (sz - length c) 0)"
      using set_len_cut c(1) x by simp
    then have "mount_ok contents (fs\<lparr>fs_host := h, fs_pending := (fs_pending fs)(path \<mapsto> p\<lparr>pn_size := sz\<rparr>)\<rparr>)"
      by (intro mount_ok_change [OF ok p]) (auto simp: other)
    then show ?thesis
      using run x Inr by (auto simp: set_pending_len_def or_fail_def map_err_def and_then_def on_host_def)
  qed
qed

lemma truncate_ok:
  assumes ok: "mount_ok contents fs" and b: "room 2 fs"
  shows "mount_ok contents (snd (op_truncate S H path sz fs))"
proof (cases "fs_pending fs path")
  case (Some p)
  obtain r fs' where "set_pending_len H path p sz fs = (r, fs')" by fastforce
  then show ?thesis
    using set_len_ok(1) [OF ok Some] Some by (cases r) (auto simp: op_truncate_def)
next
  case None
  obtain x fs1 where x: "resolved S path fs = (x, fs1)" by fastforce
  have q: "mount_ok contents fs1" "room 2 fs1"
    using quiet_state [OF usesD [OF uses_resolved room_mono [OF b] x] ok b] by simp_all
  let ?adopt = "and_then (resolved S path) (\<lambda>handle. and_then (file_entry handle) (\<lambda>entry.
      adopt_for_write S H path handle entry (0 < sz)))"
  obtain y fs2 where y: "?adopt fs = (y, fs2)" by fastforce
  have fe: "file_entry h s = (z, s') \<Longrightarrow> s' = s" for h s s' z
    by (auto simp: file_entry_def split: option.splits if_splits)
  have "mount_ok contents fs2 \<and> room 1 fs2"
  proof (cases "\<exists>h e. x = Inr h \<and> fst (file_entry h fs1) = Inr e")
    case False
    then have "fs2 = fs1"
      using x y by (cases x) (auto simp: and_then_def split: prod.splits sum.splits dest: fe)
    then show ?thesis using q room_mono [OF q(2), of 1] by simp
  next
    case True
    then obtain h e where he: "x = Inr h" "file_entry h fs1 = (Inr e, fs1)"
      using fe by (metis prod.collapse)
    then have "adopt_for_write S H path h e (0 < sz) fs1 = (y, fs2)"
      using x y by simp
    from adopt_ok [OF q(1) room_mono [OF q(2)] this] show ?thesis
      using q(2) by (simp add: room_def)
  qed
  then have two: "mount_ok contents fs2" "room 1 fs2" by blast+
  show ?thesis
  proof (cases "\<exists>u p. y = Inr u \<and> fs_pending fs2 path = Some p")
    case False
    then show ?thesis using None y two by (cases y) (auto simp: op_truncate_def split: option.split)
  next
    case True
    then obtain u p where p: "y = Inr u" "fs_pending fs2 path = Some p" by blast
    obtain r fs3 where r: "set_pending_len H path p sz fs2 = (r, fs3)" by fastforce
    note three = set_len_ok [OF two(1) p(2) r]
    show ?thesis
    proof (cases r)
      case (Inl e)
      then show ?thesis using None y p r three(1) by (simp add: op_truncate_def)
    next
      case (Inr v)
      obtain rc p' fs4 where run: "send_pending S H (p\<lparr>pn_size := sz\<rparr>) (remove_pending path fs3) = ((rc, p'), fs4)"
        by (metis prod.exhaust)
      have "room 1 fs3" using two(2) three(2) by (simp add: room_def)
      note s = send_removed [OF three(1) three(3) [OF Inr] this run refl refl refl]
      show ?thesis using mount_ok_drop [OF s(1,3)] None y p r Inr run by (simp add: op_truncate_def)
    qed
  qed
qed

lemma serve_ok:
  assumes ok: "mount_ok contents fs" and b: "room 2 fs"
    and call: "\<forall>path offset. call \<noteq> CallWrite path [] offset"
  shows "mount_ok contents (serve S H call fs)"
proof -
  have one: "room 1 fs" using room_mono [OF b] by simp
  have look: "mount_ok contents (snd (m fs))" if "uses contents k m" "k \<le> 2" for k and m :: "('m, 'h) fs \<Rightarrow> 'x \<times> ('m, 'h) fs"
    using mount_ok_quiet [OF usesD [OF that(1) room_mono [OF b that(2)] prod.collapse [symmetric]] ok] .
  show ?thesis
  proof (cases call)
    case (CallWrite path bs offset)
    then show ?thesis using write_ok [OF ok] call by auto
  next
    case CallStatfs
    then show ?thesis using look [OF uses_statfs] by simp
  qed (simp_all add: open_ok [OF ok one] create_ok [OF ok one] flush_ok [OF ok one] release_ok [OF ok one]
      truncate_ok [OF ok b] look [OF uses_getattr] look [OF uses_readdir] look [OF uses_read]
      look [OF uses_remove] op_unlink_def op_rmdir_def look [OF uses_mkdir] look [OF uses_rename]
      op_utimens_def op_chmod_def op_chown_def ok)
qed

lemma reachable_mount_ok: "reachable_mount S H fs \<Longrightarrow> mount_ok contents fs"
  by (induction rule: reachable_mount.induct) (auto intro: serve_ok mount_ok_new)

end

section \<open>The service of the program reads the spool file alone\<close>

lemma read_exact_loop_keeps:
  assumes "read_exact_loop R len filled r = Some y" and "\<And>n r x r'. R n r = (x, r') \<Longrightarrow> f r' = f r"
  shows "f (snd y) = f r"
proof -
  have "(\<forall>n r x r'. R n r = (x, r') \<longrightarrow> f r' = f r) \<longrightarrow> f (snd y) = f r"
  proof (rule read_exact_loop.raw_induct [where P = "\<lambda>R len filled r y. (\<forall>n r x r'. R n r = (x, r') \<longrightarrow> f r' = f r) \<longrightarrow> f (snd y) = f r", OF _ assms(1)], intro impI)
    fix loop and R :: "'a io_reader" and len filled r y
    assume IH: "\<And>len filled r b y. loop len filled r b = Some y \<Longrightarrow>
        (\<forall>n r x r'. len n r = (x, r') \<longrightarrow> f r' = f r) \<longrightarrow> f (snd y) = f b"
      and R: "\<forall>n r x r'. R n r = (x, r') \<longrightarrow> f r' = f r"
      and run: "(if len \<le> length filled then Some (Inr filled, r)
      else case R (len - length filled) r of
           (ReadBytes bs, r') \<Rightarrow>
             if bs = [] then Some (Inl (length filled, None), r')
             else loop R len (filled @ bs) r'
           | (ReadInterrupted, r') \<Rightarrow> loop R len filled r'
           | (ReadFault e, r') \<Rightarrow> Some (Inl (length filled, Some e), r')) = Some y"
    obtain x r' where x: "R (len - length filled) r = (x, r')" by fastforce
    have "f r' = f r" using R x by blast
    moreover have "loop R len g r' = Some y \<Longrightarrow> f (snd y) = f r'" for g using IH R by blast
    ultimately show "f (snd y) = f r"
      using run x by (cases x) (auto split: if_splits)
  qed
  then show ?thesis using assms(2) by blast
qed

definition same_rest :: "('r \<Rightarrow> 'x) \<Rightarrow> 's \<times> 'r \<Rightarrow> 's \<times> 'r \<Rightarrow> bool" where
  "same_rest f s s' \<longleftrightarrow> f (snd s') = f (snd s)"

interpretation rest: step_order "same_rest f"
  by unfold_locales (auto simp: same_rest_def)

lemma rest_on_fst: "keeps (same_rest f) (on_fst m)"
  by (auto simp: keeps_def same_rest_def on_fst_def split: prod.splits)

lemma rest_read_exact:
  assumes "\<And>n r x r'. R n r = (x, r') \<Longrightarrow> f r' = f r"
  shows "keeps (same_rest f) (on_snd (read_exact_or_short R len step))"
proof (rule keepsI)
  fix s x t
  assume run: "on_snd (read_exact_or_short R len step) s = (x, t)"
  have "f (snd y) = f (snd s)" if "read_exact_loop R len [] (snd s) = Some y" for y
    using read_exact_loop_keeps [OF that assms] .
  then show "same_rest f s t"
    using run
    by (cases "read_exact_loop R len [] (snd s)")
       (auto simp: on_snd_def same_rest_def read_exact_or_short_def split: prod.splits sum.splits)
qed

lemma rest_sending:
  assumes "\<And>n r x r'. R n r = (x, r') \<Longrightarrow> f r' = f r"
  shows "keeps (same_rest f) (operation_sending T R step code ps sz)"
proof -
  have "keeps (same_rest f) (send_rounds T R step chunk sz k sent)" for chunk k sent
    by (induction k arbitrary: sent)
       (auto simp: Let_def simp del: ok_apply intro!: rest.keeps_intros rest_on_fst rest_read_exact assms)
  then show ?thesis
    unfolding operation_sending_def Let_def
    by (auto simp del: ok_apply intro!: rest.keeps_intros rest_on_fst rest_read_exact assms)
qed

lemma rest_stream:
  assumes "\<And>n r x r'. R n r = (x, r') \<Longrightarrow> f r' = f r"
  shows "keeps (same_rest f) (send_object_stream T R parent name sz)"
proof -
  have "keeps (same_rest f) (\<lambda>(t, r).
          case operation_sending T R step code ps sz (mt_session t, r) of
            (Inl e, (s', r')) \<Rightarrow> (Inl (BeSession e), (t\<lparr>mt_session := s'\<rparr>, r'))
          | (Inr out, (s', r')) \<Rightarrow> (Inr out, (t\<lparr>mt_session := s'\<rparr>, r')))" for step code ps
  proof (rule keepsI, clarify)
    fix t r x u r'
    assume run: "(case operation_sending T R step code ps sz (mt_session t, r) of
            (Inl e, (s', r')) \<Rightarrow> (Inl (BeSession e), (t\<lparr>mt_session := s'\<rparr>, r'))
          | (Inr out, (s', r')) \<Rightarrow> (Inr out, (t\<lparr>mt_session := s'\<rparr>, r'))) = (x, (u, r'))"
    obtain y s1 r1 where y: "operation_sending T R step code ps sz (mt_session t, r) = (y, (s1, r1))"
      by (metis prod.exhaust)
    have "keeps (same_rest f) (operation_sending T R step code ps sz)" by (rule rest_sending) (rule assms)
    from keepsD [OF this y] show "same_rest f (t, r) (u, r')"
      using run y by (cases y) (auto simp: same_rest_def)
  qed
  then show ?thesis
    unfolding send_object_stream_def Let_def
    by (auto simp del: ok_apply intro!: rest.keeps_intros rest_on_fst)
qed

interpretation device_mount: mount disk_host disk_contents disk_cursor "mtp_service T"
proof unfold_locales
  fix n p name len m h r m' h'
  assume "sv_send_stream (mtp_service T) (ho_read disk_host n) p name len (m, h) = (r, (m', h'))"
  then have "send_object_stream T (ho_read disk_host n) p name len (m, h) = (r, (m', h'))"
    by (simp add: mtp_service_def)
  from keepsD [OF rest_stream [OF spools.read_keeps] this]
  show "disk_contents h' = disk_contents h" by (simp add: same_rest_def)
qed

section \<open>Properties\<close>

text \<open>
  C8: in every state a mount over the spool folder can reach, whatever the device answers and
  whatever programs do, the tree is consistent, every open file has a spool file that no other open
  file shares, and unless a write of it failed the spool file holds exactly as many bytes as the
  mount reports and will announce to the device.
\<close>

theorem open_files_stay_whole:
  assumes "reachable_mount (mtp_service T) disk_host fs"
  shows "tree_ok (fs_tree fs)
    \<and> (\<forall>path p. fs_pending fs path = Some p \<longrightarrow>
        (\<exists>c. disk_contents (fs_host fs) (pn_spool p) = Some c \<and> (pn_broken p = None \<longrightarrow> length c = pn_size p)))
    \<and> (\<forall>path path' p q. fs_pending fs path = Some p \<longrightarrow> fs_pending fs path' = Some q \<longrightarrow> path \<noteq> path' \<longrightarrow>
        pn_spool p \<noteq> pn_spool q)"
  using device_mount.reachable_mount_ok [OF assms] by (auto simp: mount_ok_def entry_ok_def apart_def)

text \<open>A program makes a file, and writes two bytes after a gap of three.\<close>

definition made_mount :: "(fake_device mtp, disk) fs" where
  "made_mount = serve (mtp_service fake_transport) disk_host (CallCreate (lit ''/x'') True)
     (new_mount (fresh_mtp default_settings 512 (new_without_recovery (fake_new []) default_config)) \<lparr>dk_files = Map.empty, dk_room = 9\<rparr>)"

definition made_pending :: pending where
  "made_pending = \<lparr>pn_parent = 0, pn_name = lit ''x'', pn_spool = 0, pn_size = 0, pn_sent = None,
     pn_replaces = None, pn_broken = None, pn_keep_spool = False\<rparr>"

lemma made_mount_fields:
  "fs_pending made_mount = [lit ''/x'' \<mapsto> made_pending]" "fs_count made_mount = 1"
  "fs_host made_mount = \<lparr>dk_files = [0 \<mapsto> \<lparr>sp_data = [], sp_cursor = 0\<rparr>], dk_room = 9\<rparr>"
proof -
  have "split_parent (lit ''/x'') = ([47], lit ''x'')" by (simp add: split_parent_def lit_def rsplit_once_def)
  moreover have "resolve_rounds S MAX_WALK [47] fs = (Some 0, fs)" for S :: "(fake_device mtp, disk) service" and fs
    by (simp add: MAX_WALK_def lookup_def split_path_def TREE_ROOT_def numeral_eq_Suc)
  moreover have "lit ''x'' \<noteq> []" by (simp add: lit_def)
  ultimately show "fs_pending made_mount = [lit ''/x'' \<mapsto> made_pending]" "fs_count made_mount = 1"
    "fs_host made_mount = \<lparr>dk_files = [0 \<mapsto> \<lparr>sp_data = [], sp_cursor = 0\<rparr>], dk_room = 9\<rparr>"
    by (simp_all add: made_mount_def op_create_def resolved_def resolve_def and_then_def or_fail_def map_err_def
        make_spool_def next_count_def on_host_def disk_host_def new_mount_def modify_def insert_pending_def
        put_file_def made_pending_def)
qed

lemma open_files_stay_whole_witness:
  "\<exists>fs p c. reachable_mount (mtp_service fake_transport) disk_host fs
    \<and> fs_pending fs (lit ''/x'') = Some p \<and> pn_size p = 5
    \<and> disk_contents (fs_host fs) (pn_spool p) = Some c \<and> length c = 5"
proof -
  let ?S = "mtp_service fake_transport :: (fake_device mtp, disk) service"
  let ?fs = "serve ?S disk_host (CallWrite (lit ''/x'') [1, 2] 3) made_mount"
  have "reachable_mount ?S disk_host made_mount"
    unfolding made_mount_def by (rule Serve [OF Mount]) (simp_all add: room_def new_mount_def)
  then have r: "reachable_mount ?S disk_host ?fs"
    by (rule Serve) (simp_all add: room_def made_mount_fields)
  have "fs_pending ?fs (lit ''/x'') = Some (made_pending\<lparr>pn_size := 5\<rparr>)"
    by (simp add: op_write_def made_mount_fields write_loop.simps disk_host_def disk_write_at_def with_file_def
        put_file_def overwrite_def Let_def made_pending_def)
  then show ?thesis using open_files_stay_whole [OF r] r by (fastforce simp: made_pending_def)
qed

end
