(* ===== verification/Mtpfs_Main.thy ===== *)
theory Mtpfs_Main
  imports Mtpfs_Mount "HOL-Library.List_Lexorder"
begin

text \<open>
  The program \<open>mtpfs\<close> around the callbacks, \<open>crates/mtpfs/src/main.rs\<close> and the listing of
  \<open>backend.rs\<close>: the command line, the list of devices, the name of a device, and a mount from the
  opening of the device to the drop of its state. The loop of FUSE is code the program only calls:
  the requests it makes and the code it returns are arguments.
\<close>

section \<open>Spool names\<close>

definition spool_dir :: "(string \<Rightarrow> ustring option) \<Rightarrow> ustring" where
  "spool_dir env =
     (case env ''BSDROID_SPOOL'' of
        Some d \<Rightarrow> d
      | None \<Rightarrow> (case env ''TMPDIR'' of Some d \<Rightarrow> d | None \<Rightarrow> lit ''/var/tmp''))"

definition spool_name :: "u32 \<Rightarrow> u64 \<Rightarrow> ustring" where
  "spool_name pid n = lit ''mtpfs-'' @ decimal (unat pid) @ lit ''-'' @ decimal (unat n) @ lit ''.spool''"

section \<open>The list of devices\<close>

record device_entry =
  de_node :: ustring
  de_bus :: u8
  de_address :: u8
  de_vendor_id :: u16
  de_product_id :: u16
  de_name :: ustring

text \<open>Each device is dropped when its entry is made.\<close>

fun entries_of :: "'d libusb20 \<Rightarrow> found list \<Rightarrow> 'd \<Rightarrow> device_entry list \<times> 'd" where
  "entries_of L [] d = ([], d)"
| "entries_of L (f # fs) d =
     (case found_name L f d of (name, d1) \<Rightarrow>
      case entries_of L fs (drop_open_device L (fd_device f) d1) of (es, d2) \<Rightarrow>
        (\<lparr>de_node = found_node f, de_bus = fd_bus f, de_address = fd_address f,
          de_vendor_id = fd_vendor_id f, de_product_id = fd_product_id f, de_name = name\<rparr> # es, d2))"

definition mtp_list_devices :: "'d libusb20 \<Rightarrow> settings \<Rightarrow> ('d, be_error, device_entry list) sm" where
  "mtp_list_devices L s d =
     (case backend_new L d of
        (Inl e, d1) \<Rightarrow> (Inl (BeUsb e), d1)
      | (Inr be, d1) \<Rightarrow>
          (case list_devices L be (st_timeout s) d1 of (found_devices, d2) \<Rightarrow>
           case entries_of L found_devices d2 of (es, d3) \<Rightarrow> (Inr es, lib_be_free L be d3)))"

section \<open>The command line\<close>

datatype invocation =
    MHelp
  | MList
  | MName "ustring option"
  | MMount "ustring option" ustring "ustring list"
  | MUsage

definition mtpfs_command :: "ustring list \<Rightarrow> invocation" where
  "mtpfs_command args =
     (case split_args args of (positional, fuse_args) \<Rightarrow>
      if list_ex (\<lambda>a. a = lit ''--help'' \<or> a = lit ''-h'') args then MHelp
      else if list_ex (\<lambda>a. a = lit ''-l'' \<or> a = lit ''--list'') args then MList
      else if list_ex (\<lambda>a. a = lit ''--name'') args
        then MName (case positional of [] \<Rightarrow> None | p # _ \<Rightarrow> Some p)
      else case positional of
          [folder] \<Rightarrow> MMount None folder fuse_args
        | [node, folder] \<Rightarrow> MMount (Some node) folder fuse_args
        | _ \<Rightarrow> MUsage)"

text \<open>What FUSE is started with.\<close>

definition fuse_argv :: "ustring \<Rightarrow> ustring list \<Rightarrow> ustring list" where
  "fuse_argv mount_point fuse_args = [lit ''mtpfs'', lit ''-s''] @ fuse_args @ [mount_point]"

section \<open>The mount\<close>

definition close_mtp :: "'d libusb20 \<Rightarrow> pointer \<Rightarrow> mtp_device \<Rightarrow> 'd mtp \<Rightarrow> 'd" where
  "close_mtp L be device t =
     lib_be_free L be (drop_mtp_device L device (drop_mtp (mtp_transport L device) t))"

text \<open>The drop of the map of open files, in the order of their paths.\<close>

definition drop_open_files :: "'h host \<Rightarrow> ('m, 'h) fs \<Rightarrow> ('m, 'h) fs" where
  "drop_open_files H fs =
     fold (\<lambda>path fs'. drop_pending H (the (fs_pending fs path)) fs')
       (sorted_list_of_set (dom (fs_pending fs))) (fs\<lparr>fs_pending := Map.empty\<rparr>)"

text \<open>The device is dropped first, then the tree and the open files.\<close>

definition unmount :: "'d libusb20 \<Rightarrow> 'h host \<Rightarrow> pointer \<Rightarrow> mtp_device \<Rightarrow> ('d mtp, 'h) fs \<Rightarrow> 'd \<times> 'h" where
  "unmount L H be device fs = (close_mtp L be device (fs_mtp fs), fs_host (drop_open_files H fs))"

definition serve_all :: "('m, 'h) service \<Rightarrow> 'h host \<Rightarrow> request list \<Rightarrow> ('m, 'h) fs \<Rightarrow> ('m, 'h) fs" where
  "serve_all S H calls fs = fold (serve S H) calls fs"

definition print_name :: "'d libusb20 \<Rightarrow> settings \<Rightarrow> ustring option \<Rightarrow> ('d, be_error, ustring) sm" where
  "print_name L s node d =
     (case mtp_open L node s d of
        Inl (e, d') \<Rightarrow> (Inl e, d')
      | Inr (t, be, device) \<Rightarrow> (Inr (mtp_name t), close_mtp L be device t))"

text \<open>
  The exit code, and what is left of the bus and of the host. \<open>fuse\<close> is what FUSE does with the
  arguments it gets: the requests it makes and the code it returns.
\<close>

definition mtpfs_main ::
    "'d libusb20 \<Rightarrow> 'h host \<Rightarrow> (string \<Rightarrow> ustring option) \<Rightarrow> (ustring list \<Rightarrow> request list \<times> int) \<Rightarrow>
     ustring list \<Rightarrow> 'd \<Rightarrow> 'h \<Rightarrow> bool \<times> 'd \<times> 'h" where
  "mtpfs_main L H env fuse args d h =
     (let s = settings_from_env env in
      case mtpfs_command args of
        MHelp \<Rightarrow> (True, d, h)
      | MUsage \<Rightarrow> (False, d, h)
      | MList \<Rightarrow>
          (case mtp_list_devices L s d of
             (Inl e, d') \<Rightarrow> (False, d', h) | (Inr es, d') \<Rightarrow> (es \<noteq> [], d', h))
      | MName node \<Rightarrow>
          (case print_name L s node d of (Inl e, d') \<Rightarrow> (False, d', h) | (Inr name, d') \<Rightarrow> (True, d', h))
      | MMount node mount_point fuse_args \<Rightarrow>
          (case mtp_open L node s d of
             Inl (e, d') \<Rightarrow> (False, d', h)
           | Inr (t, be, device) \<Rightarrow>
               (case fuse (fuse_argv mount_point fuse_args) of (calls, rc) \<Rightarrow>
                let fs = serve_all (mtp_service (mtp_transport L device)) H calls (new_mount t h)
                in (rc = 0, unmount L H be device fs))))"

section \<open>What is left on the host\<close>

context spool_files
begin

lemma drop_fold_contents:
  "contents (fs_host (fold (\<lambda>path fs'. drop_pending H (m path) fs') paths fs)) n =
     (if \<exists>path\<in>set paths. pn_spool (m path) = n \<and> \<not> pn_keep_spool (m path) then None
      else contents (fs_host fs) n)"
  by (induction paths arbitrary: fs) (auto simp: drop_pending_def remove_gone)

lemma drop_open_contents:
  assumes ok: "mount_ok contents fs"
  shows "contents (fs_host (drop_open_files H fs)) n =
     (if \<exists>path p. fs_pending fs path = Some p \<and> pn_spool p = n \<and> \<not> pn_keep_spool p then None
      else contents (fs_host fs) n)"
proof -
  have "set (sorted_list_of_set (dom (fs_pending fs))) = dom (fs_pending fs)"
    using ok by (simp add: mount_ok_def)
  then show ?thesis
    by (force simp: drop_open_files_def drop_fold_contents)
qed

end



end
