(* ===== verification/Usb_Held.thy ===== *)
theory Usb_Held
  imports Mtp_Session Usb_Discover
begin

text \<open>
  What the program holds of the USB library: the backends it allocated, the devices and the
  transfers it opened. A view of the bus that the calls of a session leave alone is a locale, and
  the frame lemmas of every layer are proved once over it; a second locale follows what is held
  through the searches and the opening of a session device.
\<close>

section \<open>A transport that leaves a view of the bus alone\<close>

definition same_view :: "('d \<Rightarrow> 'v) \<Rightarrow> 'd session \<Rightarrow> 'd session \<Rightarrow> bool" where
  "same_view f s t \<longleftrightarrow> f (ses_device t) = f (ses_device s)"

definition same_view2 :: "('d \<Rightarrow> 'v) \<Rightarrow> 'd session \<times> 'w \<Rightarrow> 'd session \<times> 'w \<Rightarrow> bool" where
  "same_view2 f s t \<longleftrightarrow> same_view f (fst s) (fst t)"

interpretation view_step: step_order "same_view f" for f
  by unfold_locales (auto simp: same_view_def)

interpretation view_step2: step_order "same_view2 f" for f
  by unfold_locales (auto simp: same_view2_def same_view_def)

lemma view_on_fst: "keeps (same_view f) m \<Longrightarrow> keeps (same_view2 f) (on_fst m)"
  by (rule keepsI) (auto simp: on_fst_def same_view2_def dest: keepsD split: prod.splits)

lemma view_on_snd: "keeps (same_view2 f) (on_snd m)"
  by (rule keepsI) (auto simp: on_snd_def same_view2_def same_view_def split: prod.splits)

lemma view_collecting: "keeps (same_view2 f) m \<Longrightarrow> keeps (same_view f) (collecting m)"
  by (rule keepsI)
     (fastforce simp: collecting_def same_view2_def dest: keepsD split: prod.splits sum.splits)

lemma view_slice: "keeps (same_view2 f) (slice_to nm buf n)"
  by (simp add: slice_to_def view_step2.keeps_ok view_step2.keeps_err)

lemma view_on_device: "(\<And>d. f (snd (m d)) = f d) \<Longrightarrow> keeps (same_view f) (on_device m)"
  by (simp add: keeps_def same_view_def on_device_def case_prod_beta)

lemma view_modify: "(\<And>s. ses_device (g s) = ses_device s) \<Longrightarrow> keeps (same_view f) (modify g)"
  by (simp add: keeps_def same_view_def)

lemma view_next: "keeps (same_view f) next_transaction"
  by (simp add: keeps_def same_view_def next_transaction_def)

lemma view_at: "(\<And>s. keeps (same_view f) (m s)) \<Longrightarrow> keeps (same_view f) (\<lambda>s. m s s)"
  by (simp add: keeps_def)

lemma view_at2: "(\<And>s. keeps (same_view2 f) (m s)) \<Longrightarrow> keeps (same_view2 f) (\<lambda>s. m s s)"
  by (simp add: keeps_def)

lemmas view_intros =
  view_step2.keeps_and_then view_step2.keeps_ok view_step2.keeps_err
  view_step2.keeps_map_err view_step2.keeps_from_result
  view_on_fst view_on_snd view_slice view_next

locale steady_transport =
  fixes T :: "'d transport" and f :: "'d \<Rightarrow> 'v"
  assumes steady_write: "f (snd (tp_write T bs t d)) = f d"
    and steady_read: "f (snd (tp_read T buf t d)) = f d"
    and steady_clear: "f (tp_clear_stalls T d) = f d"
    and steady_capabilities: "f (snd (tp_capabilities T t d)) = f d"
begin

lemma view_write_all: "keeps (same_view f) (write_all T nm bs)"
  unfolding write_all_def
  by (rule view_at) (intro view_step.keeps_map_err view_step.keeps_and_then view_on_device
    steady_write view_step.keeps_ok)

lemma view_read_once: "keeps (same_view f) (read_once T nm buf)"
  unfolding read_once_def by (rule view_at) (intro view_step.keeps_map_err view_on_device steady_read)

lemma view_read_rounds: "keeps (same_view2 f) (read_rounds T W nm declared k buf p)"
  by (induction k arbitrary: buf p)
     (auto simp: Let_def write_out_def simp del: ok_apply intro!: view_intros view_read_once)

lemma view_read_answer: "keeps (same_view2 f) (read_answer T W nm)"
proof -
  have "keeps (same_view2 f) (read_answer_with T W nm sz)" for sz
    unfolding read_answer_with_def data_phase_def read_container_def write_out_def Let_def
    by (auto intro!: view_intros view_read_once view_read_rounds split: container_type.split prod.split)
  then show ?thesis by (simp add: keeps_def read_answer_def)
qed

lemma view_stream: "keeps (same_view2 f) (operation_stream T W nm code params)"
  unfolding operation_stream_def by (auto intro!: view_intros view_write_all view_read_answer)

lemma view_operation: "keeps (same_view f) (operation T nm code params)"
  unfolding operation_def by (intro view_collecting view_stream)

lemma view_open: "keeps (same_view f) (open_session T sid)"
  and view_close: "keeps (same_view f) (close_session T)"
  unfolding open_session_def close_session_def
  by (auto intro!: view_step.keeps_and_then view_operation view_modify view_step.keeps_ok)

lemma view_drain: "f (ses_device (snd (drain T s))) = f (ses_device s)"
proof -
  have "f (ses_device (snd (drain_rounds T k buf t n s))) = f (ses_device s)" for k buf t n s
  proof (induction k arbitrary: buf t n s)
    case (Suc k)
    have "f (ses_device (snd (on_device (tp_read T buf t) s))) = f (ses_device s)"
      by (simp add: on_device_def case_prod_beta steady_read)
    with Suc show ?case by (auto split: prod.splits sum.splits)
  qed simp
  then show ?thesis by (simp add: drain_def)
qed

lemma view_recover: "f (ses_device (snd (recover T s))) = f (ses_device s)"
  by (simp add: recover_def view_drain clear_stalls_def steady_clear)

lemma view_repair: "keeps (same_view f) (open_session_or_repair T sid)"
proof -
  have "keeps (same_view f) (\<lambda>s. case recover T s of (n, s') \<Rightarrow> (Inr n, s'))"
    by (simp add: keeps_def same_view_def case_prod_beta view_recover)
  then show ?thesis
    unfolding open_session_or_repair_def
    by (auto intro!: view_step.keeps_and_then view_step.keeps_unwrap_or view_step.keeps_ok
        view_open view_close)
qed

lemma view_new: "f (ses_device (fst (session_new T d c))) = f d"
  using view_recover [of "new_without_recovery d c"]
  by (auto simp: session_new_def new_without_recovery_def split: prod.splits)

lemma view_drop: "f (ses_device (drop_session T s)) = f (ses_device s)"
  using view_close view_recover [of s] by (simp add: drop_session_def keeps_def same_view_def)

lemma view_device_capabilities: "f (ses_device (snd (device_capabilities T s))) = f (ses_device s)"
  by (simp add: device_capabilities_def on_device_def case_prod_beta steady_capabilities)

end

section \<open>What the library holds for the program\<close>

record held =
  h_backends :: "pointer set"
  h_devices :: "pointer set"
  h_transfers :: "pointer set"

text \<open>Backends alone, and no device.\<close>

abbreviation backends_only :: "pointer set \<Rightarrow> held" where
  "backends_only B \<equiv> \<lparr>h_backends = B, h_devices = {}, h_transfers = {}\<rparr>"

definition nothing_held :: held where
  "nothing_held = backends_only {}"

text \<open>The documented effect of every call of libusb20 the program makes on what is held.\<close>

definition leaves_held :: "'d libusb20 \<Rightarrow> ('d \<Rightarrow> 'v) \<Rightarrow> bool" where
  "leaves_held L f \<longleftrightarrow>
     (\<forall>be cur d. f (snd (lib_be_device_foreach L be cur d)) = f d)
   \<and> (\<forall>dev request_setup data ms d. f (snd (lib_dev_request_sync L dev request_setup data ms d)) = f d)
   \<and> (\<forall>dev k buf n d. f (snd (lib_dev_req_string_simple_sync L dev k buf n d)) = f d)
   \<and> (\<forall>dev i d. f (snd (lib_dev_kernel_driver_active L dev i d)) = f d)
   \<and> (\<forall>dev i d. f (snd (lib_dev_detach_kernel_driver L dev i d)) = f d)
   \<and> (\<forall>dev d. f (snd (lib_dev_reset L dev d)) = f d)
   \<and> (\<forall>x buf n ms d. f (snd (lib_tr_bulk_intr_sync L x buf n ms d)) = f d)
   \<and> (\<forall>x d. f (lib_tr_clear_stall_sync L x d) = f d)
   \<and> (\<forall>x d. f (lib_tr_drain L x d) = f d)"

definition tracks_library :: "'d libusb20 \<Rightarrow> ('d \<Rightarrow> held) \<Rightarrow> bool" where
  "tracks_library L held_by \<longleftrightarrow>
     leaves_held L held_by
   \<and> (\<forall>d. case fst (lib_be_alloc_default L d) of
        None \<Rightarrow> held_by (snd (lib_be_alloc_default L d)) = held_by d
      | Some be \<Rightarrow> be \<notin> h_backends (held_by d) \<and> held_by (snd (lib_be_alloc_default L d)) =
          (held_by d)\<lparr>h_backends := insert be (h_backends (held_by d))\<rparr>)
   \<and> (\<forall>be d. held_by (lib_be_free L be d) = (held_by d)\<lparr>h_backends := h_backends (held_by d) - {be}\<rparr>)
   \<and> (\<forall>dev n d. held_by (snd (lib_dev_open L dev n d)) =
        (if fst (lib_dev_open L dev n d) = 0
         then (held_by d)\<lparr>h_devices := insert dev (h_devices (held_by d))\<rparr> else held_by d))
   \<and> (\<forall>dev d. held_by (lib_dev_close L dev d) = (held_by d)\<lparr>h_devices := h_devices (held_by d) - {dev}\<rparr>)
   \<and> (\<forall>x n k e d. held_by (snd (lib_tr_open L x n k e d)) =
        (if fst (lib_tr_open L x n k e d) = 0
         then (held_by d)\<lparr>h_transfers := insert x (h_transfers (held_by d))\<rparr> else held_by d))
   \<and> (\<forall>x d. held_by (lib_tr_close L x d) = (held_by d)\<lparr>h_transfers := h_transfers (held_by d) - {x}\<rparr>)"

locale library_frame =
  fixes L :: "'d libusb20" and f :: "'d \<Rightarrow> 'v"
  assumes leaves: "leaves_held L f"
begin

lemma frame_calls:
  "f (snd (lib_be_device_foreach L be cur d)) = f d"
  "f (snd (lib_dev_request_sync L dev request_setup data ms d)) = f d"
  "f (snd (lib_dev_req_string_simple_sync L dev k buf n d)) = f d"
  "f (snd (lib_dev_kernel_driver_active L dev i d)) = f d"
  "f (snd (lib_dev_detach_kernel_driver L dev i d)) = f d"
  "f (snd (lib_dev_reset L dev d)) = f d"
  "f (snd (lib_tr_bulk_intr_sync L x buf m ms d)) = f d"
  "f (lib_tr_clear_stall_sync L x d) = f d"
  "f (lib_tr_drain L x d) = f d"
  using leaves by (simp_all add: leaves_held_def)

lemma frame_calls':
  "lib_be_device_foreach L be cur d = (r1, d') \<Longrightarrow> f d' = f d"
  "lib_dev_request_sync L dev request_setup data ms d = (r2, d') \<Longrightarrow> f d' = f d"
  "lib_dev_req_string_simple_sync L dev k buf n d = (r3, d') \<Longrightarrow> f d' = f d"
  "lib_tr_bulk_intr_sync L x buf m ms d = (r4, d') \<Longrightarrow> f d' = f d"
  using frame_calls by (metis snd_conv)+

lemma frame_control_request: "f (snd (control_request L dev ty rq v i cap t d)) = f d"
  by (auto simp: control_request_def and_then_def Let_def dest: frame_calls'
      split: sum.splits prod.splits)

lemma frame_config_raw: "f (snd (config_descriptor_raw L dev t d)) = f d"
  by (simp add: config_descriptor_raw_def frame_control_request)

lemma frame_string: "f (snd (string_descriptor L dev k d)) = f d"
  by (auto simp: string_descriptor_def dest: frame_calls' split: prod.splits option.splits)

lemma frame_names: "f (snd (read_names L dev is d)) = f d"
  by (induction "is" arbitrary: d) (simp_all add: frame_string case_prod_beta)

lemma frame_devices: "f (snd (devices L be d)) = f d"
proof -
  have "f (snd (devices_from L be n cur d)) = f d" for n cur
    by (induction n arbitrary: cur d)
       (auto simp: case_prod_beta frame_calls dest: frame_calls' split: option.split)
  then show ?thesis by (simp add: devices_def)
qed

lemma frame_transfer: "f (snd (transfer L c buf t d)) = f d"
  by (auto simp: transfer_def and_then_def Let_def dest: frame_calls' split: sum.splits prod.splits)

lemma frame_capabilities: "f (snd (capabilities L dev t d)) = f d"
proof -
  have "f (snd (bos_descriptor_raw L dev t d)) = f d"
    by (simp add: bos_descriptor_raw_def frame_control_request)
  then show ?thesis
    by (auto simp: capabilities_def and_then_def map_err_def split: prod.splits sum.splits)
qed

lemma frame_write: "f (snd (bulk_write L c bs t d)) = f d"
  using frame_transfer [of c bs t d] by (auto simp: bulk_write_def and_then_def split: prod.splits sum.splits)

lemma frame_small:
  "f (snd (dev_reset L dev d)) = f d"
  "f (snd (kernel_driver_active L dev i d)) = f d"
  "f (snd (detach_kernel_driver L dev i d)) = f d"
  "f (snd (ptp_device_reset L dev i t d)) = f d"
  using frame_control_request [of dev REQUEST_TYPE_OUT_CLASS_INTERFACE PTP_DEVICE_RESET_REQUEST 0 "ucast i" 0 t d]
  by (auto simp: dev_reset_def kernel_driver_active_def detach_kernel_driver_def frame_calls case_prod_beta
      ptp_device_reset_def class_request_out_def and_then_def split: sum.split)

end

sublocale library_frame \<subseteq> session: steady_transport "mtp_transport L m" f for m
  by unfold_locales
     (simp_all add: mtp_transport_def frame_write bulk_read_def frame_transfer clear_stall_def
       frame_calls frame_capabilities)

section \<open>What the searches hold\<close>

lemma no_devices: "h_devices h = {} \<Longrightarrow> h\<lparr>h_devices := {}\<rparr> = h"
  by (cases h) simp

text \<open>A session device holds its backend, its device and two transfers.\<close>

definition session_holds :: "('d \<Rightarrow> held) \<Rightarrow> pointer set \<Rightarrow> pointer \<Rightarrow> mtp_device \<Rightarrow> 'd \<Rightarrow> bool" where
  "session_holds held_by B be m d \<longleftrightarrow>
     be \<notin> B \<and> held_by d = \<lparr>h_backends = insert be B, h_devices = {md_device m},
                 h_transfers = {bc_xfer (md_write m), bc_xfer (md_read m)}\<rparr>"

definition stays_free :: "('d \<Rightarrow> held) \<Rightarrow> 'd \<Rightarrow> 'd \<Rightarrow> bool" where
  "stays_free held_by d d' \<longleftrightarrow> (\<forall>B. held_by d = backends_only B \<longrightarrow> held_by d' = backends_only B)"

interpretation free_step: step_order "stays_free held_by" for held_by
  by unfold_locales (auto simp: stays_free_def)

fun holding :: "held \<Rightarrow> found option \<Rightarrow> held" where
  "holding h None = h"
| "holding h (Some x) = h\<lparr>h_devices := {fd_device x}\<rparr>"

locale held_library =
  fixes L :: "'d libusb20" and held_by :: "'d \<Rightarrow> held"
  assumes tracks: "tracks_library L held_by"
begin

lemma held_open:
  "open_device L dev n d = (r, d') \<Longrightarrow>
     (\<exists>e. r = Inl e) \<and> held_by d' = held_by d
     \<or> r = Inr dev \<and> held_by d' = (held_by d)\<lparr>h_devices := insert dev (h_devices (held_by d))\<rparr>"
proof -
  assume run: "open_device L dev n d = (r, d')"
  obtain rc d1 where rc: "lib_dev_open L dev n d = (rc, d1)" by fastforce
  have "held_by (snd (lib_dev_open L dev n d)) = (if fst (lib_dev_open L dev n d) = 0
      then (held_by d)\<lparr>h_devices := insert dev (h_devices (held_by d))\<rparr> else held_by d)"
    using tracks unfolding tracks_library_def by blast
  then show ?thesis using run rc by (auto simp: open_device_def split: if_splits)
qed

lemma held_drop: "held_by (drop_open_device L dev d) = (held_by d)\<lparr>h_devices := h_devices (held_by d) - {dev}\<rparr>"
  using tracks by (simp add: tracks_library_def drop_open_device_def)

lemma held_free: "held_by (lib_be_free L be d) = (held_by d)\<lparr>h_backends := h_backends (held_by d) - {be}\<rparr>"
  using tracks by (simp add: tracks_library_def)

lemma held_new:
  "backend_new L d = (r, d') \<Longrightarrow>
     (\<exists>e. r = Inl e) \<and> held_by d' = held_by d
     \<or> (\<exists>be. r = Inr be \<and> be \<notin> h_backends (held_by d)
          \<and> held_by d' = (held_by d)\<lparr>h_backends := insert be (h_backends (held_by d))\<rparr>)"
proof -
  assume run: "backend_new L d = (r, d')"
  obtain x d1 where x: "lib_be_alloc_default L d = (x, d1)" by fastforce
  have "case fst (lib_be_alloc_default L d) of
      None \<Rightarrow> held_by (snd (lib_be_alloc_default L d)) = held_by d
    | Some be \<Rightarrow> be \<notin> h_backends (held_by d) \<and> held_by (snd (lib_be_alloc_default L d)) =
        (held_by d)\<lparr>h_backends := insert be (h_backends (held_by d))\<rparr>"
    using tracks unfolding tracks_library_def by blast
  then show ?thesis using run x by (auto simp: backend_new_def split: option.splits)
qed

sublocale library_frame L held_by
  using tracks by unfold_locales (simp add: tracks_library_def)

lemma held_raw: "config_descriptor_raw L dev t d = (r, d') \<Longrightarrow> held_by d' = held_by d"
  using frame_config_raw by (metis snd_conv)

lemma held_inspect:
  assumes none: "h_devices (held_by d) = {}" and run: "inspect L dev t d = (r, d')"
  shows "held_by d' = holding (held_by d) r"
proof -
  obtain o1 d1 where o1: "open_device L dev 4 d = (o1, d1)" by fastforce
  show ?thesis
  proof (cases o1)
    case (Inl e)
    then show ?thesis using run o1 held_open [OF o1] by (auto simp: inspect_def split: prod.splits)
  next
    case (Inr dv)
    then have dv: "dv = dev" and d1: "held_by d1 = (held_by d)\<lparr>h_devices := {dev}\<rparr>"
      using held_open [OF o1] none by auto
    have names: "held_by d3 = held_by d2" if "read_names L dev xs d2 = (names, d3)" for xs names d2 d3
      using that frame_names by (metis snd_conv)
    show ?thesis
      using run o1 Inr dv d1 none no_devices [OF none]
      by (auto simp: inspect_def held_drop dest!: held_raw names split: prod.splits sum.splits)
  qed
qed

lemma held_find_in:
  "h_devices (held_by d) = {} \<Longrightarrow> find_in L want t hs d = (r, d') \<Longrightarrow>
     held_by d' = holding (held_by d) r"
proof (induction hs arbitrary: d)
  case (Cons h hs)
  obtain x d1 where x: "inspect L h t d = (x, d1)" by fastforce
  have d1: "x = None \<Longrightarrow> held_by d1 = held_by d" using held_inspect [OF Cons.prems(1) x] by simp
  show ?case
  proof (cases "case want of Some sel \<Rightarrow> \<not> selector_matches L sel h d | None \<Rightarrow> False")
    case True
    then show ?thesis using Cons.prems Cons.IH [of d] by simp
  next
    case False
    show ?thesis
    proof (cases x)
      case None
      then have "find_in L want t hs d1 = (r, d')" and "h_devices (held_by d1) = {}"
        using Cons.prems False x d1 by auto
      then show ?thesis using Cons.IH [of d1] d1 None by simp
    next
      case (Some y)
      then have "r = x" and "d' = d1" using Cons.prems(2) False x by auto
      then show ?thesis using held_inspect [OF Cons.prems(1) x] by simp
    qed
  qed
qed simp

lemma held_find:
  assumes none: "h_devices (held_by d) = {}" and run: "find_device L be want t d = (r, d')"
  shows "held_by d' = holding (held_by d) r"
proof -
  obtain hs d1 where hs: "devices L be d = (hs, d1)" by fastforce
  then have "held_by d1 = held_by d" using frame_devices by (metis snd_conv)
  then show ?thesis using held_find_in [of d1 want t hs r d'] none run hs by (simp add: find_device_def)
qed

lemma held_any:
  assumes "h_devices (held_by d) = {}" and "any_device L be t d = (b, d')"
  shows "held_by d' = held_by d"
proof -
  obtain x d1 where x: "find_device L be None t d = (x, d1)" by fastforce
  show ?thesis
    using held_find [OF assms(1) x] assms x no_devices [OF assms(1)]
    by (auto simp: any_device_def held_drop split: option.splits)
qed

lemma held_android_in:
  "h_devices (held_by d) = {} \<Longrightarrow> held_by (snd (android_in L t hs d)) = held_by d"
proof (induction hs arbitrary: d)
  case (Cons h hs)
  obtain o1 d1 where o1: "open_device L h 4 d = (o1, d1)" by fastforce
  note opened = held_open [OF o1]
  obtain o2 d2 where o2: "config_descriptor_raw L h t d1 = (o2, d2)" by fastforce
  have d2: "held_by d2 = held_by d1" using held_raw [OF o2] .
  have shut: "held_by (drop_open_device L h d2) = held_by d" if "o1 = Inr h"
    using opened d2 that Cons.prems no_devices by (auto simp: held_drop)
  show ?case
    using Cons.prems o1 o2 opened shut Cons.IH [of d1] Cons.IH [of "drop_open_device L h d2"]
    by (auto simp: Let_def split: prod.splits sum.splits)
qed simp

lemma held_android:
  assumes "h_devices (held_by d) = {}"
  shows "held_by (snd (android_without_mtp L be t d)) = held_by d"
proof -
  obtain hs d1 where hs: "devices L be d = (hs, d1)" by fastforce
  then have "held_by d1 = held_by d" using frame_devices by (metis snd_conv)
  then show ?thesis using held_android_in [of d1 t hs] assms hs by (simp add: android_without_mtp_def)
qed

lemma held_open_transfer:
  assumes run: "open_transfer L x e n d = (r, d')"
  shows "(\<exists>u. r = Inl u) \<and> held_by d' = held_by d
    \<or> (\<exists>c. r = Inr c \<and> held_by d' = (held_by d)\<lparr>h_transfers := insert (bc_xfer c) (h_transfers (held_by d))\<rparr>)"
proof (cases x)
  case None
  then show ?thesis using run by (auto simp: open_transfer_def)
next
  case (Some y)
  obtain rc d1 where rc: "lib_tr_open L y n 1 e d = (rc, d1)" by fastforce
  have "held_by (snd (lib_tr_open L y n 1 e d)) = (if fst (lib_tr_open L y n 1 e d) = 0
      then (held_by d)\<lparr>h_transfers := insert y (h_transfers (held_by d))\<rparr> else held_by d)"
    using tracks unfolding tracks_library_def by blast
  then show ?thesis using run Some rc by (auto simp: open_transfer_def split: if_splits)
qed

lemma held_drop_channel:
  "held_by (drop_bulk_channel L c d) = (held_by d)\<lparr>h_transfers := h_transfers (held_by d) - {bc_xfer c}\<rparr>"
  using tracks by (simp add: tracks_library_def drop_bulk_channel_def frame_calls)

lemma held_into_mtp:
  assumes new: "be \<notin> B" and held: "held_by d = \<lparr>h_backends = insert be B, h_devices = {dev}, h_transfers = {}\<rparr>"
    and run: "into_mtp L dev iface n d = (r, d')"
  shows "case r of
      Inl e \<Rightarrow> held_by d' = backends_only (insert be B)
    | Inr m \<Rightarrow> session_holds held_by B be m d'"
proof -
  obtain a d1 where a: "open_transfer L (lib_tr_get_pointer L dev 0 d) (mi_bulk_out iface) n d = (a, d1)"
    by fastforce
  note t1 = held_open_transfer [OF a]
  show ?thesis
  proof (cases a)
    case (Inl e)
    then show ?thesis using run a t1 held by (auto simp: into_mtp_def held_drop)
  next
    case (Inr w)
    obtain b d2 where b: "open_transfer L (lib_tr_get_pointer L dev 1 d1) (mi_bulk_in iface) n d1 = (b, d2)"
      by fastforce
    note t2 = held_open_transfer [OF b]
    show ?thesis
      using run a t1 b t2 held new Inr
      by (cases b) (auto simp: into_mtp_def held_drop held_drop_channel session_holds_def)
  qed
qed

lemma held_release:
  assumes "session_holds held_by B be m d"
  shows "held_by (lib_be_free L be (drop_mtp_device L m d)) = backends_only B"
  using assms by (simp add: session_holds_def held_free drop_mtp_device_def held_drop held_drop_channel)

lemma holds_after:
  "keeps (same_view held_by) m \<Longrightarrow> m s = (r, t) \<Longrightarrow> session_holds held_by B be v (ses_device s) \<Longrightarrow>
     session_holds held_by B be v (ses_device t)"
  using keepsD [of "same_view held_by" m s r t] by (simp add: same_view_def session_holds_def)

lemma held_fails:
  "held_by d = backends_only B \<Longrightarrow> backend_new L d = (Inl e, d1) \<Longrightarrow> held_by d1 = backends_only B"
  using held_new [of d "Inl e" d1] by simp

end

section \<open>A bus that counts\<close>

text \<open>The bus of the discovery examples, with what it holds as its state.\<close>

definition held_bus :: "held libusb20" where
  "held_bus =
     \<lparr>lib_be_alloc_default = (\<lambda>d. if 0 \<in> h_backends d then (None, d)
        else (Some 0, d\<lparr>h_backends := insert 0 (h_backends d)\<rparr>)),
      lib_be_device_foreach = (\<lambda>be cur d. (if cur = None then Some 2 else None, d)),
      lib_be_free = (\<lambda>be d. d\<lparr>h_backends := h_backends d - {be}\<rparr>),
      lib_dev_get_bus_number = (\<lambda>dev d. 0),
      lib_dev_get_address = (\<lambda>dev d. 11),
      lib_dev_get_speed = (\<lambda>dev d. 3),
      lib_dev_get_device_desc = (\<lambda>dev d. Some (0x04e8, 0x6860)),
      lib_dev_open = (\<lambda>dev slots d. (0, d\<lparr>h_devices := insert dev (h_devices d)\<rparr>)),
      lib_dev_close = (\<lambda>dev d. d\<lparr>h_devices := h_devices d - {dev}\<rparr>),
      lib_dev_request_sync = (\<lambda>dev s data ms d. ((0, sample_config, word_of_nat (length sample_config)), d)),
      lib_dev_req_string_simple_sync = (\<lambda>dev k buf n d. ((- 1, buf), d)),
      lib_dev_kernel_driver_active = (\<lambda>dev i d. (1, d)),
      lib_dev_detach_kernel_driver = (\<lambda>dev i d. (0, d)),
      lib_dev_reset = (\<lambda>dev d. (0, d)),
      lib_tr_get_pointer = (\<lambda>dev i d. Some (unat i + 10)),
      lib_tr_open = (\<lambda>x n k e d. (0, d\<lparr>h_transfers := insert x (h_transfers d)\<rparr>)),
      lib_tr_bulk_intr_sync = (\<lambda>x buf n ms d. ((0, buf, 0), d)),
      lib_tr_clear_stall_sync = (\<lambda>x d. d),
      lib_tr_drain = (\<lambda>x d. d),
      lib_tr_close = (\<lambda>x d. d\<lparr>h_transfers := h_transfers d - {x}\<rparr>)\<rparr>"

interpretation held_bus: held_library held_bus "\<lambda>d. d"
  by unfold_locales (simp add: tracks_library_def leaves_held_def held_bus_def)

end
