(* ===== verification/Mtpfs_Held.thy ===== *)
theory Mtpfs_Held
  imports Mtpfs_Main Usb_Held
begin

text \<open>
  What the filesystem program holds of the USB library: nothing, once it has ended. A view of the
  bus that the calls of a transport leave alone is kept by every operation of the backend, so by
  every callback of a mount, whatever is asked of it and in whatever order.
\<close>

section \<open>The backend\<close>

definition same_bus :: "('d \<Rightarrow> 'v) \<Rightarrow> 'd mtp \<Rightarrow> 'd mtp \<Rightarrow> bool" where
  "same_bus f t t' \<longleftrightarrow> f (ses_device (mt_session t')) = f (ses_device (mt_session t))"

definition same_bus2 :: "('d \<Rightarrow> 'v) \<Rightarrow> 'd mtp \<times> 'w \<Rightarrow> 'd mtp \<times> 'w \<Rightarrow> bool" where
  "same_bus2 f s t \<longleftrightarrow> same_bus f (fst s) (fst t)"

interpretation bus_step: step_order "same_bus f" for f
  by unfold_locales (auto simp: same_bus_def)

interpretation bus_step2: step_order "same_bus2 f" for f
  by unfold_locales (auto simp: same_bus2_def same_bus_def)

lemma bus_on_session: "keeps (same_view f) m \<Longrightarrow> keeps (same_bus f) (on_session m)"
  by (rule keepsI)
     (auto simp: on_session_def same_bus_def same_view_def dest: keepsD split: prod.splits sum.splits)

lemma bus_on_fst: "keeps (same_bus f) m \<Longrightarrow> keeps (same_bus2 f) (on_fst m)"
  by (rule keepsI) (auto simp: on_fst_def same_bus2_def dest: keepsD split: prod.splits)

lemma bus_modify: "(\<And>t. mt_session (g t) = mt_session t) \<Longrightarrow> keeps (same_bus f) (modify g)"
  by (simp add: keeps_def same_bus_def)

lemma bus_check: "keeps (same_bus f) (check_outcome nm out)"
  by (simp add: check_outcome_def bus_step.keeps_ok bus_step.keeps_err)

lemma bus_drop_cache: "keeps (same_bus f) drop_cache"
  unfolding drop_cache_def by (rule bus_modify) simp

lemmas bus_intros =
  bus_step.keeps_and_then bus_step.keeps_ok bus_step.keeps_err bus_step.keeps_map_err
  bus_step.keeps_from_result bus_step.keeps_gets bus_step.keeps_if bus_on_session bus_check bus_drop_cache

context steady_transport
begin

lemma view_send_rounds: "keeps (same_view2 f) (send_rounds T R nm chunk sz k sent)"
  by (induction k arbitrary: sent) (auto simp: Let_def simp del: ok_apply err_apply intro!: view_intros view_write_all)

lemma view_sending: "keeps (same_view2 f) (operation_sending T R nm code params sz)"
  unfolding operation_sending_def Let_def
  by (auto simp del: ok_apply err_apply intro!: view_intros view_step2.keeps_gets view_write_all view_send_rounds
      view_collecting view_read_answer)

lemma view_with_data: "keeps (same_view f) (operation_with_data T nm code params payload)"
proof (rule keepsI)
  fix s r t
  assume run: "operation_with_data T nm code params payload s = (r, t)"
  obtain r' t' w where "operation_sending T slice_reader nm code params (length payload) (s, payload) = (r', (t', w))"
    by (cases "operation_sending T slice_reader nm code params (length payload) (s, payload)") auto
  then show "same_view f s t"
    using run keepsD [OF view_sending] by (fastforce simp: operation_with_data_def same_view2_def same_view_def
        split: if_splits)
qed

lemma bus_operation: "keeps (same_bus f) (be_operation T nm code params)"
  unfolding be_operation_def by (intro bus_intros view_operation)

lemma bus_changes: "keeps (same_bus f) (operation_that_changes T nm code params)"
  unfolding operation_that_changes_def by (intro bus_intros view_operation)

lemma bus_sending_data: "keeps (same_bus f) (sending_data T nm code params payload)"
  unfolding sending_data_def by (intro bus_intros view_with_data)

lemma bus_first_storage: "keeps (same_bus f) (first_storage T)"
proof -
  have "keeps (same_bus f) (storage_attempts T k)" for k
    by (induction k) (auto simp del: ok_apply err_apply intro!: bus_intros bus_operation)
  then show ?thesis by (simp add: first_storage_def)
qed

lemma bus_negotiate: "keeps (same_bus f) (negotiate T)"
  unfolding negotiate_def
  by (intro bus_intros view_repair bus_operation bus_first_storage bus_modify) simp_all

lemma bus_list_by_properties: "keeps (same_bus f) (list_by_properties T parent)"
proof -
  have "keeps (same_bus f) (prop_requests T arg codes)" for arg codes
    by (induction codes) (auto simp del: ok_apply err_apply intro!: bus_intros bus_operation)
  then show ?thesis unfolding list_by_properties_def Let_def by (intro bus_intros)
qed

lemma bus_list_one: "keeps (same_bus f) (list_one_at_a_time T parent)"
proof -
  have "keeps (same_bus f) (object_infos T parent hs)" for hs
    by (induction hs) (auto simp del: ok_apply err_apply intro!: bus_intros bus_operation split: sum.split)
  then show ?thesis unfolding list_one_at_a_time_def Let_def by (intro bus_intros bus_operation)
qed

lemma bus_list: "keeps (same_bus f) (be_list T parent)"
proof (rule keepsI)
  fix s r t
  assume run: "be_list T parent s = (r, t)"
  obtain a s1 where a: "list_by_properties T parent s = (a, s1)" by fastforce
  have s1: "same_bus f s s1" using keepsD [OF bus_list_by_properties a] .
  have "same_bus f s (s1\<lparr>mt_fast_list := False\<rparr>)" using s1 by (simp add: same_bus_def)
  then show "same_bus f s t"
    using run a s1 keepsD [OF bus_list_one] bus_step.step_trans
    by (fastforce simp: be_list_def split: if_splits sum.splits)
qed

lemma bus_partial_read: "keeps (same_bus f) (partial_read T handle offset want)"
  unfolding partial_read_def by (intro bus_intros bus_operation)

lemma bus_read_from_device: "keeps (same_bus f) (read_from_device T handle offset want sz)"
  unfolding read_from_device_def read_whole_packets_def
  by (auto simp del: ok_apply err_apply intro!: bus_intros bus_partial_read split: prod.split)

lemma bus_read_loop:
  assumes "\<And>at ask. keeps (same_bus f) (rd at ask)"
  shows "same_bus f t (snd (read_loop rd handle offset want sz out t))"
  using assms
proof (induction rd handle offset want sz out t rule: read_loop.induct)
  case (1 rd handle offset want sz out t)
  show ?case
  proof (cases "want \<le> length out")
    case True
    then show ?thesis by (subst read_loop.simps) (simp add: bus_step.step_refl)
  next
    case False
    let ?at = "offset + length out" and ?need = "want - length out"
    let ?ask = "min (max ?need READ_AHEAD) (sz - ?at)"
    show ?thesis
    proof (cases "Option.bind (mt_cache t) (\<lambda>c. cache_get c handle ?at ?need)")
      case (Some bs)
      then show ?thesis
        using "1.IH"(2) [OF False refl refl Some "1.prems"] False by (subst read_loop.simps) (simp add: Let_def)
    next
      case None
      obtain a t1 where a: "rd ?at ?ask t = (a, t1)" by fastforce
      have t1: "same_bus f t t1" using keepsD [OF "1.prems" a] .
      show ?thesis
      proof (cases a)
        case (Inl e)
        then show ?thesis using a t1 False None by (subst read_loop.simps) (simp add: Let_def)
      next
        case (Inr data)
        show ?thesis
        proof (cases "data = []")
          case True
          then show ?thesis using a t1 False None Inr by (subst read_loop.simps) (simp add: Let_def)
        next
          case more: False
          let ?t = "t1\<lparr>mt_cache := Some \<lparr>rc_handle = handle, rc_start = ?at, rc_data = data\<rparr>\<rparr>"
          have "same_bus f ?t (snd (read_loop rd handle offset want sz (out @ take (min ?need (length data)) data) ?t))"
            using "1.IH"(1) [OF False refl refl None refl refl a [symmetric] Inr more "1.prems"] by simp
          moreover have "same_bus f t ?t" using t1 by (simp add: same_bus_def)
          ultimately show ?thesis
            using a False None Inr more bus_step.step_trans
            by (subst read_loop.simps) (fastforce simp: Let_def)
        qed
      qed
    qed
  qed
qed

lemma bus_read_at: "keeps (same_bus f) (read_at T handle offset want sz)"
  using bus_read_loop [OF bus_read_from_device]
  by (auto simp: read_at_def read_at_with_def keeps_def bus_step.step_refl)

lemma bus_announce: "keeps (same_bus f) (announce_object T info parg)"
  unfolding announce_object_def by (intro bus_intros bus_sending_data)

lemma bus_send_object: "keeps (same_bus f) (send_object T parent name data is_folder)"
  unfolding send_object_def Let_def by (intro bus_intros bus_announce bus_sending_data)

lemma bus_changes_all:
  "keeps (same_bus f) (storage_space T)"
  "keeps (same_bus f) (rename_object T handle name)"
  "keeps (same_bus f) (move_object T handle parent)"
  "keeps (same_bus f) (delete_object T handle)"
  unfolding storage_space_def rename_object_def move_object_def delete_object_def
  by (intro bus_intros bus_operation bus_sending_data bus_changes)+

lemma bus_stream: "keeps (same_bus2 f) (send_object_stream T R parent name sz)"
proof -
  have body: "keeps (same_bus2 f) (\<lambda>(t, r).
      case operation_sending T R ''SendObject'' SEND_OBJECT [] sz (mt_session t, r) of
        (Inl e, (s', r')) \<Rightarrow> (Inl (BeSession e), (t\<lparr>mt_session := s'\<rparr>, r'))
      | (Inr out, (s', r')) \<Rightarrow> (Inr out, (t\<lparr>mt_session := s'\<rparr>, r')))"
    by (rule keepsI)
       (auto simp: same_bus2_def same_bus_def same_view2_def same_view_def
         dest!: keepsD [OF view_sending] split: prod.splits sum.splits)
  show ?thesis
    unfolding send_object_stream_def Let_def
    by (intro bus_step2.keeps_if bus_step2.keeps_and_then bus_step2.keeps_gets bus_step2.keeps_ok bus_step2.keeps_err
        bus_on_fst bus_announce bus_drop_cache bus_check body)
qed

lemma bus_drop_mtp:
  assumes "\<And>d. f (snd (tp_reset T d)) = f d"
  shows "f (drop_mtp T t) = f (ses_device (mt_session t))"
proof -
  have "f (ses_device (snd (close_session T s))) = f (ses_device s)" for s
    using view_close by (simp add: keeps_def same_view_def)
  moreover have "f (ses_device (snd (reset_device T s))) = f (ses_device s)" for s
    using view_on_device [of f "tp_reset T", OF assms] by (simp add: reset_device_def keeps_def same_view_def)
  ultimately show ?thesis by (simp add: drop_mtp_def Let_def view_drop)
qed

end

section \<open>The callbacks\<close>

definition same_mtp :: "('m \<Rightarrow> 'v) \<Rightarrow> ('m, 'h) fs \<Rightarrow> ('m, 'h) fs \<Rightarrow> bool" where
  "same_mtp g fs fs' \<longleftrightarrow> g (fs_mtp fs') = g (fs_mtp fs)"

interpretation mtp_step: step_order "same_mtp g" for g
  by unfold_locales (auto simp: same_mtp_def)

lemma mtp_on_host: "keeps (same_mtp g) (on_host m)"
  by (simp add: keeps_def same_mtp_def on_host_def case_prod_beta)

lemma mtp_or_fail: "keeps (same_mtp g) m \<Longrightarrow> keeps (same_mtp g) (or_fail rc m)"
  unfolding or_fail_def by (rule mtp_step.keeps_map_err)

lemma mtp_modify: "(\<And>fs. fs_mtp (k fs) = fs_mtp fs) \<Longrightarrow> keeps (same_mtp g) (modify k)"
  by (simp add: keeps_def same_mtp_def)

lemma mtp_ignoring: "keeps (same_mtp g) m \<Longrightarrow> keeps (same_mtp g) (ignoring m)"
  by (simp add: keeps_def ignoring_def)

lemma mtp_drop: "fs_mtp (drop_pending H p fs) = fs_mtp fs"
  by (simp add: drop_pending_def)

lemma mtp_insert: "fs_mtp (insert_pending H path p fs) = fs_mtp fs"
  by (simp add: insert_pending_def mtp_drop split: option.split)

lemma mtp_remove: "fs_mtp (remove_pending path fs) = fs_mtp fs"
  by (simp add: remove_pending_def)

lemma mtp_forget: "keeps (same_mtp g) (forget folder)"
  unfolding forget_def by (rule mtp_modify) simp

lemma mtp_next: "keeps (same_mtp g) next_count"
  by (simp add: keeps_def same_mtp_def next_count_def)

lemma mtp_counted: "keeps (same_mtp g) (make_spool H)" "keeps (same_mtp g) (aside_name name)"
  unfolding make_spool_def aside_name_def
  by (intro mtp_step.keeps_and_then mtp_next mtp_on_host mtp_step.keeps_ok)+

lemma mtp_file_entry: "keeps (same_mtp g) (file_entry handle)"
  by (simp add: keeps_def same_mtp_def file_entry_def split: option.split)

lemma mtp_pure: "(\<And>fs. snd (m fs) = fs) \<Longrightarrow> keeps (same_mtp g) m"
  by (simp add: keeps_def same_mtp_def)

lemma mtp_cases:
  "keeps (same_mtp g) m \<Longrightarrow> (\<And>x. keeps (same_mtp g) (k x)) \<Longrightarrow>
     keeps (same_mtp g) (\<lambda>fs. case pick fs of None \<Rightarrow> m fs | Some x \<Rightarrow> k x fs)"
  by (simp add: keeps_def split: option.split)

lemma mtp_choice:
  "keeps (same_mtp g) m \<Longrightarrow> keeps (same_mtp g) n \<Longrightarrow> keeps (same_mtp g) (\<lambda>fs. if test fs then m fs else n fs)"
  by (simp add: keeps_def)

lemma mtp_state: "(\<And>x. keeps (same_mtp g) (m x)) \<Longrightarrow> keeps (same_mtp g) (\<lambda>fs. m (pick fs) fs)"
  by (simp add: keeps_def)

lemmas mtp_intros =
  mtp_step.keeps_and_then mtp_step.keeps_ok mtp_step.keeps_err mtp_step.keeps_gets
  mtp_step.keeps_unwrap_or mtp_or_fail mtp_on_host mtp_ignoring mtp_forget mtp_counted mtp_file_entry

lemma mtp_run: "keeps (same_mtp g) m \<Longrightarrow> g (fs_mtp (snd (m fs))) = g (fs_mtp fs)"
  by (simp add: keeps_def same_mtp_def)

locale steady_service =
  fixes S :: "('m, 'h) service" and g :: "'m \<Rightarrow> 'v"
  assumes steady_list: "g (snd (sv_list S parent m)) = g m"
    and steady_read_at: "g (snd (sv_read_at S handle offset want sz m)) = g m"
    and steady_send_object: "g (snd (sv_send_object S parent name bs folder m)) = g m"
    and steady_send_stream: "g (fst (snd (sv_send_stream S R parent name sz (m, h)))) = g m"
    and steady_storage_info: "g (snd (sv_storage_info S m)) = g m"
    and steady_rename: "g (snd (sv_rename S handle name m)) = g m"
    and steady_move: "g (snd (sv_move S handle parent m)) = g m"
    and steady_delete: "g (snd (sv_delete S handle m)) = g m"
begin

lemma mtp_on_mtp: "(\<And>m. g (snd (k m)) = g m) \<Longrightarrow> keeps (same_mtp g) (on_mtp k)"
  by (simp add: keeps_def same_mtp_def on_mtp_def case_prod_beta)

lemma mtp_calls:
  "keeps (same_mtp g) (on_mtp (sv_list S parent))"
  "keeps (same_mtp g) (on_mtp (sv_read_at S handle offset want sz))"
  "keeps (same_mtp g) (on_mtp (sv_send_object S parent name bs folder))"
  "keeps (same_mtp g) (on_mtp (sv_storage_info S))"
  "keeps (same_mtp g) (on_mtp (sv_rename S handle name))"
  "keeps (same_mtp g) (on_mtp (sv_move S handle parent))"
  "keeps (same_mtp g) (on_mtp (sv_delete S handle))"
  by (rule mtp_on_mtp, rule steady_list steady_read_at steady_send_object steady_storage_info steady_rename
      steady_move steady_delete)+

lemma mtp_resolve: "g (fs_mtp (snd (resolve S path fs))) = g (fs_mtp fs)"
proof -
  have "g (fs_mtp (snd (resolve_rounds S k path fs))) = g (fs_mtp fs)" for k
  proof (induction k arbitrary: fs)
    case (Suc k)
    have one: "on_mtp (sv_list S parent) fs = (r, fs1) \<Longrightarrow> g (fs_mtp fs1) = g (fs_mtp fs)" for parent r fs1
      using keepsD [OF mtp_calls(1)] by (simp add: same_mtp_def)
    show ?case
      using Suc.IH by (auto dest: one split: lookup.split prod.splits sum.splits)
  qed simp
  then show ?thesis by (simp add: resolve_def)
qed

lemma mtp_resolved: "keeps (same_mtp g) (resolved S path)"
proof (rule keepsI)
  fix s r t
  show "resolved S path s = (r, t) \<Longrightarrow> same_mtp g s t"
    using mtp_resolve [of path s] by (auto simp: resolved_def same_mtp_def split: prod.splits option.splits)
qed

lemma mtp_getattr: "keeps (same_mtp g) (op_getattr S owner path)"
  unfolding op_getattr_def
  by (intro mtp_cases mtp_intros mtp_resolved; rule mtp_pure) (auto split: option.split)

lemma mtp_readdir: "keeps (same_mtp g) (op_readdir S filler path)"
proof -
  have fill: "keeps (same_mtp g) (\<lambda>fs. if is_listed (fs_tree fs) handle then (Inr (), fs)
      else case or_fail EIO (on_mtp (sv_list S handle)) fs of
          (Inl rc, fs') \<Rightarrow> (Inl rc, fs')
        | (Inr es, fs') \<Rightarrow> (Inr (), fs'\<lparr>fs_tree := set_children handle es (fs_tree fs')\<rparr>))" for handle
    by (rule keepsI)
       (auto simp: same_mtp_def dest!: keepsD [OF mtp_or_fail [OF mtp_calls(1)]]
         split: if_splits prod.splits sum.splits)
  show ?thesis
    unfolding op_readdir_def
    by (intro mtp_intros mtp_resolved fill; rule mtp_pure) (auto split: option.split)
qed

lemma mtp_statfs: "keeps (same_mtp g) (op_statfs S)"
  unfolding op_statfs_def Let_def
  by (auto simp del: ok_apply intro!: mtp_intros mtp_calls split: prod.split)

lemma mtp_copy_loop: "g (fs_mtp (snd (copy_loop S H handle sz n at fs))) = g (fs_mtp fs)"
proof (induction "sz - at" arbitrary: at fs rule: less_induct)
  case less
  show ?case
  proof (cases "sz \<le> at")
    case True
    then show ?thesis by (subst copy_loop.simps) simp
  next
    case False
    obtain a fs1 where a: "on_mtp (sv_read_at S handle at (min READ_CHUNK (sz - at)) sz) fs = (a, fs1)"
      by fastforce
    have fs1: "g (fs_mtp fs1) = g (fs_mtp fs)" using keepsD [OF mtp_calls(2) a] by (simp add: same_mtp_def)
    have on: "g (fs_mtp (snd (copy_loop S H handle sz n (at + length bs) fs2))) = g (fs_mtp fs2)"
      if "bs \<noteq> []" for bs :: bytes and fs2
      using less [of "at + length bs" fs2] bytes_left [OF that, of sz at] False by simp
    have host: "on_host k fs1 = (r, fs2) \<Longrightarrow> fs_mtp fs2 = fs_mtp fs1" for r and fs2 :: "('m, 'h) fs" and k :: "('h, os_error, unit) sm"
      by (auto simp: on_host_def split: prod.splits)
    show ?thesis
      using a fs1 False
      by (subst copy_loop.simps) (auto simp: on dest: host split: sum.split prod.split)
  qed
qed

lemma mtp_adopt: "keeps (same_mtp g) (adopt_for_write S H path handle entry keep)"
proof -
  have copy: "keeps (same_mtp g) (copy_object_to_spool S H handle n spool)" for n spool
    using mtp_copy_loop by (simp add: keeps_def same_mtp_def copy_object_to_spool_def)
  show ?thesis
    unfolding adopt_for_write_def
    by (intro mtp_choice mtp_intros mtp_step.keeps_if copy mtp_modify mtp_insert mtp_pure) simp
qed

lemma mtp_open: "keeps (same_mtp g) (op_open S H path fi)"
  unfolding op_open_def Let_def
  by (intro mtp_choice mtp_intros mtp_resolved mtp_adopt mtp_pure) simp

lemma mtp_create: "keeps (same_mtp g) (op_create S H path fi)"
  unfolding op_create_def
  by (auto simp del: ok_apply err_apply split: prod.split
      intro!: mtp_intros mtp_resolved mtp_modify mtp_insert)

lemma mtp_write: "keeps (same_mtp g) (op_write H path bs offset)"
  by (rule keepsI)
     (auto simp: op_write_def break_pending_def same_mtp_def Let_def split: option.splits prod.splits sum.splits if_splits)

lemma mtp_device_free: "keeps (same_mtp g) (device_free S)"
  unfolding device_free_def by (auto simp del: ok_apply intro!: mtp_intros mtp_calls split: prod.split)

lemma mtp_make_room: "keeps (same_mtp g) (make_room S p)"
proof -
  have "keeps (same_mtp g) (and_then (device_free S) (\<lambda>free.
      if pn_size p \<le> free then
        and_then (aside_name (pn_name p)) (\<lambda>aside.
        and_then (or_fail EIO (on_mtp (sv_rename S old aside))) (\<lambda>_. ok (p, True)))
      else if pn_size p \<le> min u64_max (free + old_size) then
        and_then (or_fail EIO (on_mtp (sv_delete S old))) (\<lambda>_.
        ok (p\<lparr>pn_replaces := None\<rparr>, False))
      else err (- ENOSPC)))" for old old_size
    by (intro mtp_intros mtp_step.keeps_if mtp_device_free mtp_calls)
  then show ?thesis
    by (auto simp: make_room_def keeps_def same_mtp_def Let_def split: option.split)
qed

lemma mtp_call_state:
  "on_mtp (sv_delete S old) fs = (r, fs') \<Longrightarrow> g (fs_mtp fs') = g (fs_mtp fs)"
  "on_mtp (sv_rename S old name) fs = (r', fs') \<Longrightarrow> g (fs_mtp fs') = g (fs_mtp fs)"
  using keepsD [OF mtp_calls(7)] keepsD [OF mtp_calls(5)] by (simp_all add: same_mtp_def)

lemma mtp_call_after:
  "g (fs_mtp (snd (on_mtp (sv_delete S old) fs))) = g (fs_mtp fs)"
  "g (fs_mtp (snd (on_mtp (sv_rename S old name) fs))) = g (fs_mtp fs)"
  using mtp_call_state by (metis prod.collapse)+

lemma mtp_stream: "g (fs_mtp (snd (stream_spool S H p fs))) = g (fs_mtp fs)"
  using steady_send_stream [of "ho_read H (pn_spool p)" "pn_parent p" "pn_name p" "pn_size p" "fs_mtp fs" "fs_host fs"]
  by (auto simp: stream_spool_def split: prod.split)

lemma mtp_finish: "g (fs_mtp (snd (finish_send S p ex answer fs))) = g (fs_mtp fs)"
  by (auto simp: finish_send_def Let_def mtp_call_after split: sum.split option.split)

lemma mtp_send: "g (fs_mtp (snd (send_pending S H p fs))) = g (fs_mtp fs)"
proof (cases "pn_broken p")
  case None
  obtain a fs1 where a: "or_fail EIO (on_host (ho_rewind H (pn_spool p))) fs = (a, fs1)" by fastforce
  obtain b fs2 where b: "make_room S p fs1 = (b, fs2)" by fastforce
  have "g (fs_mtp fs1) = g (fs_mtp fs)" "g (fs_mtp fs2) = g (fs_mtp fs1)"
    using keepsD [OF mtp_or_fail [OF mtp_on_host] a] keepsD [OF mtp_make_room b] by (simp_all add: same_mtp_def)
  moreover have "g (fs_mtp (snd (case stream_spool S H q fs2 of (answer, fs3) \<Rightarrow> finish_send S q ex answer fs3))) = g (fs_mtp fs2)" for q ex
    using mtp_stream [of H q fs2] mtp_finish by (auto split: prod.split)
  ultimately show ?thesis using None a b by (auto simp: send_pending_def split: sum.split)
qed (simp add: send_pending_def)

lemma mtp_sent: "send_pending S H p fs = (x, fs') \<Longrightarrow> g (fs_mtp fs') = g (fs_mtp fs)"
  using mtp_send [of H p fs] by simp

lemma mtp_flush: "g (fs_mtp (snd (op_flush S H path fi fs))) = g (fs_mtp fs)"
  by (auto simp: op_flush_def mtp_insert mtp_remove dest: mtp_sent split: option.split prod.split)

lemma mtp_release: "g (fs_mtp (snd (op_release S H path fi fs))) = g (fs_mtp fs)"
  by (auto simp: op_release_def mtp_drop mtp_remove dest: mtp_sent split: option.split prod.split)

lemma mtp_set_len: "keeps (same_mtp g) (set_pending_len H path p sz)"
  unfolding set_pending_len_def by (intro mtp_intros mtp_modify) simp

lemma mtp_truncate: "g (fs_mtp (snd (op_truncate S H path sz fs))) = g (fs_mtp fs)"
proof -
  have adopt: "keeps (same_mtp g) (and_then (resolved S path) (\<lambda>handle.
      and_then (file_entry handle) (\<lambda>entry. adopt_for_write S H path handle entry (0 < sz))))"
    by (intro mtp_intros mtp_resolved mtp_adopt)
  have steps: "set_pending_len H path p sz fs1 = (r, fs2) \<Longrightarrow> g (fs_mtp fs2) = g (fs_mtp fs1)" for p fs1 r fs2
    using keepsD [OF mtp_set_len] by (simp add: same_mtp_def)
  show ?thesis
    by (auto simp: op_truncate_def mtp_drop mtp_remove
        dest!: keepsD [OF adopt, unfolded same_mtp_def] steps mtp_sent split: option.split prod.split sum.split)
qed

lemma mtp_move_aside: "keeps (same_mtp g) (move_aside S to handle new_parent new_name)"
proof -
  have aside: "keeps (same_mtp g) (and_then (aside_name new_name) (\<lambda>aside.
      and_then (or_fail EIO (on_mtp (sv_rename S taken aside))) (\<lambda>_.
      and_then (forget new_parent) (\<lambda>_. ok (Some (Some taken))))))" for taken
    by (intro mtp_intros mtp_calls)
  show ?thesis
    by (rule keepsI)
       (use mtp_resolve in \<open>auto simp: move_aside_def same_mtp_def
         dest!: keepsD [OF aside, unfolded same_mtp_def] split: prod.splits option.splits if_splits\<close>,
        (metis snd_conv)+)
qed

lemma mtp_move_to: "keeps (same_mtp g) (move_to_folder S handle old_parent new_parent)"
  unfolding move_to_folder_def
  by (intro mtp_step.keeps_if mtp_step.keeps_ok mtp_choice mtp_or_fail mtp_calls mtp_pure) simp

lemma mtp_take_name: "keeps (same_mtp g) (take_name S handle new_parent new_name moved_aside)"
  by (rule keepsI)
     (auto simp: take_name_def Let_def same_mtp_def mtp_call_after dest!: mtp_call_state
       split: if_splits prod.splits sum.splits option.splits)

lemma mtp_rename: "keeps (same_mtp g) (op_rename S from to)"
  unfolding op_rename_def Let_def
  by (auto simp del: ok_apply err_apply split: option.split
      intro!: mtp_intros mtp_resolved mtp_move_aside mtp_move_to mtp_take_name mtp_calls)

lemma mtp_remove_object: "keeps (same_mtp g) (remove_object S path want_dir)"
  unfolding remove_object_def
  by (intro mtp_intros mtp_resolved mtp_choice mtp_cases mtp_calls mtp_pure) simp_all

lemma mtp_mkdir: "keeps (same_mtp g) (op_mkdir S path)"
  unfolding op_mkdir_def
  by (auto simp del: ok_apply err_apply split: prod.split intro!: mtp_intros mtp_resolved mtp_calls)

lemma mtp_read: "keeps (same_mtp g) (op_read S H path sz offset fi)"
proof -
  have handle: "keeps (same_mtp g) (case fi of
      Some fh \<Rightarrow> if fh_handle fh \<noteq> 0 then ok (fh_handle fh) else resolved S path | None \<Rightarrow> resolved S path)"
    by (auto simp del: ok_apply split: option.split intro: mtp_resolved mtp_step.keeps_ok)
  show ?thesis
    unfolding op_read_def Let_def
    by (intro mtp_cases mtp_choice mtp_step.keeps_and_then handle mtp_or_fail mtp_on_host mtp_calls
        mtp_step.keeps_ok mtp_pure) simp_all
qed

lemma mtp_serve: "g (fs_mtp (serve S H call fs)) = g (fs_mtp fs)"
  by (cases call)
       (simp_all add: mtp_run [OF mtp_getattr] mtp_run [OF mtp_readdir] mtp_run [OF mtp_statfs] mtp_run [OF mtp_open]
         mtp_run [OF mtp_create] mtp_run [OF mtp_write] mtp_run [OF mtp_remove_object] mtp_run [OF mtp_mkdir]
         mtp_run [OF mtp_rename] mtp_run [OF mtp_read] mtp_flush mtp_release mtp_truncate op_utimens_def op_chmod_def op_chown_def
         op_unlink_def op_rmdir_def)

lemma mtp_serve_all: "g (fs_mtp (serve_all S H calls fs)) = g (fs_mtp fs)"
  by (induction calls arbitrary: fs) (simp_all add: serve_all_def mtp_serve)

end

lemma bus_run:
  "keeps (same_bus f) m \<Longrightarrow> f (ses_device (mt_session (snd (m t)))) = f (ses_device (mt_session t))"
  "keeps (same_bus2 f) k \<Longrightarrow> f (ses_device (mt_session (fst (snd (k (t, w)))))) = f (ses_device (mt_session t))"
  by (simp_all add: keeps_def same_bus_def same_bus2_def)

sublocale steady_transport \<subseteq> service: steady_service "mtp_service T" "\<lambda>t. f (ses_device (mt_session t))"
  by unfold_locales
     (simp_all add: mtp_service_def bus_run(1) [OF bus_list] bus_run(1) [OF bus_read_at]
       bus_run(1) [OF bus_send_object] bus_run(2) [OF bus_stream] bus_run(1) [OF bus_changes_all(1)]
       bus_run(1) [OF bus_changes_all(2)] bus_run(1) [OF bus_changes_all(3)] bus_run(1) [OF bus_changes_all(4)])

section \<open>Opening, listing and the whole program\<close>

text \<open>A listing opens every device it shows, and closes each when it has its name.\<close>

definition grown :: "held \<Rightarrow> pointer set \<Rightarrow> held \<Rightarrow> bool" where
  "grown h A h' \<longleftrightarrow> (\<exists>D. h' = h\<lparr>h_devices := D\<rparr> \<and> D \<subseteq> h_devices h \<union> A)"

lemma grown_refl: "grown h A h"
  unfolding grown_def by (rule exI [of _ "h_devices h"]) simp

lemma grown_devices: "D \<subseteq> h_devices h \<union> A \<Longrightarrow> grown h A (h\<lparr>h_devices := D\<rparr>)"
  unfolding grown_def by blast

lemma grown_trans: "grown h A h1 \<Longrightarrow> grown h1 B h2 \<Longrightarrow> grown h (A \<union> B) h2"
  unfolding grown_def by fastforce

context held_library
begin

lemma held_find_patience:
  assumes none: "h_devices (held_by d) = {}" and run: "find_with_patience L be want s d = (r, d')"
  shows "held_by d' = holding (held_by d) r"
proof -
  have "h_devices (held_by d) = {} \<Longrightarrow> find_attempts L be want s k d = (r, d') \<Longrightarrow> held_by d' = holding (held_by d) r" for k d
  proof (induction k arbitrary: d)
    case (Suc k)
    obtain x d1 where x: "find_device L be want (st_timeout s) d = (x, d1)" by fastforce
    show ?case
      using held_find [OF Suc.prems(1) x] Suc.prems x Suc.IH [of d1] by (cases x) auto
  qed simp
  then show ?thesis using none run by (simp add: find_with_patience_def)
qed

lemma held_drop_mtp: "held_by (drop_mtp (mtp_transport L m) t) = held_by (ses_device (mt_session t))"
  by (rule session.bus_drop_mtp) (simp add: mtp_transport_def frame_small)

lemma held_close:
  assumes "session_holds held_by B be m (ses_device (mt_session t))"
  shows "held_by (close_mtp L be m t) = backends_only B"
  using held_release [of B be m "drop_mtp (mtp_transport L m) t"] assms
  by (simp add: close_mtp_def session_holds_def held_drop_mtp)

lemma held_open_once:
  assumes none: "held_by d = backends_only B" and run: "open_once L node s d = x"
  shows "case x of
      Inl (e, d') \<Rightarrow> held_by d' = backends_only B
    | Inr (t, be, m) \<Rightarrow> session_holds held_by B be m (ses_device (mt_session t))"
proof (cases "wanted node")
  case (Inl e)
  then show ?thesis using run none by (auto simp: open_once_def)
next
  case want: (Inr w)
  obtain a d1 where a: "backend_new L d = (a, d1)" by fastforce
  show ?thesis
  proof (cases a)
    case (Inl e)
    then show ?thesis using run a want held_new [OF a] none by (auto simp: open_once_def)
  next
    case (Inr be)
    then have be: "be \<notin> B" and d1: "held_by d1 = backends_only (insert be B)"
      using held_new [OF a] none by auto
    obtain b d2 where b: "find_with_patience L be w s d1 = (b, d2)" by fastforce
    have d2: "held_by d2 = holding (held_by d1) b" using held_find_patience [OF _ b] d1 by simp
    show ?thesis
    proof (cases b)
      case None
      then show ?thesis using run a want Inr b be d1 d2 by (auto simp: open_once_def held_free)
    next
      case found: (Some y)
      define dev where "dev = fd_device y"
      define i where "i = mi_interface_number (fd_iface y)"
      define d3 where "d3 = (case kernel_driver_active L dev i d2 of (active, d') \<Rightarrow>
         if active then snd (detach_kernel_driver L dev i d') else d')"
      have d3: "held_by d3 = \<lparr>h_backends = insert be B, h_devices = {dev}, h_transfers = {}\<rparr>"
        using d1 d2 found by (simp add: d3_def frame_small case_prod_beta dev_def)
      obtain c d4 where c: "into_mtp L dev (fd_iface y) BULK_BUFFER d3 = (c, d4)" by fastforce
      note d4 = held_into_mtp [OF be d3 c]
      note run = run [unfolded open_once_def want a Inr b found prod.case sum.case option.case Let_def, folded dev_def,
          folded i_def, folded d3_def, unfolded c prod.case sum.case]
      show ?thesis
      proof (cases c)
        case (Inl e)
        then show ?thesis using run d4 be by (auto simp: held_free)
      next
        case m: (Inr m)
        define cfg where "cfg = normalised \<lparr>cfg_timeout = st_timeout s, cfg_read_buffer = READ_BUFFER,
          cfg_write_chunk = st_write_chunk s, cfg_packet = unat (mi_max_packet_size (fd_iface y))\<rparr>"
        define t0 where "t0 = fresh_mtp s (cfg_packet cfg) (fst (session_new (mtp_transport L m) d4 cfg))"
        obtain q t where q: "negotiate (mtp_transport L m) t0 = (q, t)" by fastforce
        have "held_by (ses_device (mt_session t0)) = held_by d4"
          by (simp add: t0_def fresh_mtp_def session.view_new)
        moreover have "held_by (ses_device (mt_session t)) = held_by (ses_device (mt_session t0))"
          using keepsD [OF session.bus_negotiate q] by (simp add: same_bus_def)
        ultimately have t: "session_holds held_by B be m (ses_device (mt_session t))"
          using d4 m by (simp add: session_holds_def)
        show ?thesis
          using run m q t held_close [OF t] by (auto simp: cfg_def t0_def close_mtp_def split: sum.splits)
      qed
    qed
  qed
qed

lemma held_mtp_open:
  assumes "held_by d = backends_only B"
  shows "case mtp_open L node s d of
      Inl (e, d') \<Rightarrow> held_by d' = backends_only B
    | Inr (t, be, m) \<Rightarrow> session_holds held_by B be m (ses_device (mt_session t))"
proof -
  have "case open_attempts L node s k prev d of
      Inl (e, d') \<Rightarrow> held_by d' = backends_only B
    | Inr (t, be, m) \<Rightarrow> session_holds held_by B be m (ses_device (mt_session t))"
    if "held_by d = backends_only B" for k prev d
    using that
  proof (induction k arbitrary: prev d)
    case 0
    then show ?case by (simp split: option.split)
  next
    case (Suc k)
    note once = held_open_once [OF Suc.prems refl, of node s]
    show ?case
    proof (cases "open_once L node s d")
      case (Inl x)
      obtain e d' where x: "x = (e, d')" by fastforce
      then have "held_by d' = backends_only B" using once Inl by simp
      then show ?thesis using Suc.IH [of d' "Some e"] Inl x by simp
    next
      case (Inr y)
      then show ?thesis using once by simp
    qed
  qed
  then show ?thesis using assms by (simp add: mtp_open_def)
qed

lemma grown_inspect:
  assumes run: "inspect L dev t d = (r, d')"
  shows "grown (held_by d) (case r of None \<Rightarrow> {} | Some x \<Rightarrow> {fd_device x}) (held_by d')"
proof -
  obtain o1 d1 where o1: "open_device L dev 4 d = (o1, d1)" by fastforce
  show ?thesis
  proof (cases o1)
    case (Inl e)
    then show ?thesis using run o1 held_open [OF o1] by (auto simp: inspect_def grown_refl split: prod.splits)
  next
    case (Inr dv)
    then have dv: "dv = dev" and d1: "held_by d1 = (held_by d)\<lparr>h_devices := insert dev (h_devices (held_by d))\<rparr>"
      using held_open [OF o1] by auto
    have names: "held_by d3 = held_by d2" if "read_names L dev xs d2 = (names, d3)" for xs names d2 d3
      using that frame_names by (metis snd_conv)
    show ?thesis
      using run o1 Inr dv d1
      by (auto simp: inspect_def held_drop dest!: held_raw names split: prod.splits sum.splits
          intro!: grown_devices)
  qed
qed

lemma grown_list_in:
  "list_in L t hs d = (fs, d') \<Longrightarrow> grown (held_by d) (fd_device ` set fs) (held_by d')"
proof (induction hs arbitrary: d fs d')
  case Nil
  then show ?case by (simp add: grown_refl)
next
  case (Cons h hs)
  obtain r d1 where r: "inspect L h t d = (r, d1)" by fastforce
  obtain gs d2 where gs: "list_in L t hs d1 = (gs, d2)" by fastforce
  have "grown (held_by d) ((case r of None \<Rightarrow> {} | Some x \<Rightarrow> {fd_device x}) \<union> fd_device ` set gs) (held_by d2)"
    using grown_inspect [OF r] Cons.IH [OF gs] by (rule grown_trans)
  then show ?case using Cons.prems r gs by (auto split: option.splits)
qed

lemma held_found_name: "held_by (snd (found_name L x d)) = held_by d"
  by (simp add: found_name_def case_prod_beta frame_string)

lemma held_entries:
  "held_by (snd (entries_of L fs d)) = (held_by d)\<lparr>h_devices := h_devices (held_by d) - fd_device ` set fs\<rparr>"
proof (induction fs arbitrary: d)
  case (Cons x fs)
  have "D - {fd_device x} - A = D - insert (fd_device x) A" for D A :: "pointer set" by blast
  then show ?case by (simp add: case_prod_beta Cons.IH held_drop held_found_name)
qed simp

lemma held_list_devices:
  assumes none: "held_by d = backends_only B"
  shows "held_by (snd (mtp_list_devices L s d)) = backends_only B"
proof (cases "backend_new L d")
  case (Pair a d1)
  show ?thesis
  proof (cases a)
    case (Inl e)
    then show ?thesis using Pair held_new [OF Pair] none by (auto simp: mtp_list_devices_def)
  next
    case (Inr be)
    then have be: "be \<notin> B" and d1: "held_by d1 = backends_only (insert be B)"
      using held_new [OF Pair] none by auto
    obtain hs d2 where hs: "devices L be d1 = (hs, d2)" by fastforce
    then have d2: "held_by d2 = held_by d1" using frame_devices by (metis snd_conv)
    obtain fs d3 where fs: "list_in L (st_timeout s) hs d2 = (fs, d3)" by fastforce
    have "held_by (snd (entries_of L fs d3)) = backends_only (insert be B)"
      using grown_list_in [OF fs] d1 d2 by (auto simp: held_entries grown_def)
    then show ?thesis
      using Pair Inr be hs fs
      by (auto simp: mtp_list_devices_def list_devices_def held_free split: prod.split)
  qed
qed

lemma held_print_name:
  assumes "held_by d = backends_only B"
  shows "held_by (snd (print_name L s node d)) = backends_only B"
  using held_mtp_open [OF assms, of node s] held_close
  by (auto simp: print_name_def split: sum.splits prod.splits)

lemma held_mount:
  assumes "session_holds held_by B be m (ses_device (mt_session t))"
  shows "held_by (fst (unmount L H be m (serve_all (mtp_service (mtp_transport L m)) H calls (new_mount t h)))) = backends_only B"
proof -
  let ?fs = "serve_all (mtp_service (mtp_transport L m)) H calls (new_mount t h)"
  have "held_by (ses_device (mt_session (fs_mtp ?fs))) = held_by (ses_device (mt_session t))"
    by (subst session.service.mtp_serve_all) (simp add: new_mount_def)
  then have "session_holds held_by B be m (ses_device (mt_session (fs_mtp ?fs)))"
    using assms by (simp add: session_holds_def)
  then show ?thesis by (simp add: unmount_def held_close)
qed

lemma held_main:
  assumes none: "held_by d = backends_only B"
  shows "held_by (fst (snd (mtpfs_main L H env fuse args d h))) = backends_only B"
proof -
  let ?s = "settings_from_env env"
  have list: "mtp_list_devices L ?s d = (r, d') \<Longrightarrow> held_by d' = backends_only B" for r d'
    using held_list_devices [OF none, of ?s] by simp
  have nm: "print_name L ?s node d = (r, d') \<Longrightarrow> held_by d' = backends_only B" for node r d'
    using held_print_name [OF none, of ?s node] by simp
  have mount: "held_by (fst (snd (case mtp_open L node ?s d of
       Inl (e, d') \<Rightarrow> (False, d', h)
     | Inr (t, be, m) \<Rightarrow> (case fuse (fuse_argv dir fargs) of (calls, rc) \<Rightarrow>
         let fs = serve_all (mtp_service (mtp_transport L m)) H calls (new_mount t h)
         in (rc = 0, unmount L H be m fs))))) = backends_only B" for node dir fargs
    using held_mtp_open [OF none, of node ?s] held_mount
    by (auto simp: Let_def split: sum.split prod.split)
  show ?thesis
    using none mount
    by (auto simp: mtpfs_main_def Let_def dest: list nm split: invocation.split prod.split sum.split)
qed

end

section \<open>The properties\<close>

text \<open>
  C9: whatever the command line, the requests FUSE makes and the answers of the devices and of the
  host, the filesystem program ends with no backend allocated, no device open and no transfer open.
\<close>

theorem mtpfs_main_releases:
  assumes "tracks_library L held_by" and "held_by d = nothing_held"
    and "mtpfs_main L H env fuse args d h = (success, (d', h'))"
  shows "held_by d' = nothing_held"
  using held_library.held_main [OF held_library.intro [OF assms(1)], of d "{}" H env fuse args h] assms(2,3)
  by (simp add: nothing_held_def)

lemma mtpfs_main_releases_witness:
  "fst (snd (mtpfs_main held_bus disk_host (\<lambda>_. None) (\<lambda>_. ([], 0)) [lit ''ugen0.11'', lit ''/mnt''] nothing_held \<lparr>dk_files = Map.empty, dk_room = 9\<rparr>)) = nothing_held"
proof -
  obtain b d' h' where run: "mtpfs_main held_bus disk_host (\<lambda>_. None) (\<lambda>_. ([], 0)) [lit ''ugen0.11'', lit ''/mnt''] nothing_held \<lparr>dk_files = Map.empty, dk_room = 9\<rparr> = (b, (d', h'))"
    by (cases "mtpfs_main held_bus disk_host (\<lambda>_. None) (\<lambda>_. ([], 0)) [lit ''ugen0.11'', lit ''/mnt''] nothing_held \<lparr>dk_files = Map.empty, dk_room = 9\<rparr>") auto
  then show ?thesis using mtpfs_main_releases [OF held_bus.tracks refl run] by simp
qed

text \<open>
  Opening a mount either fails and holds nothing, after as many attempts as it made, or holds
  one backend, one device and its two transfers, and closing it gives them all back.
\<close>

theorem mtp_open_holds:
  assumes "tracks_library L held_by" and "held_by d = nothing_held"
  shows "case mtp_open L node s d of
      Inl (e, d') \<Rightarrow> held_by d' = nothing_held
    | Inr (t, be, m) \<Rightarrow>
        held_by (ses_device (mt_session t)) =
          \<lparr>h_backends = {be}, h_devices = {md_device m}, h_transfers = {bc_xfer (md_write m), bc_xfer (md_read m)}\<rparr>
        \<and> held_by (close_mtp L be m t) = nothing_held"
  using held_library.held_mtp_open [OF held_library.intro [OF assms(1)], of d "{}" node s]
    held_library.held_close [OF held_library.intro [OF assms(1)], of "{}"] assms(2)
  by (auto simp: nothing_held_def session_holds_def split: sum.split prod.split)

lemma mtp_open_holds_witness:
  "case mtp_open held_bus None default_settings nothing_held of
      Inl (e, d') \<Rightarrow> d' = nothing_held
    | Inr (t, be, m) \<Rightarrow>
        ses_device (mt_session t) =
          \<lparr>h_backends = {be}, h_devices = {md_device m}, h_transfers = {bc_xfer (md_write m), bc_xfer (md_read m)}\<rparr>
        \<and> close_mtp held_bus be m t = nothing_held"
  by (rule mtp_open_holds [OF held_bus.tracks refl])

end
