(* ===== verification/Mtpfs_Upload.thy ===== *)
theory Mtpfs_Upload
  imports Mtpfs_Send
begin

text \<open>
  A new file, from the close of the program down to the bytes of the endpoint: the two commands, the
  two data phases, and what a device that puts the phases together gets to know.
\<close>

section \<open>What a device puts together\<close>

definition received :: "bytes list \<Rightarrow> bytes option" where
  "received frames =
     (case container_parse (concat frames) of
        Inl e \<Rightarrow> None | Inr c \<Rightarrow> if c_kind c = Data then Some (c_payload c) else None)"

lemma received_frames:
  "config_ok cfg \<Longrightarrow> length payload \<le> MAX_PAYLOAD_LEN \<Longrightarrow>
     received (data_frames cfg (data_header code tid (length payload)) payload) = Some payload"
  using data_frames_container [of cfg payload code tid] by (auto simp: received_def)

definition sent_to :: "fake_device mtp \<Rightarrow> bytes list" where
  "sent_to t = fk_writes (ses_device (mt_session t))"

definition answers_of :: "fake_device mtp \<Rightarrow> answer list" where
  "answers_of t = left_answers (ses_device (mt_session t))"

section \<open>The two operations\<close>

text \<open>The writes of one operation that carries a payload.\<close>

definition operation_writes :: "config \<Rightarrow> u16 \<Rightarrow> u32 \<Rightarrow> u32 list \<Rightarrow> bytes \<Rightarrow> bytes list" where
  "operation_writes cfg code tid params payload =
     build_command code tid params # data_frames cfg (data_header code tid (length payload)) payload"

lemma sending_data_fake:
  assumes "config_ok (ses_config (mt_session t))" and "length payload \<le> MAX_PAYLOAD_LEN"
    and "answers_of t = Bytes (response_bytes RESP_OK tid rps) # later" and "length rps \<le> 5"
  shows "\<exists>t'. sending_data fake_transport nm code params payload t = (Inr rps, t')
    \<and> sent_to t' = sent_to t @ operation_writes (ses_config (mt_session t)) code (ses_transaction (mt_session t)) params payload
    \<and> answers_of t' = later \<and> mt_storage t' = mt_storage t
    \<and> ses_config (mt_session t') = ses_config (mt_session t)
    \<and> ses_transaction (mt_session t') = ses_transaction (mt_session t) + 1"
proof -
  let ?s = "mt_session t"
  have fits: "12 + 4 * length rps \<le> cfg_read_buffer (ses_config ?s)" "12 + 4 * length rps < 2 ^ 32"
    using assms(1,4) by (auto simp: config_ok_def READ_BUFFER_MIN_def)
  obtain g where "operation_with_data fake_transport nm code params payload ?s =
      (Inr \<lparr>o_response_code = RESP_OK, o_data = [], o_response_params = rps, o_reads = 1\<rparr>,
       at_device g (?s\<lparr>ses_transaction := ses_transaction ?s + 1\<rparr>))"
    "\<forall>f. fk_writes (g f) = fk_writes f @ operation_writes (ses_config ?s) code (ses_transaction ?s) params payload
        \<and> left_answers (g f) = drop 1 (left_answers f)"
    using operation_with_data_fake [OF assms(1,2) assms(3) [unfolded answers_of_def] fits, of nm code params]
    unfolding operation_writes_def by blast
  then show ?thesis
    using assms(3)
    by (simp add: sending_data_def on_session_def and_then_def drop_cache_def check_outcome_def outcome_is_ok_def
        modify_def sent_to_def answers_of_def)
qed

lemma send_object_fake:
  assumes ok: "config_ok (ses_config (mt_session t))" and c: "length c \<le> MAX_PAYLOAD_LEN"
    and a: "answers_of t = Bytes (response_bytes RESP_OK tid [st, par, h]) # Bytes (response_bytes RESP_OK tid' []) # later"
  shows "\<exists>t'. send_object fake_transport parent name c False t = (Inr h, t')
    \<and> sent_to t' = sent_to t
      @ operation_writes (ses_config (mt_session t)) SEND_OBJECT_INFO (ses_transaction (mt_session t))
          [mt_storage t, parent_arg parent] (build_for_send (mt_storage t) parent name (word_of_nat (length c)) False)
      @ operation_writes (ses_config (mt_session t)) SEND_OBJECT (ses_transaction (mt_session t) + 1) [] c"
proof -
  let ?info = "build_for_send (mt_storage t) parent name (word_of_nat (length c)) False"
  obtain t1 where t1: "sending_data fake_transport ''SendObjectInfo'' SEND_OBJECT_INFO [mt_storage t, parent_arg parent] ?info t
      = (Inr [st, par, h], t1)"
    and w1: "sent_to t1 = sent_to t @ operation_writes (ses_config (mt_session t)) SEND_OBJECT_INFO
      (ses_transaction (mt_session t)) [mt_storage t, parent_arg parent] ?info"
    and s1: "answers_of t1 = Bytes (response_bytes RESP_OK tid' []) # later"
      "ses_config (mt_session t1) = ses_config (mt_session t)"
      "ses_transaction (mt_session t1) = ses_transaction (mt_session t) + 1"
    using sending_data_fake [OF ok announced_dataset_fits a] by fastforce
  have ok1: "config_ok (ses_config (mt_session t1))" using ok s1(2) by simp
  obtain t2 where t2: "sending_data fake_transport ''SendObject'' SEND_OBJECT [] c t1 = (Inr [], t2)"
    and w2: "sent_to t2 = sent_to t1 @ operation_writes (ses_config (mt_session t1)) SEND_OBJECT
      (ses_transaction (mt_session t1)) [] c"
    using sending_data_fake [OF ok1 c s1(1)] by fastforce
  have "send_object fake_transport parent name c False t = (Inr h, t2)"
    using c t1 t2 by (simp add: send_object_def announce_object_def and_then_def Let_def)
  then show ?thesis using w1 w2 s1(2,3) by simp
qed

section \<open>The property\<close>

text \<open>
  C6: when a program closes a new file, the device gets one SendObjectInfo and one SendObject, under
  transaction numbers that follow each other, and nothing else; the first announces the storage, the
  folder, the name and the size, and the second carries the contents of the spool file, byte for
  byte. The writes of a data phase join into the container; the close then gives success.
\<close>

theorem flush_on_the_wire:
  assumes "fh_writes fi" and "fs_pending fs path = Some p"
    and "pn_sent p = None" "pn_broken p = None" "pn_replaces p = None"
    and "disk_contents (fs_host fs) (pn_spool p) = Some c" and "length c = pn_size p"
    and "config_ok (ses_config (mt_session (fs_mtp fs)))" and "length c \<le> MAX_PAYLOAD_LEN"
    and "valid_ustring (pn_name p)"
    and "answers_of (fs_mtp fs) =
      Bytes (response_bytes RESP_OK tid [st, par, h]) # Bytes (response_bytes RESP_OK tid' []) # later"
  shows "\<exists>fs1 announce body i bs.
      op_flush (mtp_service fake_transport) disk_host path fi fs = (0, fs1)
    \<and> sent_to (fs_mtp fs1) = sent_to (fs_mtp fs)
        @ build_command SEND_OBJECT_INFO (ses_transaction (mt_session (fs_mtp fs)))
            [mt_storage (fs_mtp fs), parent_arg (pn_parent p)] # announce
        @ build_command SEND_OBJECT (ses_transaction (mt_session (fs_mtp fs)) + 1) [] # body
    \<and> received body = Some c
    \<and> received announce = Some bs \<and> object_info_parse bs = Inr i
    \<and> oi_storage_id i = mt_storage (fs_mtp fs) \<and> oi_parent_object i = pn_parent p
    \<and> oi_filename i = wire_string (pn_name p) \<and> unat (oi_compressed_size i) = length c"
proof -
  let ?t = "fs_mtp fs"
  let ?cfg = "ses_config (mt_session ?t)" and ?tid = "ses_transaction (mt_session ?t)"
  let ?info = "build_for_send (mt_storage ?t) (pn_parent p) (pn_name p) (word_of_nat (length c)) False"
  let ?announce = "data_frames ?cfg (data_header SEND_OBJECT_INFO ?tid (length ?info)) ?info"
  let ?body = "data_frames ?cfg (data_header SEND_OBJECT (?tid + 1) (length c)) c"
  obtain m where m: "send_object fake_transport (pn_parent p) (pn_name p) c False ?t = (Inr h, m)"
    and w: "sent_to m = sent_to ?t @ (build_command SEND_OBJECT_INFO ?tid [mt_storage ?t, parent_arg (pn_parent p)] # ?announce)
      @ (build_command SEND_OBJECT (?tid + 1) [] # ?body)"
    using send_object_fake [OF assms(8,9,11)] unfolding operation_writes_def by blast
  obtain fs1 where f: "op_flush (mtp_service fake_transport) disk_host path fi fs = (0, fs1)" "fs_mtp fs1 = m"
    using op_flush_new [OF assms(1-8) m] by auto
  have "unat (word_of_nat (length c) :: u32) = length c"
    using assms(9) by (simp add: unat_of_nat MAX_PAYLOAD_LEN_def u32_max_def HEADER_LEN_def)
  moreover have "received ?announce = Some ?info" "received ?body = Some c"
    using received_frames [OF assms(8)] announced_dataset_fits assms(9) by blast+
  ultimately show ?thesis
    using f w build_for_send_parses [OF assms(10)] by fastforce
qed

lemma flush_on_the_wire_witness:
  "\<exists>fs1 announce body.
      op_flush (mtp_service fake_transport) disk_host sample_path (Some FH_WRITER)
        (sample_fs taking_mtp [sample_path \<mapsto> sample_pending\<lparr>pn_replaces := None\<rparr>]) = (0, fs1)
    \<and> sent_to (fs_mtp fs1) = build_command SEND_OBJECT_INFO 0 [0, 1] # announce @ build_command SEND_OBJECT 1 [] # body
    \<and> received body = Some [7, 8, 9, 6]"
proof -
  let ?p = "sample_pending\<lparr>pn_replaces := None\<rparr>"
  let ?fs = "sample_fs taking_mtp [sample_path \<mapsto> ?p]"
  have t: "config_ok (ses_config (mt_session (fs_mtp ?fs)))" "sent_to (fs_mtp ?fs) = []" "mt_storage (fs_mtp ?fs) = 0"
    "ses_transaction (mt_session (fs_mtp ?fs)) = 0"
    "answers_of (fs_mtp ?fs) = [Bytes (response_bytes RESP_OK 0 [65537, 1, 10]), Bytes (response_bytes RESP_OK 1 [])]"
    by (simp_all add: sample_fs_def taking_mtp_def fresh_mtp_def fake_config_ok answers_of_def sent_to_def)
  have p: "pn_sent ?p = None" "pn_broken ?p = None" "pn_replaces ?p = None" "pn_parent ?p = 1"
    "disk_contents (fs_host ?fs) (pn_spool ?p) = Some [7, 8, 9, 6]" "length [7, 8, 9, 6 :: 8 word] = pn_size ?p"
    "valid_ustring (pn_name ?p)" "fs_pending ?fs sample_path = Some ?p"
    by (simp_all add: sample_fs_def sample_pending_def sample_disk_def disk_contents_def lit_def
        valid_ustring_def is_scalar_def)
  have c: "length [7, 8, 9, 6 :: 8 word] \<le> MAX_PAYLOAD_LEN"
    by (simp add: MAX_PAYLOAD_LEN_def u32_max_def HEADER_LEN_def)
  from flush_on_the_wire [OF writer_writes p(8,1-3,5,6) t(1) c p(7) t(5)]
  show ?thesis by (auto simp: t p parent_arg_def TREE_ROOT_def)
qed

end
