(* ===== verification/Mtpfs_Survive.thy ===== *)
theory Mtpfs_Survive
  imports Mtpfs_Send Mtpfs_Mount
begin

text \<open>
  What is left of a file that is replaced, when its program has closed it: the calls the device
  acknowledged say which contents it has taken and which object it has removed, the spool folder
  says what the host still holds. Nothing is assumed of the device: the service is the one of the
  program, over any transport.
\<close>

section \<open>The room a send makes\<close>

lemma make_room_state:
  assumes old: "pn_replaces p = Some old" and run: "make_room S p fs = (r, fs')"
  shows "fs_host fs' = fs_host fs" and "r = Inl e \<Longrightarrow> e \<noteq> 0"
    and "r = Inr (p1, ex) \<Longrightarrow> p1 = p \<and> (\<exists>aside. fs_mtp fs' = snd (sv_rename S old aside (snd (sv_storage_info S (fs_mtp fs)))))
      \<or> p1 = p\<lparr>pn_replaces := None\<rparr> \<and> fs_mtp fs' = snd (sv_delete S old (snd (sv_storage_info S (fs_mtp fs))))"
proof -
  obtain q m1 where q: "sv_storage_info S (fs_mtp fs) = (q, m1)" by fastforce
  note steps = make_room_asks [OF old q refl refl] aside_name_def next_count_def or_fail_def map_err_def
    and_then_def on_mtp_state errnos
  show "fs_host fs' = fs_host fs" and "r = Inl e \<Longrightarrow> e \<noteq> 0"
    and "r = Inr (p1, ex) \<Longrightarrow> p1 = p \<and> (\<exists>aside. fs_mtp fs' = snd (sv_rename S old aside (snd (sv_storage_info S (fs_mtp fs)))))
      \<or> p1 = p\<lparr>pn_replaces := None\<rparr> \<and> fs_mtp fs' = snd (sv_delete S old (snd (sv_storage_info S (fs_mtp fs))))"
    using run q by (auto simp: steps split: if_splits sum.splits)
qed

lemma setup_storage_space: "keeps same_setup (storage_space T)"
  unfolding storage_space_def be_operation_def
  by (auto simp del: ok_apply intro!: agreed.keeps_intros setup_on_session keeps_operation setup_steps)

lemma setup_rename: "keeps same_setup (rename_object T h name)"
  unfolding rename_object_def sending_data_def
  by (auto simp del: ok_apply intro!: agreed.keeps_intros setup_on_session keeps_operation_with_data setup_steps)

lemma setup_delete: "keeps same_setup (delete_object T h)"
  unfolding delete_object_def operation_that_changes_def
  by (auto simp del: ok_apply intro!: agreed.keeps_intros setup_on_session keeps_operation setup_steps)

lemma setup_config: "keeps same_setup m \<Longrightarrow> ses_config (mt_session (snd (m t))) = ses_config (mt_session t)"
  by (metis keepsD prod.collapse same_setup_def)

lemma traced_states:
  "fst (snd (sv_storage_info (traced (mtp_service T)) s)) = snd (storage_space T (fst s))"
  "fst (snd (sv_rename (traced (mtp_service T)) h name s)) = snd (rename_object T h name (fst s))"
  "fst (snd (sv_delete (traced (mtp_service T)) h s)) = snd (delete_object T h (fst s))"
  by (cases s; simp add: traced_def logged_def mtp_service_def case_prod_beta)+

section \<open>The send\<close>

lemma stream_traced_send:
  assumes "config_ok (ses_config (mt_session (fst (fs_mtp fs))))"
    and "disk_contents (fs_host fs) (pn_spool p) = Some c" "disk_cursor (fs_host fs) (pn_spool p) = 0"
    and "length c = pn_size p"
    and "send_object T (pn_parent p) (pn_name p) c False (fst (fs_mtp fs)) = (x, m)"
    and "stream_spool (traced (mtp_service T)) disk_host p fs = (y, fs')"
  shows "y = x \<and> fst (fs_mtp fs') = m \<and> disk_contents (fs_host fs') = disk_contents (fs_host fs)"
proof -
  have left: "disk_left (pn_spool p) (fs_host fs) = c"
    using assms(2,3) by (auto simp: disk_left_def disk_contents_def disk_cursor_def)
  obtain m0 log where fs: "fs_mtp fs = (m0, log)" by fastforce
  obtain z m' d where z: "send_object_stream T (ho_read disk_host (pn_spool p)) (pn_parent p) (pn_name p)
      (pn_size p) (m0, fs_host fs) = (z, (m', d))"
    by (metis prod.exhaust)
  have "sv_send_stream (mtp_service T) (ho_read disk_host (pn_spool p)) (pn_parent p) (pn_name p) (pn_size p)
      (m0, fs_host fs) = (z, (m', d))"
    using z by (simp add: mtp_service_def)
  note keep = device_mount.stream_reads [OF this]
  have "(z, m') = (x, m)"
    using spool_source.stream_is_send [of m0 T "pn_spool p" "pn_parent p" "pn_name p" "fs_host fs"]
      assms(1,4,5) z fs by (simp add: left)
  then show ?thesis
    using assms(6) z keep fs by (auto simp: stream_spool_def traced_def mtp_service_def)
qed

lemma finish_send_state:
  assumes "finish_send (traced (mtp_service T)) p ex answer fs = ((rc, p'), fs')"
  shows "fs_host fs' = fs_host fs" and "fs_pending fs' = fs_pending fs" and "pn_spool p' = pn_spool p"
    and "rc = 0 \<Longrightarrow> \<exists>k. answer = Inr k"
    and "rc = 0 \<Longrightarrow> fst (fs_mtp fs') = (case pn_replaces p of None \<Rightarrow> fst (fs_mtp fs)
      | Some old \<Rightarrow> snd (delete_object T old (fst (fs_mtp fs))))"
  using assms
  by (auto simp: finish_send_def Let_def on_mtp_def traced_states case_prod_beta EIO_def
      split: sum.splits option.splits)

text \<open>The contents that are sent are those of the spool file, and the spool file keeps them.\<close>

lemma send_pending_contents:
  assumes old: "pn_replaces p = Some old" and unbroken: "pn_broken p = None"
    and c: "disk_contents (fs_host fs) (pn_spool p) = Some c" "length c = pn_size p"
    and conf: "config_ok (ses_config (mt_session (fst (fs_mtp fs))))"
    and run: "send_pending (traced (mtp_service T)) disk_host p fs = ((rc, p'), fs')"
  shows "disk_contents (fs_host fs') (pn_spool p) = Some c"
    and "pn_spool p' = pn_spool p"
    and "rc = 0 \<Longrightarrow> \<exists>m k m'.
         ((\<exists>aside. m = snd (rename_object T old aside (snd (storage_space T (fst (fs_mtp fs))))))
           \<or> m = snd (delete_object T old (snd (storage_space T (fst (fs_mtp fs))))))
       \<and> send_object T (pn_parent p) (pn_name p) c False m = (Inr k, m')
       \<and> fst (fs_mtp fs') \<in> {m', snd (delete_object T old m')}"
proof -
  let ?S = "traced (mtp_service T)"
  obtain fl where fl: "dk_files (fs_host fs) (pn_spool p) = Some fl" using c by (auto simp: disk_contents_def)
  define d0 where "d0 = put_file (pn_spool p) (fl\<lparr>sp_cursor := 0\<rparr>) (dk_room (fs_host fs)) (fs_host fs)"
  have rewind: "ho_rewind disk_host (pn_spool p) (fs_host fs) = (Inr (), d0)"
    using fl by (simp add: disk_host_def with_file_def d0_def)
  have d0: "disk_contents d0 (pn_spool p) = Some c" "disk_cursor d0 (pn_spool p) = 0"
    using spool.rewind_start [OF rewind] c by auto
  define fs1 where "fs1 = fs\<lparr>fs_host := d0\<rparr>"
  obtain x fs2 where x: "make_room ?S p fs1 = (x, fs2)" by fastforce
  have body: "send_pending ?S disk_host p fs = (case x of
        Inl rc \<Rightarrow> ((rc, p), fs2)
      | Inr (p1, ex) \<Rightarrow> (case stream_spool ?S disk_host p1 fs2 of
          (answer, fs3) \<Rightarrow> finish_send ?S p1 ex answer fs3))"
    using unbroken rewind x by (simp add: send_pending_def or_fail_def map_err_def on_host_def fs1_def split: sum.split)
  have all: "disk_contents (fs_host fs') (pn_spool p) = Some c \<and> pn_spool p' = pn_spool p \<and> (rc = 0 \<longrightarrow> (\<exists>m k m'.
         ((\<exists>aside. m = snd (rename_object T old aside (snd (storage_space T (fst (fs_mtp fs))))))
           \<or> m = snd (delete_object T old (snd (storage_space T (fst (fs_mtp fs))))))
       \<and> send_object T (pn_parent p) (pn_name p) c False m = (Inr k, m')
       \<and> fst (fs_mtp fs') \<in> {m', snd (delete_object T old m')}))"
  proof (cases x)
    case (Inl e)
    then show ?thesis using run body make_room_state(1,2) [OF old x] d0 by (simp add: fs1_def)
  next
    case (Inr pe)
    obtain p1 ex where pe: "pe = (p1, ex)" by fastforce
    note room = make_room_state(1) [OF old x] make_room_state(3) [OF old x, of p1 ex]
    define m where "m = fst (fs_mtp fs2)"
    have m: "(p1 = p \<and> (\<exists>aside. m = snd (rename_object T old aside (snd (storage_space T (fst (fs_mtp fs)))))))
      \<or> (pn_replaces p1 = None \<and> m = snd (delete_object T old (snd (storage_space T (fst (fs_mtp fs))))))"
      using room Inr pe by (auto simp: m_def fs1_def traced_states)
    have same: "fs_host fs2 = fs_host fs1" "pn_spool p1 = pn_spool p" "pn_parent p1 = pn_parent p"
      "pn_name p1 = pn_name p" "pn_size p1 = pn_size p"
      using room Inr pe by auto
    have conf2: "config_ok (ses_config (mt_session m))"
      using m conf by (auto simp: setup_config [OF setup_rename] setup_config [OF setup_delete]
          setup_config [OF setup_storage_space])
    obtain y m' where y: "send_object T (pn_parent p) (pn_name p) c False m = (y, m')" by fastforce
    obtain z fs3 where z: "stream_spool ?S disk_host p1 fs2 = (z, fs3)" by fastforce
    have st: "z = y \<and> fst (fs_mtp fs3) = m' \<and> disk_contents (fs_host fs3) = disk_contents (fs_host fs2)"
      by (rule stream_traced_send [OF _ _ _ _ _ z, where c = c])
         (use same conf2 d0 c(2) y in \<open>simp_all add: m_def fs1_def\<close>)
    have fin: "finish_send ?S p1 ex z fs3 = ((rc, p'), fs')" using run body Inr pe z by simp
    note f = finish_send_state [OF fin]
    have "rc = 0 \<Longrightarrow> fst (fs_mtp fs') \<in> {m', snd (delete_object T old m')}"
      using f(5) m st old by auto
    moreover have "rc = 0 \<Longrightarrow> \<exists>k. y = Inr k" using f(4) st by simp
    ultimately show ?thesis using f(1,3) st same d0 m y by (auto simp: fs1_def)
  qed
  then show "disk_contents (fs_host fs') (pn_spool p) = Some c" and "pn_spool p' = pn_spool p"
    and "rc = 0 \<Longrightarrow> \<exists>m k m'.
         ((\<exists>aside. m = snd (rename_object T old aside (snd (storage_space T (fst (fs_mtp fs))))))
           \<or> m = snd (delete_object T old (snd (storage_space T (fst (fs_mtp fs))))))
       \<and> send_object T (pn_parent p) (pn_name p) c False m = (Inr k, m')
       \<and> fst (fs_mtp fs') \<in> {m', snd (delete_object T old m')}"
    by blast+
qed

section \<open>The close of a file that replaces one\<close>

text \<open>A flush that sends, and the release after it, are the send and the drop of its entry.\<close>

lemma flush_release:
  assumes w: "fh_writes fi" and p: "fs_pending fs path = Some p" "pn_sent p = None"
    and sent: "send_pending S H p (remove_pending path fs) = ((rc, p'), fs')"
  shows "\<exists>fs1. op_flush S H path fi fs = (rc, fs1)
    \<and> op_release S H path fi fs1 = (0, drop_pending H (p'\<lparr>pn_sent := Some rc\<rparr>) fs')"
proof -
  have gone: "fs_pending fs' path = None" using send_pending_frame [OF sent] by (simp add: remove_pending_def)
  then have "remove_pending path (insert_pending H path (p'\<lparr>pn_sent := Some rc\<rparr>) fs') = fs'"
    by (simp add: insert_pending_def remove_pending_def fun_upd_idem)
  moreover have "op_flush S H path fi fs = (rc, insert_pending H path (p'\<lparr>pn_sent := Some rc\<rparr>) fs')"
    using w p sent by (simp add: op_flush_def)
  moreover have "fs_pending (insert_pending H path (p'\<lparr>pn_sent := Some rc\<rparr>) fs') path = Some (p'\<lparr>pn_sent := Some rc\<rparr>)"
    using gone by (simp add: insert_pending_def)
  ultimately show ?thesis using w by (simp add: op_release_def)
qed

lemma drop_pending_log: "log_of (drop_pending H p fs) = log_of fs" "fs_mtp (drop_pending H p fs) = fs_mtp fs"
  by (simp_all add: drop_pending_def log_of_def)

lemma send_protocol_failed:
  assumes "send_protocol p rc keep evs" and "rc \<noteq> 0" and "pn_replaces p = Some old"
  shows "keep \<or> (\<forall>k b. Deleted k b \<notin> set evs)
    \<or> (\<exists>free. evs = [Space (Some free), Deleted old False] \<and> free < pn_size p)"
  using assms by (cases rule: send_protocol.cases) auto

text \<open>
  C2: a program closes a file that replaces one on the device, over any transport. When the close
  gives success, a send of exactly the contents of the spool file was acknowledged by the device,
  after which nothing was asked of it but the removal of the old object. When it gives a fault,
  then the spool file is still there with those contents when the file is released, or no object
  was asked to go, or the removal was the last thing asked, for two copies did not fit, and the
  device did not acknowledge it.
\<close>

theorem replaced_contents_survive:
  assumes "fh_writes fi" and "fs_pending fs path = Some p"
    and "pn_sent p = None" "pn_broken p = None" "pn_replaces p = Some old"
    and "disk_contents (fs_host fs) (pn_spool p) = Some c" "length c = pn_size p" "pn_size p \<le> u64_max"
    and "config_ok (ses_config (mt_session (fst (fs_mtp fs))))"
    and "op_flush (traced (mtp_service T)) disk_host path fi fs = (rc, fs1)"
    and "op_release (traced (mtp_service T)) disk_host path fi fs1 = (z, fs2)"
  shows "if rc = 0 then
      \<exists>m k m'.
         ((\<exists>aside. m = snd (rename_object T old aside (snd (storage_space T (fst (fs_mtp fs))))))
           \<or> m = snd (delete_object T old (snd (storage_space T (fst (fs_mtp fs))))))
       \<and> send_object T (pn_parent p) (pn_name p) c False m = (Inr k, m')
       \<and> fst (fs_mtp fs2) \<in> {m', snd (delete_object T old m')}
    else
      \<exists>evs. log_of fs2 = log_of fs @ evs
       \<and> (disk_contents (fs_host fs2) (pn_spool p) = Some c
          \<or> (\<forall>k b. Deleted k b \<notin> set evs)
          \<or> (\<exists>free. evs = [Space (Some free), Deleted old False] \<and> free < pn_size p))"
proof -
  let ?S = "traced (mtp_service T)" and ?fs = "remove_pending path fs"
  obtain rc' p' fs' where run: "send_pending ?S disk_host p ?fs = ((rc', p'), fs')" by (metis prod.exhaust)
  have rc: "rc' = rc" and fs2: "fs2 = drop_pending disk_host (p'\<lparr>pn_sent := Some rc\<rparr>) fs'"
    using flush_release [OF assms(1-3) run] assms(10,11) by auto
  have q: "fs_host ?fs = fs_host fs" "fs_mtp ?fs = fs_mtp fs" "log_of ?fs = log_of fs"
    by (simp_all add: remove_pending_def log_of_def)
  note sent = send_pending_contents [OF assms(5,4) _ assms(7) _ run, unfolded q rc, OF assms(6,9)]
  show ?thesis
  proof (cases "rc = 0")
    case True
    then show ?thesis using sent(3) by (simp add: fs2 drop_pending_log)
  next
    case False
    obtain evs keep where l: "log_of fs' = log_of fs @ evs" "send_protocol p rc keep evs"
        "pn_keep_spool p' = (pn_keep_spool p \<or> keep)"
      using send_pending_log [OF assms(8) run] q rc by auto
    have "keep \<Longrightarrow> disk_contents (fs_host fs2) (pn_spool p) = Some c"
      using sent(1) l(3) by (simp add: fs2 drop_pending_def)
    then show ?thesis
      using l(1) False send_protocol_failed [OF l(2) False assms(5)] by (auto simp: fs2 drop_pending_log)
  qed
qed


text \<open>A device that tells nothing of its room, takes the name, the object and its bytes, and goes.\<close>

definition replacing_mtp :: "fake_device mtp" where
  "replacing_mtp = fresh_mtp default_settings 512 (fake_session
     [Bytes (response_bytes RESP_OK 0 []), Bytes (response_bytes RESP_OK 1 []),
      Bytes (response_bytes RESP_OK 2 [65537, 1, 10]), Bytes (response_bytes RESP_OK 3 [])])"

lemma answered_storage_unknown:
  assumes "answers_left (Bytes (response_bytes RESP_OK i []) # as) (mt_session t)"
  shows "\<exists>e m. storage_space fake_transport t = (Inl e, m) \<and> answers_left as (mt_session m)"
proof -
  obtain s where "operation fake_transport ''GetStorageInfo'' GET_STORAGE_INFO [mt_storage t] (mt_session t) =
      (Inr \<lparr>o_response_code = RESP_OK, o_data = [], o_response_params = [], o_reads = 1\<rparr>, s)" "answers_left as s"
    using answered_operation [OF assms] by fastforce
  moreover have "\<exists>e. storage_info_parse [] = Inl e"
    by (simp add: storage_info_parse_def storage_info_rd_def new_reader_def and_then_def read_u16_def take_bytes_def remaining_def)
  ultimately show ?thesis
    by (auto simp: storage_space_def be_operation_def on_session_def and_then_def check_outcome_def outcome_is_ok_def
        map_err_def)
qed

lemma answered_rename:
  assumes "answers_left (Bytes (response_bytes RESP_OK i []) # as) (mt_session t)"
  shows "\<exists>m. rename_object fake_transport h name t = (Inr (), m) \<and> answers_left as (mt_session m)"
proof -
  have "length (push_string [] name) \<le> MAX_PAYLOAD_LEN"
    using length_push_string [of "[]" name] by (simp add: MAX_PAYLOAD_LEN_def u32_max_def HEADER_LEN_def)
  from answered_operation_with_data [OF assms _ this]
  obtain s where "operation_with_data fake_transport ''SetObjectPropValue'' SET_OBJECT_PROP_VALUE
      [h, ucast PROP_OBJECT_FILE_NAME] (push_string [] name) (mt_session t) =
      (Inr \<lparr>o_response_code = RESP_OK, o_data = [], o_response_params = [], o_reads = 1\<rparr>, s)" "answers_left as s"
    by fastforce
  then show ?thesis
    by (simp add: rename_object_def sending_data_def on_session_def and_then_def
        drop_cache_def check_outcome_def outcome_is_ok_def)
qed

lemma four_fit: "length [7, 8, 9, 6 :: 8 word] \<le> MAX_PAYLOAD_LEN"
  by (simp add: MAX_PAYLOAD_LEN_def u32_max_def HEADER_LEN_def)

lemma replacing_mtp_runs:
  "\<exists>p' fs'. send_pending (traced (mtp_service fake_transport)) disk_host sample_pending
     (sample_fs (replacing_mtp, []) Map.empty) = ((0, p'), fs')"
proof -
  let ?S = "traced (mtp_service fake_transport) :: (fake_device mtp \<times> event list, disk) service"
  have start: "answers_left [Bytes (response_bytes RESP_OK 0 []), Bytes (response_bytes RESP_OK 1 []),
      Bytes (response_bytes RESP_OK 2 [65537, 1, 10]), Bytes (response_bytes RESP_OK 3 [])] (mt_session replacing_mtp)"
    by (simp add: replacing_mtp_def fresh_mtp_def answers_left_session)
  from answered_storage_unknown [OF this] obtain e m1 where m1: "storage_space fake_transport replacing_mtp = (Inl e, m1)"
    "answers_left [Bytes (response_bytes RESP_OK 1 []), Bytes (response_bytes RESP_OK 2 [65537, 1, 10]),
      Bytes (response_bytes RESP_OK 3 [])] (mt_session m1)"
    by blast
  define aside where "aside = lit ''a.jpg'' @ lit ''.bsdroid-old-'' @ decimal (unat (5 :: u64))"
  from answered_rename [OF m1(2)] obtain m2 where m2: "rename_object fake_transport 2 aside m1 = (Inr (), m2)"
    "answers_left [Bytes (response_bytes RESP_OK 2 [65537, 1, 10]), Bytes (response_bytes RESP_OK 3 [])] (mt_session m2)"
    by blast
  from answered_send [OF m2(2)] obtain m3 where m3: "send_object fake_transport 1 (lit ''a.jpg'') [7, 8, 9, 6] False m2 = (Inr 10, m3)"
    using that by (metis four_fit)
  let ?fs = "sample_fs (replacing_mtp, []) Map.empty
    \<lparr>fs_host := \<lparr>dk_files = [4 \<mapsto> \<lparr>sp_data = [7, 8, 9, 6], sp_cursor = 0\<rparr>], dk_room = 1000\<rparr>\<rparr>"
  have rewind: "or_fail EIO (on_host (ho_rewind disk_host 4)) (sample_fs (replacing_mtp, [] :: event list) Map.empty) = (Inr (), ?fs)"
    by (simp add: or_fail_def map_err_def on_host_def sample_fs_def sample_disk_def sample_disk_calls)
  have old: "pn_replaces sample_pending = Some 2" by (simp add: sample_pending_def)
  have q: "sv_storage_info ?S (fs_mtp ?fs) = (Inl e, (m1, [Space None]))"
    using m1(1) by (simp add: sample_fs_def traced_def logged_def mtp_service_def space_event_def)
  obtain fs2 where fs2: "make_room ?S sample_pending ?fs = (Inr (sample_pending, True), fs2)"
    "fst (fs_mtp fs2) = m2" "fs_host fs2 = fs_host ?fs"
    using m2(1) unfolding make_room_asks [OF old q refl refl]
    by (simp add: sample_pending_def sample_fs_def u64_max_def aside_name_def next_count_def or_fail_def map_err_def
        and_then_def on_mtp_state traced_def logged_def mtp_service_def aside_def)
  obtain y fs3 where y: "stream_spool ?S disk_host sample_pending fs2 = (y, fs3)" by fastforce
  have "y = Inr 10"
    using stream_traced_send [OF _ _ _ _ _ y, of "[7, 8, 9, 6]" "Inr 10" m3] m2(2) m3 fs2
    by (simp add: answers_left_def disk_contents_def disk_cursor_def sample_pending_def)
  moreover have "pn_broken sample_pending = None" "pn_spool sample_pending = 4" by (simp_all add: sample_pending_def)
  ultimately have "send_pending ?S disk_host sample_pending (sample_fs (replacing_mtp, []) Map.empty)
      = finish_send ?S sample_pending True (Inr 10) fs3"
    using rewind fs2(1) y by (simp add: send_pending_def)
  then show ?thesis by (simp add: finish_send_def Let_def)
qed

lemma replaced_contents_survive_witness:
  "\<exists>fs1 fs2 k m m'. op_flush (traced (mtp_service fake_transport)) disk_host sample_path (Some FH_WRITER)
      (sample_fs (replacing_mtp, []) [sample_path \<mapsto> sample_pending]) = (0, fs1)
    \<and> op_release (traced (mtp_service fake_transport)) disk_host sample_path (Some FH_WRITER) fs1 = (0, fs2)
    \<and> send_object fake_transport 1 (lit ''a.jpg'') [7, 8, 9, 6] False m = (Inr k, m')
    \<and> fst (fs_mtp fs2) \<in> {m', snd (delete_object fake_transport 2 m')}"
proof -
  let ?fs = "sample_fs (replacing_mtp, [] :: event list) [sample_path \<mapsto> sample_pending]"
  have p: "fs_pending ?fs sample_path = Some sample_pending" "pn_sent sample_pending = None"
    "pn_broken sample_pending = None" "pn_replaces sample_pending = Some 2"
    "disk_contents (fs_host ?fs) (pn_spool sample_pending) = Some [7, 8, 9, 6]"
    "length [7, 8, 9, 6 :: 8 word] = pn_size sample_pending" "pn_size sample_pending \<le> u64_max"
    by (simp_all add: sample_fs_def sample_pending_def sample_disk_def disk_contents_def u64_max_def)
  have conf: "config_ok (ses_config (mt_session (fst (fs_mtp ?fs))))"
    by (simp add: sample_fs_def replacing_mtp_def fresh_mtp_def fake_config_ok)
  have "remove_pending sample_path ?fs = sample_fs (replacing_mtp, []) Map.empty"
    by (simp add: remove_pending_def sample_fs_def)
  then obtain fs1 fs2 where runs:
    "op_flush (traced (mtp_service fake_transport)) disk_host sample_path (Some FH_WRITER) ?fs = (0, fs1)"
    "op_release (traced (mtp_service fake_transport)) disk_host sample_path (Some FH_WRITER) fs1 = (0, fs2)"
    using replacing_mtp_runs flush_release [OF writer_writes p(1,2)] by metis
  from replaced_contents_survive [OF writer_writes p conf runs] runs
  show ?thesis by (simp add: sample_pending_def) blast
qed

section \<open>A removal whose answer is lost\<close>

text \<open>
  C39: two copies do not fit on the device, so the old object is asked to go first, and the device
  gives no good answer to that. The close gives EIO and nothing is sent; the release then takes
  away the spool file. Whether or not the device removed the object before its answer was lost, the
  new contents are gone from the host: when it did, no copy of the file is left anywhere.
\<close>

theorem lost_delete_loses_both:
  assumes w: "fh_writes fi" and p: "fs_pending fs path = Some p" "pn_sent p = None"
    and "pn_broken p = None" and old: "pn_replaces p = Some old" and "\<not> pn_keep_spool p"
    and c: "disk_contents (fs_host fs) (pn_spool p) = Some c" and fits: "pn_size p \<le> u64_max"
    and space: "sv_storage_info S (fs_mtp fs) = (Inr (full, free), m1)" and "unat free < pn_size p"
    and "tree_get (fs_tree fs) old = Some e" and "pn_size p \<le> unat free + unat (en_size e)"
    and lost: "sv_delete S old m1 = (Inl fault, m2)"
  shows "\<exists>fs1 fs2. op_flush S disk_host path fi fs = (- EIO, fs1)
    \<and> op_release S disk_host path fi fs1 = (0, fs2)
    \<and> fs_mtp fs2 = m2 \<and> disk_contents (fs_host fs2) (pn_spool p) = None \<and> fs_pending fs2 path = None"
proof -
  let ?fs = "remove_pending path fs"
  obtain d where rewind: "ho_rewind disk_host (pn_spool p) (fs_host fs) = (Inr (), d)"
    using c by (auto simp: disk_contents_def disk_host_def with_file_def)
  have r: "fs_mtp (?fs\<lparr>fs_host := d\<rparr>) = fs_mtp fs" "fs_tree (?fs\<lparr>fs_host := d\<rparr>) = fs_tree fs" "fs_host ?fs = fs_host fs"
    by (simp_all add: remove_pending_def)
  have "make_room S p (?fs\<lparr>fs_host := d\<rparr>) = (Inl (- EIO), ?fs\<lparr>fs_host := d, fs_mtp := m2\<rparr>)"
    using make_room_asks [OF old space [folded r(1)] refl refl] assms(10-12) fits lost
    by (simp add: r(2) or_fail_def map_err_def and_then_def on_mtp_state)
  then have "send_pending S disk_host p ?fs = ((- EIO, p), ?fs\<lparr>fs_host := d, fs_mtp := m2\<rparr>)"
    using assms(4) rewind r(3) by (simp add: send_pending_def or_fail_def map_err_def on_host_def)
  from flush_release [OF w p this] show ?thesis
    using assms(6) by (auto simp: drop_pending_def spool.remove_gone remove_pending_def)
qed

text \<open>A device with two bytes of room, whose answer to the removal does not come.\<close>

definition small_storage :: storage_info where
  "small_storage = \<lparr>si_storage_type = 3, si_filesystem_type = 2, si_access_capability = 0, si_max_capacity = 100,
     si_free_space_in_bytes = 2, si_free_space_in_objects = 9, si_storage_description = [], si_volume_identifier = []\<rparr>"

definition losing_mtp :: "fake_device mtp" where
  "losing_mtp = fresh_mtp default_settings 512 (fake_session
     [Bytes (data_header GET_STORAGE_INFO 0 (length (storage_info_bytes small_storage)) @ storage_info_bytes small_storage),
      Bytes (response_bytes RESP_OK 0 []), Fail NoBackend])"

lemma answered_data:
  assumes "answers_left (Bytes (data_header code tid (length payload) @ payload) # Bytes (response_bytes rc rtid []) # as) s"
    and "length payload \<le> 500"
  shows "\<exists>s'. operation fake_transport step op ps s =
      (Inr \<lparr>o_response_code = rc, o_data = payload, o_response_params = [], o_reads = 1\<rparr>, s') \<and> answers_left as s'"
proof -
  have "device_sends (issue op ps s) code tid payload (data_header code tid (length payload) @ payload) [] []
      (Bytes (response_bytes rc rtid []) # as)"
    using assms by (simp add: device_sends_def answers_left_def READ_BUFFER_MIN_def MAX_PAYLOAD_LEN_def u32_max_def
        HEADER_LEN_def)
  from read_answer_transfers [OF this, of step "[]"]
  have "read_answer fake_transport vec_writer step (issue op ps s, []) =
    (Inr \<lparr>so_response_code = rc, so_response_params = [], so_bytes = length payload, so_reads = 1\<rparr>,
     (at_device (after_answers 2) (issue op ps s), payload))"
    using assms by (simp add: answers_left_def) (simp add: numeral_2_eq_2)
  then show ?thesis
    using assms by (simp add: operation_def collecting_def operation_stream_fake answers_left_def numeral_2_eq_2)
qed

lemma answered_fault:
  assumes "answers_left (Fail e # as) s"
  shows "\<exists>fault s'. operation fake_transport step code ps s = (Inl fault, s')"
proof -
  have "\<exists>fault s'. read_once fake_transport step buf (issue code ps s) = (Inl fault, s')" for buf
    using assms by (simp add: read_once_def map_err_def on_device_def fake_transport_def fake_read_left answers_left_def)
  then obtain fault s' where "read_once fake_transport step (replicate (cfg_read_buffer (ses_config s)) 0) (issue code ps s)
      = (Inl fault, s')" by blast
  then show ?thesis
    by (simp add: operation_def collecting_def operation_stream_fake read_answer_def read_answer_with_def and_then_def
        on_fst_def)
qed

lemma losing_mtp_space:
  "\<exists>m. storage_space fake_transport losing_mtp = (Inr (100, 2), m) \<and> answers_left [Fail NoBackend] (mt_session m)"
proof -
  have short: "length (storage_info_bytes small_storage) \<le> 500"
    by (simp add: storage_info_bytes_def small_storage_def push_string_def)
  have "answers_left [Bytes (data_header GET_STORAGE_INFO 0 (length (storage_info_bytes small_storage)) @ storage_info_bytes small_storage),
      Bytes (response_bytes RESP_OK 0 []), Fail NoBackend] (mt_session losing_mtp)"
    by (simp add: losing_mtp_def fresh_mtp_def answers_left_session)
  from answered_data [OF this short] obtain s where
    s: "operation fake_transport ''GetStorageInfo'' GET_STORAGE_INFO [mt_storage losing_mtp] (mt_session losing_mtp) =
      (Inr \<lparr>o_response_code = RESP_OK, o_data = storage_info_bytes small_storage, o_response_params = [], o_reads = 1\<rparr>, s)"
    "answers_left [Fail NoBackend] s" by blast
  have "storage_info_parse (storage_info_bytes small_storage) = Inr small_storage"
    using readsD [OF reads_storage_info [of small_storage], of "[]" "[]"]
    by (simp add: storage_info_parse_def new_reader_def small_storage_def)
  then show ?thesis
    using s by (simp add: storage_space_def be_operation_def on_session_def and_then_def check_outcome_def outcome_is_ok_def
        map_err_def small_storage_def)
qed

lemma losing_mtp_delete:
  assumes "answers_left [Fail NoBackend] (mt_session t)"
  shows "\<exists>fault m. delete_object fake_transport 2 t = (Inl fault, m)
    \<and> fk_writes (ses_device (mt_session m)) = fk_writes (ses_device (mt_session t))
        @ [build_command DELETE_OBJECT (ses_transaction (mt_session t)) [2, 0]]"
proof -
  obtain fault s where s: "operation fake_transport ''DeleteObject'' DELETE_OBJECT [2, 0] (mt_session t) = (Inl fault, s)"
    using answered_fault [OF assms] by blast
  then show ?thesis
    using operation_writes [OF s] by (simp add: delete_object_def operation_that_changes_def on_session_def and_then_def)
qed

text \<open>The removal went out, no answer came, and no copy of the four bytes is left on the host.\<close>

lemma lost_delete_loses_both_witness:
  "\<exists>fs1 fs2 tid ws. op_flush (mtp_service fake_transport) disk_host sample_path (Some FH_WRITER)
      (sample_fs losing_mtp [sample_path \<mapsto> sample_pending]) = (- EIO, fs1)
    \<and> op_release (mtp_service fake_transport) disk_host sample_path (Some FH_WRITER) fs1 = (0, fs2)
    \<and> fk_writes (ses_device (mt_session (fs_mtp fs2))) = ws @ [build_command DELETE_OBJECT tid [2, 0]]
    \<and> disk_contents (fs_host fs2) 4 = None"
proof -
  let ?fs = "sample_fs losing_mtp [sample_path \<mapsto> sample_pending]"
  obtain m1 where m1: "storage_space fake_transport losing_mtp = (Inr (100, 2), m1)" "answers_left [Fail NoBackend] (mt_session m1)"
    using losing_mtp_space by blast
  obtain fault m2 where m2: "delete_object fake_transport 2 m1 = (Inl fault, m2)"
    "fk_writes (ses_device (mt_session m2)) = fk_writes (ses_device (mt_session m1))
        @ [build_command DELETE_OBJECT (ses_transaction (mt_session m1)) [2, 0]]"
    using losing_mtp_delete [OF m1(2)] by blast
  have p: "fs_pending ?fs sample_path = Some sample_pending" "pn_sent sample_pending = None"
    "pn_broken sample_pending = None" "pn_replaces sample_pending = Some 2" "\<not> pn_keep_spool sample_pending"
    "disk_contents (fs_host ?fs) (pn_spool sample_pending) = Some [7, 8, 9, 6]" "pn_size sample_pending \<le> u64_max"
    by (simp_all add: sample_fs_def sample_pending_def sample_disk_def disk_contents_def u64_max_def)
  have calls: "sv_storage_info (mtp_service fake_transport) (fs_mtp ?fs) = (Inr (100, 2), m1)"
    "sv_delete (mtp_service fake_transport) 2 m1 = (Inl fault, m2)"
    using m1(1) m2(1) by (simp_all add: sample_fs_def mtp_service_def)
  have sizes: "unat (2 :: u64) < pn_size sample_pending" "tree_get (fs_tree ?fs) 2 = Some sample_file"
    "pn_size sample_pending \<le> unat (2 :: u64) + unat (en_size sample_file)"
    by (simp_all add: sample_pending_def sample_fs_def tree_get_def sample_tree_get)
  from lost_delete_loses_both [OF writer_writes p calls(1) sizes calls(2)] m2(2)
  show ?thesis by (auto simp: sample_pending_def)
qed

end
