(* ===== verification/Mtpfs_Faults.thy ===== *)
theory Mtpfs_Faults
  imports Mtpfs_Edit Mtpfs_Main
begin

text \<open>
  What is left when the change of a file on the device goes wrong half way: a device that answers
  short while the object is copied, one that fails while it is copied, and a disk that is full when
  a file nobody has open is made longer.
\<close>

section \<open>A copy that stops\<close>

lemma read_from_mount: "sv_read_at S h at n sz (fs_mtp fs) = (x, m) \<Longrightarrow>
    on_mtp (sv_read_at S h at n sz) fs = (x, fs\<lparr>fs_mtp := m\<rparr>)"
  by (simp add: on_mtp_def)

lemma copy_loop_short:
  assumes "dk_files (fs_host fs) n = Some \<lparr>sp_data = [], sp_cursor = 0\<rparr>" and "length data \<le> dk_room (fs_host fs)"
    and "data \<noteq> []" and "length data < sz"
    and "sv_read_at S h 0 (min READ_CHUNK sz) sz (fs_mtp fs) = (Inr data, m1)"
    and "sv_read_at S h (length data) (min READ_CHUNK (sz - length data)) sz m1 = (Inr [], m2)"
  shows "\<exists>fs'. copy_loop S disk_host h sz n 0 fs = (Inr (length data), fs')
    \<and> fs_pending fs' = fs_pending fs \<and> disk_contents (fs_host fs') n = Some data"
proof -
  let ?d = "put_file n \<lparr>sp_data = data, sp_cursor = length data\<rparr> (dk_room (fs_host fs) - length data) (fs_host fs)"
  let ?fs1 = "fs\<lparr>fs_mtp := m1\<rparr>" and ?fs2 = "fs\<lparr>fs_mtp := m1, fs_host := ?d\<rparr>"
  have "ho_write_all disk_host n data (fs_host fs) = (Inr (), ?d)"
    using disk_appends [of "fs_host fs" n "[]" data] assms(1,2) by simp
  then have w: "on_host (ho_write_all disk_host n data) ?fs1 = (Inr (), ?fs2)" by (simp add: on_host_def)
  have r1: "on_mtp (sv_read_at S h 0 (min READ_CHUNK (sz - 0)) sz) fs = (Inr data, ?fs1)"
    using read_from_mount [OF assms(5)] by simp
  have r2: "on_mtp (sv_read_at S h (length data) (min READ_CHUNK (sz - length data)) sz) ?fs2 = (Inr [], ?fs2\<lparr>fs_mtp := m2\<rparr>)"
    by (rule read_from_mount) (use assms(6) in simp)
  have "copy_loop S disk_host h sz n (length data) ?fs2 = (Inr (length data), ?fs2\<lparr>fs_mtp := m2\<rparr>)"
    using assms(4) r2 by (subst copy_loop.simps) simp
  then have "copy_loop S disk_host h sz n 0 fs = (Inr (length data), ?fs2\<lparr>fs_mtp := m2\<rparr>)"
    using assms(3,4) r1 w by (subst copy_loop.simps) simp
  then show ?thesis by simp
qed

section \<open>The mount of the examples\<close>

text \<open>Nothing is open, and a program opens the file of the sample tree to write.\<close>

lemma sample_writer:
  "lookup (fs_tree (sample_fs m Map.empty)) sample_path = Found 2"
  "tree_get (fs_tree (sample_fs m Map.empty)) 2 = Some sample_file" "\<not> en_is_dir sample_file"
  "fs_pending (sample_fs m Map.empty) sample_path = None" "oflag_writes WRONLY" "WRONLY AND TRUNC = 0"
  by (simp_all add: sample_fs_def tree_get_def sample_tree_get sample_path_def sample_lookups sample_file_def
      oflag_writes_def WRONLY_def TRUNC_def ACCMODE_def)

lemma sample_mount_ok: "mount_ok disk_contents (sample_fs m Map.empty)"
  by (simp add: mount_ok_def sample_fs_def apart_def sample_tree_def tree_ok_set_children tree_ok_new)

section \<open>Properties\<close>

text \<open>
  C22: a device that answers a read of the copy with nothing ends the copy as if the object ended
  there: the open succeeds, and the file the program goes on to change, and whose contents its close
  will put in the place of the object, holds only the first answer, though the listing says how long
  the object is.
\<close>

theorem short_answer_cuts_file:
  assumes "lookup (fs_tree fs) path = Found h" and "tree_get (fs_tree fs) h = Some e" and "\<not> en_is_dir e"
    and "fs_pending fs path = None" and "oflag_writes flags" and "flags AND TRUNC = 0"
    and "unat (en_size e) \<le> dk_room (fs_host fs)" and "data \<noteq> []" and "length data < unat (en_size e)"
    and "sv_read_at S h 0 (min READ_CHUNK (unat (en_size e))) (unat (en_size e)) (fs_mtp fs) = (Inr data, m1)"
    and "sv_read_at S h (length data) (min READ_CHUNK (unat (en_size e) - length data)) (unat (en_size e)) m1 = (Inr [], m2)"
  shows "\<exists>fs1 p. op_open S disk_host path (Some flags) fs = (Inr (Some (ucast h OR FH_WRITER)), fs1)
    \<and> fs_pending fs1 path = Some p \<and> pn_replaces p = Some h \<and> pn_sent p = None \<and> pn_broken p = None
    \<and> pn_size p < unat (en_size e) \<and> disk_contents (fs_host fs1) (pn_spool p) = Some data"
proof -
  let ?n = "fs_count fs" and ?sz = "unat (en_size e)"
  let ?p = "\<lparr>pn_parent = en_parent e, pn_name = en_name e, pn_spool = ?n, pn_size = length data,
         pn_sent = None, pn_replaces = Some h, pn_broken = None, pn_keep_spool = False\<rparr>"
  obtain fs1 where mk: "make_spool disk_host fs = (Inr ?n, fs1)"
    and new: "dk_files (fs_host fs1) ?n = Some \<lparr>sp_data = [], sp_cursor = 0\<rparr>"
      "dk_room (fs_host fs) \<le> dk_room (fs_host fs1)" "fs_pending fs1 = fs_pending fs" "fs_mtp fs1 = fs_mtp fs"
    using disk_spool_new by blast
  have "length data \<le> dk_room (fs_host fs1)" using assms(7,9) new(2) by simp
  then obtain fs2 where copy: "copy_loop S disk_host h ?sz ?n 0 fs1 = (Inr (length data), fs2)"
    and fs2: "fs_pending fs2 = fs_pending fs1" "disk_contents (fs_host fs2) ?n = Some data"
    using copy_loop_short [OF new(1) _ assms(8,9) _ assms(11), folded new(4)] assms(10) new(4) by auto
  have "en_size e \<noteq> 0" using assms(9) by auto
  then have size: "0 < en_size e" by (simp add: word_gt_0)
  have free: "\<not> (case ho_free disk_host (fs_host fs) of Some free \<Rightarrow> ?sz > free | None \<Rightarrow> False)"
    using assms(7) by (simp add: disk_host_def)
  have "adopt_for_write S disk_host path h e True fs = (Inr (), fs2\<lparr>fs_pending := (fs_pending fs)(path \<mapsto> ?p)\<rparr>)"
    using mk copy free size fs2(1) new(3) assms(4)
    by (simp add: adopt_for_write_def copy_object_to_spool_def or_fail_def map_err_def and_then_def modify_def insert_pending_def)
  then have "op_open S disk_host path (Some flags) fs
      = (Inr (Some (ucast h OR FH_WRITER)), fs2\<lparr>fs_pending := (fs_pending fs)(path \<mapsto> ?p)\<rparr>)"
    by (rule writer_handle [OF assms(5,6,1,2,3,4)])
  then show ?thesis using assms(9) fs2(2) by (intro exI [of _ ?p] exI conjI) auto
qed

lemma short_answer_cuts_file_witness:
  "\<exists>fs1 p. op_open (phone_service sample_dir) disk_host sample_path (Some WRONLY)
      (sample_fs ((sample_phone 100 False)\<lparr>ph_objs := [2 \<mapsto> [1, 2]]\<rparr>) Map.empty) = (Inr (Some (2 OR FH_WRITER)), fs1)
    \<and> fs_pending fs1 sample_path = Some p \<and> pn_size p < 3 \<and> disk_contents (fs_host fs1) (pn_spool p) = Some [1, 2]"
proof -
  let ?m = "(sample_phone 100 False)\<lparr>ph_objs := [2 \<mapsto> [1, 2]]\<rparr>"
  let ?fs = "sample_fs ?m Map.empty"
  let ?S = "phone_service sample_dir :: (phone, disk) service" and ?sz = "unat (en_size sample_file)"
  have r1: "sv_read_at ?S 2 0 (min READ_CHUNK ?sz) ?sz (fs_mtp ?fs) = (Inr [1, 2], ?m)"
    and r2: "sv_read_at ?S 2 (length [1, 2 :: 8 word]) (min READ_CHUNK (?sz - length [1, 2 :: 8 word])) ?sz ?m = (Inr [], ?m)"
    and fits: "?sz \<le> dk_room (fs_host ?fs)" "[1, 2 :: 8 word] \<noteq> []" "length [1, 2 :: 8 word] < ?sz"
    by (simp_all add: phone_calls sample_fs_def READ_CHUNK_def sample_tree_get sample_disk_def)
  from short_answer_cuts_file [OF sample_writer fits r1 r2] show ?thesis
    by (fastforce simp: sample_tree_get)
qed

text \<open>
  C23: when the device fails while the object is copied, the open gives \<open>EIO\<close> and the mount goes on,
  but the spool file it made stays in the spool folder: no open file owns it, so nothing removes it,
  not even the end of the mount.
\<close>

theorem failed_open_leaves_spool:
  assumes "mount_ok disk_contents fs" and "room 1 fs"
    and "lookup (fs_tree fs) path = Found h" and "tree_get (fs_tree fs) h = Some e" and "\<not> en_is_dir e"
    and "fs_pending fs path = None" and "oflag_writes flags" and "flags AND TRUNC = 0"
    and "0 < en_size e" and "unat (en_size e) \<le> dk_room (fs_host fs)"
    and "read_at T h 0 (min READ_CHUNK (unat (en_size e))) (unat (en_size e)) (fs_mtp fs) = (Inl flt, m)"
  shows "\<exists>fs1. op_open (mtp_service T) disk_host path (Some flags) fs = (Inl (- EIO), fs1)
    \<and> fs_pending fs1 = fs_pending fs
    \<and> disk_contents (fs_host fs1) (fs_count fs) = Some []
    \<and> disk_contents (fs_host (drop_open_files disk_host fs1)) (fs_count fs) = Some []"
proof -
  let ?n = "fs_count fs" and ?sz = "unat (en_size e)"
  let ?S = "mtp_service T :: ('a mtp, disk) service"
  obtain fs1 where mk: "make_spool disk_host fs = (Inr ?n, fs1)"
    and new: "dk_files (fs_host fs1) ?n = Some \<lparr>sp_data = [], sp_cursor = 0\<rparr>"
      "fs_pending fs1 = fs_pending fs" "fs_mtp fs1 = fs_mtp fs"
    using disk_spool_new by blast
  let ?fs2 = "fs1\<lparr>fs_mtp := m\<rparr>"
  have "sv_read_at ?S h 0 (min READ_CHUNK (?sz - 0)) ?sz (fs_mtp fs1) = (Inl flt, m)"
    using assms(11) new(3) by (simp add: mtp_service_def)
  note r = read_from_mount [OF this]
  have "0 < ?sz" using assms(9) by (simp add: word_less_nat_alt)
  then have copy: "copy_loop ?S disk_host h ?sz ?n 0 fs1 = (Inl (- EIO), ?fs2)"
    using r by (subst copy_loop.simps) simp
  have free: "\<not> (case ho_free disk_host (fs_host fs) of Some free \<Rightarrow> ?sz > free | None \<Rightarrow> False)"
    using assms(10) by (simp add: disk_host_def)
  have adopt: "adopt_for_write ?S disk_host path h e True fs = (Inl (- EIO), ?fs2)"
    using mk copy free assms(9)
    by (simp add: adopt_for_write_def copy_object_to_spool_def or_fail_def map_err_def and_then_def)
  then have op: "op_open ?S disk_host path (Some flags) fs = (Inl (- EIO), ?fs2)"
    using assms(3-8) by (simp add: op_open_def resolved_def resolve_found file_entry_def and_then_def)
  have "mount_ok disk_contents ?fs2" by (rule device_mount.adopt_ok(1) [OF assms(1,2) adopt])
  note drop = spools.drop_open_contents [OF this]
  have here: "disk_contents (fs_host ?fs2) ?n = Some []" using new(1) by (simp add: disk_contents_def)
  have "\<not> (\<exists>path p. fs_pending ?fs2 path = Some p \<and> pn_spool p = ?n \<and> \<not> pn_keep_spool p)"
    using assms(1) new(2) by (fastforce simp: mount_ok_def entry_ok_def)
  then have "disk_contents (fs_host (drop_open_files disk_host ?fs2)) ?n = Some []"
    using drop [of ?n] here by simp
  then show ?thesis using op new(2) here by (intro exI [of _ ?fs2]) simp
qed

lemma failed_open_leaves_spool_witness:
  "\<exists>fs1. op_open (mtp_service (fake_transport\<lparr>tp_write := \<lambda>_ _ d. (Inl NoBackend, d)\<rparr>)) disk_host sample_path (Some WRONLY)
      (sample_fs (fresh_mtp default_settings 512 (fake_session [])) Map.empty) = (Inl (- EIO), fs1)
    \<and> disk_contents (fs_host (drop_open_files disk_host fs1)) 5 = Some []"
proof -
  let ?T = "fake_transport\<lparr>tp_write := \<lambda>_ _ d. (Inl NoBackend, d)\<rparr>"
  let ?t = "fresh_mtp default_settings 512 (fake_session [])"
  let ?fs = "sample_fs ?t Map.empty"
  have size: "unat (en_size sample_file) = 3" by (simp add: sample_tree_get)
  obtain flt m where r: "read_at ?T 2 0 (min READ_CHUNK 3) 3 ?t = (Inl flt, m)"
    by (simp add: read_at_def read_at_with_def read_loop.simps read_from_device_def read_whole_packets_def
        split_final_read_def partial_read_def be_operation_def on_session_def operation_def collecting_def
        operation_stream_def next_transaction_def write_all_def on_device_def on_fst_def map_err_def and_then_def
        fresh_mtp_def gets_def READ_CHUNK_def u64_max_def Let_def)
  have "0 < en_size sample_file" "room 1 ?fs" "unat (en_size sample_file) \<le> dk_room (fs_host ?fs)"
    by (simp_all add: sample_file_def sample_fs_def sample_disk_def room_def)
  moreover have "read_at ?T 2 0 (min READ_CHUNK (unat (en_size sample_file))) (unat (en_size sample_file)) (fs_mtp ?fs) = (Inl flt, m)"
    using r by (simp add: size sample_fs_def)
  ultimately show ?thesis
    using failed_open_leaves_spool [OF sample_mount_ok _ sample_writer] by (fastforce simp: sample_fs_def)
qed

text \<open>
  C24: when a file nobody has open is given a new length and the disk has no room for it, the call
  gives \<open>EIO\<close> and the mount keeps the entry it made for the change. No close will ever come for it,
  and the entry stands for the path from then on: after the file is removed, its attributes are
  still the ones of the copy.
\<close>

theorem failed_truncate_keeps_entry:
  assumes "lookup (fs_tree fs) path = Found h" and "tree_get (fs_tree fs) h = Some e" and "\<not> en_is_dir e"
    and "fs_pending fs path = None" and "adopt_for_write S H path h e (0 < sz) fs = (Inr (), fs1)"
    and "fs_pending fs1 path = Some p" and "ho_set_len H (pn_spool p) sz (fs_host fs1) = (Inl flt, h1)"
  shows "\<exists>fs2. op_truncate S H path sz fs = (- EIO, fs2) \<and> fs_pending fs2 path = Some p
    \<and> (\<forall>owner. \<exists>st. fst (op_getattr S owner path (snd (op_unlink S path fs2))) = Inr st \<and> st_size st = pn_size p)"
proof -
  let ?fs2 = "fs1\<lparr>fs_host := h1\<rparr>"
  have t: "op_truncate S H path sz fs = (- EIO, ?fs2)"
    using assms by (simp add: op_truncate_def resolved_def resolve_found file_entry_def and_then_def
      set_pending_len_def or_fail_def map_err_def on_host_def)
  obtain r fs3 where u: "op_unlink S path ?fs2 = (r, fs3)" by fastforce
  have "room 0 ?fs2" using unsigned_less [of "fs_count ?fs2", where ?'a = nat] by (simp add: room_def)
  then have "fs_pending fs3 = fs_pending ?fs2"
    using usesD [OF uses_remove _ u [unfolded op_unlink_def]] by (auto simp: quiet_def)
  then show ?thesis using t u assms(6) by (simp add: op_getattr_def)
qed

lemma failed_truncate_keeps_entry_witness:
  "\<exists>fs2 p. op_truncate (phone_service sample_dir) disk_host sample_path 2000
      (sample_fs (sample_phone 100 False) Map.empty) = (- EIO, fs2)
    \<and> fs_pending fs2 sample_path = Some p \<and> pn_size p = 3
    \<and> (\<exists>st. fst (op_getattr (phone_service sample_dir) (0, 0) sample_path
        (snd (op_unlink (phone_service sample_dir) sample_path fs2))) = Inr st \<and> st_size st = 3)"
proof -
  let ?S = "phone_service sample_dir :: (phone, disk) service"
  let ?fs = "sample_fs (sample_phone 100 False) Map.empty"
  let ?p = "\<lparr>pn_parent = 1, pn_name = lit ''a.jpg'', pn_spool = 5, pn_size = 3,
         pn_sent = None, pn_replaces = Some 2, pn_broken = None, pn_keep_spool = False\<rparr>"
  let ?d = "sample_disk\<lparr>dk_files := (dk_files sample_disk)(5 \<mapsto> \<lparr>sp_data = [1, 2, 3], sp_cursor = 3\<rparr>), dk_room := 997\<rparr>"
  let ?fs1 = "?fs\<lparr>fs_count := 6, fs_host := ?d, fs_pending := [sample_path \<mapsto> ?p]\<rparr>"
  have a: "adopt_for_write ?S disk_host sample_path 2 sample_file (0 < (2000 :: nat)) ?fs = (Inr (), ?fs1)"
    by (simp add: adopt_for_write_def copy_object_to_spool_def copy_loop.simps make_spool_def insert_pending_def
        sample_runs sample_file_def READ_CHUNK_def disk_host_def disk_write_all_def with_file_def put_file_def
        overwrite_def Let_def)
       (simp add: numeral_3_eq_3)
  have l: "ho_set_len disk_host (pn_spool ?p) 2000 (fs_host ?fs1) = (Inl (Some ENOSPC), ?d)"
    by (simp add: disk_host_def disk_set_len_def with_file_def Let_def)
  have p: "fs_pending ?fs1 sample_path = Some ?p" by simp
  from failed_truncate_keeps_entry [OF sample_writer(1-4) a p l] show ?thesis by force
qed

end
