(* ===== verification/Mtpprobe.thy ===== *)
theory Mtpprobe
  imports Mtp_Session Usb_Discover
begin

text \<open>
  The diagnosis tool, \<open>crates/mtpprobe/src/main.rs\<close>: the commands, the connection they share, and
  the names they print and write. What goes to the terminal is the value of a command; waits and
  the clock are left out, so the rates of the benchmark are too.
\<close>

section \<open>Faults and the connection\<close>

definition PROBE_TIMEOUT :: duration where "PROBE_TIMEOUT = from_millis 5000"
definition PROBE_BULK_BUFFER :: u32 where "PROBE_BULK_BUFFER = 16 * 1024"
definition STORAGE_ATTEMPTS :: nat where "STORAGE_ATTEMPTS = 10"
definition LEAVE_ATTEMPTS :: nat where "LEAVE_ATTEMPTS = 40"
definition RETURN_ATTEMPTS :: nat where "RETURN_ATTEMPTS = 60"
definition DEFAULT_CYCLES :: nat where "DEFAULT_CYCLES = 20"

datatype probe_error =
    PrUsb usb_error
  | PrNoMtp "selector option" "(u8 \<times> u8 \<times> u16 \<times> u16) list"
  | PrEndpoints usb_error
  | PrSession session_error
  | PrParse string parse_error
  | PrNoStorage
  | PrCode string u16
  | PrCycle nat
  | PrGone
  | PrNoFile
  | PrFolder u32
  | PrBadName ustring
  | PrHost string io_error
  | PrSizes u32 nat

definition config_for :: "mtp_interface \<Rightarrow> config" where
  "config_for iface = default_config
     \<lparr>cfg_timeout := PROBE_TIMEOUT, cfg_packet := unat (mi_max_packet_size iface)\<rparr>"

definition start_session ::
    "'d transport \<Rightarrow> 'd \<Rightarrow> mtp_interface \<Rightarrow> u32 \<Rightarrow> (probe_error + session_open) \<times> 'd session" where
  "start_session T d iface sid =
     map_err PrSession (open_session_or_repair T sid) (fst (session_new T d (config_for iface)))"

record storage_wait =
  sw_ids :: "u32 list"
  sw_attempts :: nat

definition probe_operation ::
    "'d transport \<Rightarrow> string \<Rightarrow> u16 \<Rightarrow> u32 list \<Rightarrow> ('d session, probe_error, outcome) sm" where
  "probe_operation T name code params = map_err PrSession (operation T name code params)"

definition u32_array_of :: "string \<Rightarrow> outcome \<Rightarrow> ('d session, probe_error, u32 list) sm" where
  "u32_array_of name out = map_err (PrParse name) (from_result (as_u32_array out))"

fun storage_rounds :: "'d transport \<Rightarrow> nat \<Rightarrow> nat \<Rightarrow> ('d session, probe_error, storage_wait) sm" where
  "storage_rounds T 0 attempt = ok \<lparr>sw_ids = [], sw_attempts = STORAGE_ATTEMPTS\<rparr>"
| "storage_rounds T (Suc k) attempt =
     and_then (probe_operation T ''GetStorageIDs'' GET_STORAGE_IDS []) (\<lambda>out.
     and_then (u32_array_of ''GetStorageIDs'' out) (\<lambda>ids.
     if ids \<noteq> [] then ok \<lparr>sw_ids = ids, sw_attempts = attempt\<rparr>
     else storage_rounds T k (attempt + 1)))"

definition wait_for_storage :: "'d transport \<Rightarrow> ('d session, probe_error, storage_wait) sm" where
  "wait_for_storage T = storage_rounds T STORAGE_ATTEMPTS 1"

definition no_mtp_message ::
    "'d libusb20 \<Rightarrow> pointer \<Rightarrow> selector option \<Rightarrow> 'd \<Rightarrow> probe_error \<times> 'd" where
  "no_mtp_message L be want d =
     (case want of
        Some sel \<Rightarrow> (PrNoMtp (Some sel) [], d)
      | None \<Rightarrow> (case android_without_mtp L be PROBE_TIMEOUT d of (devs, d') \<Rightarrow> (PrNoMtp None devs, d')))"

definition find_mtp ::
    "'d libusb20 \<Rightarrow> pointer \<Rightarrow> selector option \<Rightarrow> bool \<Rightarrow> ('d, probe_error, found) sm" where
  "find_mtp L be node quiet d =
     (case find_device L be node PROBE_TIMEOUT (if quiet then d else snd (devices L be d)) of
        (Some f, d1) \<Rightarrow> (Inr f, d1)
      | (None, d1) \<Rightarrow> (case no_mtp_message L be node d1 of (e, d2) \<Rightarrow> (Inl e, d2)))"

record 'd connected =
  cn_backend :: pointer
  cn_device :: mtp_device
  cn_session :: "'d session"
  cn_storage :: u32
  cn_opened :: session_open
  cn_wait :: "storage_wait option"

text \<open>The drop of a session and of what it holds.\<close>

definition hang_up :: "'d libusb20 \<Rightarrow> pointer \<Rightarrow> mtp_device \<Rightarrow> 'd session \<Rightarrow> 'd" where
  "hang_up L be device s =
     lib_be_free L be (drop_mtp_device L device (ses_device (drop_session (mtp_transport L device) s)))"

definition connect ::
    "'d libusb20 \<Rightarrow> bool \<Rightarrow> selector option \<Rightarrow> bool \<Rightarrow> bool \<Rightarrow> 'd \<Rightarrow> probe_error \<times> 'd + 'd connected" where
  "connect L ptp_reset node quiet needs_storage d =
     (case backend_new L d of (Inl e, d1) \<Rightarrow> Inl (PrUsb e, d1) | (Inr be, d1) \<Rightarrow>
     (case find_mtp L be node quiet d1 of (Inl e, d2) \<Rightarrow> Inl (e, lib_be_free L be d2) | (Inr found, d2) \<Rightarrow>
       let dev = fd_device found; iface = fd_iface found;
           d3 = (case kernel_driver_active L dev (mi_interface_number iface) d2 of
                   (active, d') \<Rightarrow>
                     if active then snd (detach_kernel_driver L dev (mi_interface_number iface) d')
                     else d');
           d4 = (if ptp_reset
                 then snd (ptp_device_reset L dev (mi_interface_number iface) PROBE_TIMEOUT d3) else d3)
       in (case into_mtp L dev iface PROBE_BULK_BUFFER d4 of
             (Inl e, d5) \<Rightarrow> Inl (PrEndpoints e, lib_be_free L be d5)
           | (Inr device, d5) \<Rightarrow>
             let T = mtp_transport L device in
             (case start_session T d5 iface 1 of
                (Inl e, s) \<Rightarrow> Inl (e, hang_up L be device s)
              | (Inr opened, s) \<Rightarrow>
                if \<not> needs_storage
                then Inr \<lparr>cn_backend = be, cn_device = device, cn_session = s, cn_storage = 0,
                          cn_opened = opened, cn_wait = None\<rparr>
                else (case wait_for_storage T s of
                    (Inl e, s') \<Rightarrow> Inl (e, hang_up L be device s')
                  | (Inr w, s') \<Rightarrow>
                      if sw_ids w = [] then Inl (PrNoStorage, hang_up L be device s')
                      else Inr \<lparr>cn_backend = be, cn_device = device, cn_session = s',
                                cn_storage = hd (sw_ids w), cn_opened = opened, cn_wait = Some w\<rparr>)))))"

text \<open>A command: the connection, what it does with the session, and the drop at its end.\<close>

definition with_connection ::
    "'d libusb20 \<Rightarrow> bool \<Rightarrow> selector option \<Rightarrow> bool \<Rightarrow> bool \<Rightarrow>
     ('d transport \<Rightarrow> 'd connected \<Rightarrow> ('d session \<times> 'w, probe_error, 'a) sm) \<Rightarrow>
     ('d \<times> 'w, probe_error, 'a) sm" where
  "with_connection L ptp_reset node quiet needs_storage body = (\<lambda>(d, w).
     case connect L ptp_reset node quiet needs_storage d of
       Inl (e, d') \<Rightarrow> (Inl e, (d', w))
     | Inr c \<Rightarrow>
         (case body (mtp_transport L (cn_device c)) c (cn_session c, w) of
            (r, (s, w')) \<Rightarrow> (r, (hang_up L (cn_backend c) (cn_device c) s, w'))))"

text \<open>\<open>let _ = s.close_session();\<close>\<close>

definition close_quietly :: "'d transport \<Rightarrow> ('d session, probe_error, unit) sm" where
  "close_quietly T = (\<lambda>s. (Inr (), snd (close_session T s)))"

definition step :: "'d transport \<Rightarrow> string \<Rightarrow> u16 \<Rightarrow> u32 list \<Rightarrow> ('d session, probe_error, outcome) sm" where
  "step T name code params =
     and_then (probe_operation T name code params) (\<lambda>out.
     if outcome_is_ok out then ok out else err (PrCode name (o_response_code out)))"

section \<open>The commands\<close>

fun storage_infos :: "'d transport \<Rightarrow> u32 list \<Rightarrow> ('d session, probe_error, (parse_error + storage_info) list) sm" where
  "storage_infos T [] = ok []"
| "storage_infos T (sid # sids) =
     and_then (step T ''GetStorageInfo'' GET_STORAGE_INFO [sid]) (\<lambda>info.
     and_then (storage_infos T sids) (\<lambda>rest. ok (storage_info_parse (o_data info) # rest)))"

definition probe_body ::
    "'d transport \<Rightarrow> 'd connected \<Rightarrow> ('d session, probe_error, (parse_error + storage_info) list) sm" where
  "probe_body T c =
     (let opened = sop_outcome (cn_opened c) in
      if \<not> outcome_is_ok opened then err (PrCode ''OpenSession'' (o_response_code opened))
      else
        and_then (storage_infos T (case cn_wait c of Some w \<Rightarrow> sw_ids w | None \<Rightarrow> [])) (\<lambda>infos.
        and_then (step T ''CloseSession'' CLOSE_SESSION []) (\<lambda>_.
        and_then (map_err PrSession (open_session T 2)) (\<lambda>_.
        and_then (close_quietly T) (\<lambda>_. ok infos)))))"

definition probe ::
    "'d libusb20 \<Rightarrow> bool \<Rightarrow> selector option \<Rightarrow> ('d \<times> unit, probe_error, (parse_error + storage_info) list) sm" where
  "probe L ptp_reset node =
     with_connection L ptp_reset node False True (\<lambda>T c. on_fst (probe_body T c))"

text \<open>\<open>reopen\<close>: one look at the device, and then the cycles.\<close>

definition cycle_body :: "'d transport \<Rightarrow> ('d session, probe_error, u16) sm" where
  "cycle_body T =
     and_then (probe_operation T ''GetStorageIDs'' GET_STORAGE_IDS []) (\<lambda>out.
     and_then (u32_array_of ''GetStorageIDs'' out) (\<lambda>ids.
     and_then (map_err PrSession (close_session T)) (\<lambda>_. ok (word_of_nat (length ids)))))"

fun cycles ::
    "'d libusb20 \<Rightarrow> bool \<Rightarrow> selector option \<Rightarrow> nat \<Rightarrow> nat \<Rightarrow> ('d, probe_error, u16 list) sm" where
  "cycles L ptp_reset node n 0 d = (Inr [], d)"
| "cycles L ptp_reset node n (Suc k) d =
     (case with_connection L ptp_reset node True False (\<lambda>T c. on_fst (cycle_body T)) (d, ()) of
        (Inl e, (d', _)) \<Rightarrow> (Inl (PrCycle n), d')
      | (Inr count, (d', _)) \<Rightarrow>
          (case cycles L ptp_reset node (n + 1) k d' of
             (Inl e, d'') \<Rightarrow> (Inl e, d'') | (Inr counts, d'') \<Rightarrow> (Inr (count # counts), d'')))"

definition reopen ::
    "'d libusb20 \<Rightarrow> bool \<Rightarrow> selector option \<Rightarrow> nat \<Rightarrow> ('d, probe_error, u16 list) sm" where
  "reopen L ptp_reset node count d =
     (case backend_new L d of (Inl e, d1) \<Rightarrow> (Inl (PrUsb e), d1) | (Inr be, d1) \<Rightarrow>
      case find_mtp L be node False d1 of
        (Inl e, d2) \<Rightarrow> (Inl e, lib_be_free L be d2)
      | (Inr found, d2) \<Rightarrow>
          (case cycles L ptp_reset node 1 count (drop_open_device L (fd_device found) d2) of
             (r, d3) \<Rightarrow> (r, lib_be_free L be d3)))"

text \<open>The counts of the first objects: the folders, the files.\<close>

fun count_kinds :: "'d transport \<Rightarrow> u32 list \<Rightarrow> ('d session, probe_error, nat \<times> nat) sm" where
  "count_kinds T [] = ok (0, 0)"
| "count_kinds T (h # hs) =
     and_then (probe_operation T ''GetObjectInfo'' GET_OBJECT_INFO [h]) (\<lambda>info.
     and_then (count_kinds T hs) (\<lambda>(folders, files).
     case object_info_parse (o_data info) of
       Inl e \<Rightarrow> ok (folders, files)
     | Inr i \<Rightarrow> ok (if object_info_is_folder i then (folders + 1, files) else (folders, files + 1))))"

fun objects_under :: "'d transport \<Rightarrow> u32 \<Rightarrow> u32 list \<Rightarrow> ('d session, probe_error, (nat \<times> nat \<times> nat) list) sm" where
  "objects_under T storage [] = ok []"
| "objects_under T storage (parent # parents) =
     and_then (probe_operation T ''GetObjectHandles'' GET_OBJECT_HANDLES [storage, 0, parent]) (\<lambda>out.
     and_then (u32_array_of ''GetObjectHandles'' out) (\<lambda>handles.
     and_then (count_kinds T (take (min (length handles) 12) handles)) (\<lambda>(folders, files).
     and_then (objects_under T storage parents) (\<lambda>rest.
     ok ((length handles, folders, files) # rest)))))"

definition objects ::
    "'d libusb20 \<Rightarrow> bool \<Rightarrow> selector option \<Rightarrow> ('d \<times> unit, probe_error, (nat \<times> nat \<times> nat) list) sm" where
  "objects L ptp_reset node =
     with_connection L ptp_reset node False True (\<lambda>T c. on_fst (
       and_then (objects_under T (cn_storage c) [0x00000000, 0xffffffff]) (\<lambda>counts.
       and_then (close_quietly T) (\<lambda>_. ok counts))))"

text \<open>\<open>coldstart\<close>: a reset, the wait for the device to leave, and the wait for its return.\<close>

fun leave_rounds :: "'d libusb20 \<Rightarrow> nat \<Rightarrow> ('d, probe_error, bool) sm" where
  "leave_rounds L 0 d = (Inr False, d)"
| "leave_rounds L (Suc k) d =
     (case backend_new L d of (Inl e, d1) \<Rightarrow> (Inl (PrUsb e), d1) | (Inr be, d1) \<Rightarrow>
      case any_device L be PROBE_TIMEOUT d1 of (there, d2) \<Rightarrow>
        if there then leave_rounds L k (lib_be_free L be d2) else (Inr True, lib_be_free L be d2))"

fun return_rounds :: "'d libusb20 \<Rightarrow> nat \<Rightarrow> ('d, probe_error, bool) sm" where
  "return_rounds L 0 d = (Inr False, d)"
| "return_rounds L (Suc k) d =
     (case backend_new L d of (Inl e, d1) \<Rightarrow> (Inl (PrUsb e), d1) | (Inr be, d1) \<Rightarrow>
      case any_device L be PROBE_TIMEOUT d1 of (there, d2) \<Rightarrow>
        if there then (Inr True, lib_be_free L be d2) else return_rounds L k (lib_be_free L be d2))"

definition reset_found :: "'d libusb20 \<Rightarrow> selector option \<Rightarrow> ('d, probe_error, unit) sm" where
  "reset_found L node d =
     (case backend_new L d of (Inl e, d1) \<Rightarrow> (Inl (PrUsb e), d1) | (Inr be, d1) \<Rightarrow>
      case find_mtp L be node False d1 of
        (Inl e, d2) \<Rightarrow> (Inl e, lib_be_free L be d2)
      | (Inr found, d2) \<Rightarrow>
          (case map_err PrUsb (dev_reset L (fd_device found)) d2 of
             (r, d3) \<Rightarrow> (r, lib_be_free L be (drop_open_device L (fd_device found) d3))))"

definition coldstart ::
    "'d libusb20 \<Rightarrow> bool \<Rightarrow> selector option \<Rightarrow> ('d, probe_error, bool \<times> storage_wait) sm" where
  "coldstart L ptp_reset node =
     and_then (reset_found L node) (\<lambda>_.
     and_then (leave_rounds L LEAVE_ATTEMPTS) (\<lambda>left.
     and_then (return_rounds L RETURN_ATTEMPTS) (\<lambda>came_back.
     if \<not> came_back then err PrGone
     else
       and_then (\<lambda>d. case with_connection L ptp_reset node True False (\<lambda>T c. on_fst (
           and_then (wait_for_storage T) (\<lambda>w. and_then (close_quietly T) (\<lambda>_. ok w)))) (d, ()) of
           (r, (d', _)) \<Rightarrow> (r, d')) (\<lambda>w.
       if sw_ids w = [] then err PrNoStorage else ok (left, w)))))"

section \<open>The copy of one object\<close>

definition SEARCH_LIMIT :: nat where "SEARCH_LIMIT = 60"

text \<open>The folder the tool runs in: one file at a time is open for writing, behind a \<open>BufWriter\<close>.\<close>

record 'w folder =
  fo_create :: "ustring \<Rightarrow> ('w, io_error, unit) sm"
  fo_write :: "'w io_writer"
  fo_flush :: "('w, io_error, unit) sm"
  fo_drop :: "'w \<Rightarrow> 'w"
  fo_len :: "ustring \<Rightarrow> ('w, io_error, nat) sm"

text \<open>The last part of a name, when it names a file of the folder itself.\<close>

definition safe_name :: "ustring \<Rightarrow> ustring option" where
  "safe_name filename =
     (let safe = rev (takeWhile (\<lambda>c. c \<noteq> 47 \<and> c \<noteq> 92) (rev filename))
      in if safe \<noteq> [] \<and> safe \<noteq> lit ''.'' \<and> safe \<noteq> lit ''..'' then Some safe else None)"

definition smaller ::
    "u32 \<Rightarrow> object_info \<Rightarrow> (u32 \<times> object_info) option \<Rightarrow> (u32 \<times> object_info) option" where
  "smaller h info best =
     (if object_info_is_folder info \<or> oi_compressed_size info = 0 then best
      else case best of
          Some (_, b) \<Rightarrow> if oi_compressed_size info < oi_compressed_size b then Some (h, info) else best
        | None \<Rightarrow> Some (h, info))"

fun smallest_of ::
    "'d transport \<Rightarrow> u32 list \<Rightarrow> (u32 \<times> object_info) option \<Rightarrow>
     ('d session, probe_error, (u32 \<times> object_info) option) sm" where
  "smallest_of T [] best = ok best"
| "smallest_of T (h # hs) best =
     and_then (probe_operation T ''GetObjectInfo'' GET_OBJECT_INFO [h]) (\<lambda>out.
     case object_info_parse (o_data out) of
       Inl e \<Rightarrow> smallest_of T hs best
     | Inr info \<Rightarrow> smallest_of T hs (smaller h info best))"

definition all_handles :: "'d transport \<Rightarrow> u32 \<Rightarrow> ('d session, probe_error, u32 list) sm" where
  "all_handles T storage =
     and_then (probe_operation T ''GetObjectHandles'' GET_OBJECT_HANDLES [storage, 0, EVERY_OBJECT]) (\<lambda>out.
     u32_array_of ''GetObjectHandles'' out)"

definition choose_object ::
    "'d transport \<Rightarrow> u32 \<Rightarrow> u32 option \<Rightarrow> ('d session, probe_error, u32 \<times> object_info) sm" where
  "choose_object T storage handle =
     (case handle of
        Some h \<Rightarrow>
          and_then (probe_operation T ''GetObjectInfo'' GET_OBJECT_INFO [h]) (\<lambda>out.
          and_then (map_err (PrParse ''GetObjectInfo'') (from_result (object_info_parse (o_data out)))) (\<lambda>info.
          ok (h, info)))
      | None \<Rightarrow>
          and_then (all_handles T storage) (\<lambda>handles.
          and_then (smallest_of T (take SEARCH_LIMIT handles) None) (\<lambda>best.
          case best of Some b \<Rightarrow> ok b | None \<Rightarrow> err PrNoFile)))"

text \<open>\<open>GetObject\<close> into the file; the writer is dropped on each way out.\<close>

definition stream_to_file ::
    "'d transport \<Rightarrow> 'w folder \<Rightarrow> u32 \<Rightarrow> ('d session \<times> 'w, probe_error, stream_outcome) sm" where
  "stream_to_file T F target = (\<lambda>s.
     case and_then (map_err PrSession (operation_stream T (fo_write F) ''GetObject'' GET_OBJECT [target])) (\<lambda>out.
          and_then (on_snd (map_err (PrHost ''flush'') (fo_flush F))) (\<lambda>_. ok out)) s of
       (r, (s', w)) \<Rightarrow> (r, (s', fo_drop F w)))"

definition get_body ::
    "'d transport \<Rightarrow> 'w folder \<Rightarrow> u32 option \<Rightarrow> 'd connected \<Rightarrow>
     ('d session \<times> 'w, probe_error, ustring \<times> nat) sm" where
  "get_body T F handle c =
     and_then (on_fst (choose_object T (cn_storage c) handle)) (\<lambda>(target, info).
     if object_info_is_folder info
     then and_then (on_fst (close_quietly T)) (\<lambda>_. err (PrFolder target))
     else case safe_name (oi_filename info) of
       None \<Rightarrow> err (PrBadName (oi_filename info))
     | Some path \<Rightarrow>
         and_then (on_snd (map_err (PrHost ''create'') (fo_create F path))) (\<lambda>_.
         and_then (stream_to_file T F target) (\<lambda>out.
         if so_response_code out \<noteq> RESP_OK
         then and_then (on_fst (close_quietly T)) (\<lambda>_. err (PrCode ''GetObject'' (so_response_code out)))
         else
           and_then (on_snd (map_err (PrHost ''metadata'') (fo_len F path))) (\<lambda>on_disk.
           and_then (on_fst (close_quietly T)) (\<lambda>_.
           if on_disk \<noteq> unat (oi_compressed_size info) then err (PrSizes (oi_compressed_size info) on_disk)
           else ok (path, so_bytes out))))))"

definition get ::
    "'d libusb20 \<Rightarrow> 'w folder \<Rightarrow> bool \<Rightarrow> selector option \<Rightarrow> u32 option \<Rightarrow>
     ('d \<times> 'w, probe_error, ustring \<times> nat) sm" where
  "get L F ptp_reset node handle =
     with_connection L ptp_reset node False True (\<lambda>T c. get_body T F handle c)"

section \<open>The benchmark\<close>

definition BENCH_READ_SIZES :: "nat list" where
  "BENCH_READ_SIZES = [4 * 1024, 16 * 1024, 64 * 1024, 256 * 1024]"

definition BENCH_ROUNDS :: nat where "BENCH_ROUNDS = 3"
definition BENCH_SEARCH :: nat where "BENCH_SEARCH = 120"

type_synonym bench_file = "u32 \<times> u32 \<times> ustring"

fun bench_files :: "'d transport \<Rightarrow> u32 list \<Rightarrow> ('d session, probe_error, bench_file list) sm" where
  "bench_files T [] = ok []"
| "bench_files T (h # hs) =
     and_then (probe_operation T ''GetObjectInfo'' GET_OBJECT_INFO [h]) (\<lambda>out.
     and_then (bench_files T hs) (\<lambda>rest.
     case object_info_parse (o_data out) of
       Inl e \<Rightarrow> ok rest
     | Inr i \<Rightarrow>
         ok (if \<not> object_info_is_folder i \<and> 0 < oi_compressed_size i
             then (h, oi_compressed_size i, oi_filename i) # rest else rest)))"

text \<open>The smallest, a middle one and the largest of the files, each handle once.\<close>

definition bench_choice :: "bench_file list \<Rightarrow> bench_file list" where
  "bench_choice found_files =
     (let files = sort_key (\<lambda>f. fst (snd f)) found_files
      in foldl (\<lambda>chosen idx.
           let f = files ! idx in
           if list_ex (\<lambda>c. fst c = fst f) chosen then chosen else chosen @ [f])
         [] [0, length files div 2, length files - 1])"

definition sink :: "unit io_writer" where "sink bs = ok ()"

text \<open>One row: the bytes and the reads of each round, or the fault and what was dropped after it.\<close>

fun bench_rounds ::
    "'d transport \<Rightarrow> u32 \<Rightarrow> nat \<Rightarrow> 'd session \<Rightarrow> (session_error \<times> nat + (nat \<times> nat) list) \<times> 'd session" where
  "bench_rounds T handle 0 s = (Inr [], s)"
| "bench_rounds T handle (Suc k) s =
     (case operation_stream T sink ''GetObject'' GET_OBJECT [handle] (s, ()) of
        (Inl e, (s', _)) \<Rightarrow> (case drain T s' of (dropped, s'') \<Rightarrow> (Inl (e, dropped), s''))
      | (Inr out, (s', _)) \<Rightarrow>
          (case bench_rounds T handle k s' of
             (Inl f, s'') \<Rightarrow> (Inl f, s'')
           | (Inr rounds, s'') \<Rightarrow> (Inr ((so_bytes out, so_reads out) # rounds), s'')))"

type_synonym bench_row = "u32 \<times> nat \<times> (session_error \<times> nat + (nat \<times> nat) list)"

fun bench_rows :: "'d transport \<Rightarrow> (u32 \<times> nat) list \<Rightarrow> 'd session \<Rightarrow> bench_row list \<times> 'd session" where
  "bench_rows T [] s = ([], s)"
| "bench_rows T ((handle, read_size) # rows) s =
     (case bench_rounds T handle BENCH_ROUNDS (set_read_buffer read_size s) of
        (row, s') \<Rightarrow> (case bench_rows T rows s' of (rest, s'') \<Rightarrow> ((handle, read_size, row) # rest, s'')))"

definition link_report :: "'d transport \<Rightarrow> 'd session \<Rightarrow> bool option \<times> 'd session" where
  "link_report T s =
     (if tp_speed T (ses_device s) = High
      then case device_capabilities T s of
          (Inr caps, s') \<Rightarrow> (Some (supports_faster_than_high caps), s') | (Inl e, s') \<Rightarrow> (None, s')
      else (None, s))"

definition bench_body ::
    "'d transport \<Rightarrow> 'd connected \<Rightarrow> ('d session, probe_error, bool option \<times> bench_row list) sm" where
  "bench_body T c =
     and_then (\<lambda>s. case link_report T s of (faster, s') \<Rightarrow> (Inr faster, s')) (\<lambda>faster.
     and_then (all_handles T (cn_storage c)) (\<lambda>handles.
     and_then (bench_files T (take BENCH_SEARCH handles)) (\<lambda>files.
     if files = [] then and_then (close_quietly T) (\<lambda>_. err PrNoFile)
     else
       and_then (\<lambda>s. case bench_rows T
           (concat (map (\<lambda>f. map (Pair (fst f)) BENCH_READ_SIZES) (bench_choice files))) s of
           (rows, s') \<Rightarrow> (Inr rows, s')) (\<lambda>rows.
       and_then (close_quietly T) (\<lambda>_. ok (faster, rows))))))"

definition bench ::
    "'d libusb20 \<Rightarrow> bool \<Rightarrow> selector option \<Rightarrow>
     ('d \<times> unit, probe_error, bool option \<times> bench_row list) sm" where
  "bench L ptp_reset node =
     with_connection L ptp_reset node False True (\<lambda>T c. on_fst (bench_body T c))"

section \<open>What a report shows\<close>

definition display_name :: "ustring \<Rightarrow> bool \<Rightarrow> ustring" where
  "display_name name hide =
     (if \<not> hide then name
      else case rsplit_once 46 name of
          Some (_, ext) \<Rightarrow>
            if ext \<noteq> [] \<and> length (utf8_bytes ext) \<le> 8 then lit ''<name hidden>.'' @ ext
            else lit ''<name hidden>''
        | None \<Rightarrow> lit ''<name hidden>'')"

definition short_name :: "ustring \<Rightarrow> ustring" where
  "short_name name =
     (let count = length name
      in if count \<le> 24 then name else lit ''...'' @ drop (count - 12) name)"

definition human :: "nat \<Rightarrow> ustring" where
  "human n =
     (if 1024 * 1024 \<le> n then decimal (n div (1024 * 1024)) @ lit '' MiB''
      else if 1024 \<le> n then decimal (n div 1024) @ lit '' KiB''
      else decimal n @ lit '' B'')"

text \<open>The operations of a device, in lines of at most 68 bytes; every item is ASCII.\<close>

definition op_item :: "u16 \<Rightarrow> ustring" where
  "op_item code =
     (if op_name code = ''unknown'' then lit ''0x'' @ hex4 code @ lit '' '' else lit (op_name code) @ lit '' '')"

fun fill_lines :: "ustring \<Rightarrow> ustring list \<Rightarrow> ustring list" where
  "fill_lines line [] = (if line = [] then [] else [line])"
| "fill_lines line (item # rest) =
     (if length line + length item > 68 then line # fill_lines item rest
      else fill_lines (line @ item) rest)"

definition caps_body :: "'d transport \<Rightarrow> ('d session, probe_error, device_info \<times> ustring list) sm" where
  "caps_body T =
     and_then (probe_operation T ''GetDeviceInfo'' GET_DEVICE_INFO []) (\<lambda>out.
     and_then (map_err (PrParse ''GetDeviceInfo'') (from_result (device_info_parse (o_data out)))) (\<lambda>info.
     let lines = fill_lines [] (map op_item (di_operations_supported info))
     in and_then (close_quietly T) (\<lambda>_. ok (info, lines))))"

definition caps ::
    "'d libusb20 \<Rightarrow> bool \<Rightarrow> selector option \<Rightarrow> ('d \<times> unit, probe_error, device_info \<times> ustring list) sm" where
  "caps L ptp_reset node =
     with_connection L ptp_reset node False False (\<lambda>T c. on_fst (caps_body T))"

section \<open>The command line\<close>

datatype args_error = NeedsName ustring | BadSelector ustring

fun split_device :: "ustring list \<Rightarrow> args_error + selector option \<times> ustring list" where
  "split_device [] = Inr (None, [])"
| "split_device (a # args) =
     (if a = lit ''-d'' \<or> a = lit ''--device''
      then case args of
          [] \<Rightarrow> Inl (NeedsName a)
        | name # args' \<Rightarrow>
            (case parse_selector name of
               None \<Rightarrow> Inl (BadSelector name)
             | Some sel \<Rightarrow> map_sum id (\<lambda>(node, rest). (Some (case node of Some s \<Rightarrow> s | None \<Rightarrow> sel), rest))
                 (split_device args'))
      else map_sum id (\<lambda>(node, rest). (node, a # rest)) (split_device args))"

definition parse_u32 :: "ustring \<Rightarrow> u32 option" where
  "parse_u32 s = map_option word_of_nat (from_str_radix 10 u32_max s)"

definition parse_handle :: "ustring \<Rightarrow> u32 option" where
  "parse_handle s =
     (case strip_prefix (lit ''0x'') s of
        Some hex \<Rightarrow> map_option word_of_nat (from_str_radix 16 u32_max hex)
      | None \<Rightarrow> parse_u32 s)"

datatype command =
    CProbe | CReopen nat | CColdstart | CObjects | CGet "u32 option" | CBench | CCaps | CHelp
  | CUnknown ustring

definition probe_command :: "ustring list \<Rightarrow> command" where
  "probe_command args =
     (case args of
        [] \<Rightarrow> CProbe
      | a # rest \<Rightarrow>
          let argument = (case rest of [] \<Rightarrow> None | b # _ \<Rightarrow> Some b) in
          if a = lit ''probe'' then CProbe
          else if a = lit ''reopen''
            then CReopen (case Option.bind argument parse_u32 of Some n \<Rightarrow> unat n | None \<Rightarrow> DEFAULT_CYCLES)
          else if a = lit ''coldstart'' then CColdstart
          else if a = lit ''objects'' then CObjects
          else if a = lit ''get'' then CGet (Option.bind argument parse_handle)
          else if a = lit ''bench'' then CBench
          else if a = lit ''caps'' then CCaps
          else if a = lit ''--help'' \<or> a = lit ''-h'' then CHelp
          else CUnknown a)"

text \<open>The program: success or failure, and what is left of the bus and of the folder.\<close>

definition passes :: "('e + 'a) \<times> 's \<Rightarrow> bool \<times> 's" where
  "passes r = (case r of (Inl e, s) \<Rightarrow> (False, s) | (Inr a, s) \<Rightarrow> (True, s))"

definition on_bus :: "('d, 'e, 'a) sm \<Rightarrow> 'd \<times> 'w \<Rightarrow> bool \<times> 'd \<times> 'w" where
  "on_bus m s = passes (on_fst m s)"

definition quietly :: "('d \<times> unit, 'e, 'a) sm \<Rightarrow> ('d, 'e, 'a) sm" where
  "quietly m d = (case m (d, ()) of (r, (d', _)) \<Rightarrow> (r, d'))"

definition probe_main ::
    "'d libusb20 \<Rightarrow> 'w folder \<Rightarrow> bool \<Rightarrow> ustring list \<Rightarrow> 'd \<times> 'w \<Rightarrow> bool \<times> 'd \<times> 'w" where
  "probe_main L F ptp_reset args s =
     (case split_device args of
        Inl e \<Rightarrow> (False, s)
      | Inr (node, rest) \<Rightarrow>
          (case probe_command rest of
             CProbe \<Rightarrow> on_bus (quietly (probe L ptp_reset node)) s
           | CReopen n \<Rightarrow> on_bus (reopen L ptp_reset node n) s
           | CColdstart \<Rightarrow> on_bus (coldstart L ptp_reset node) s
           | CObjects \<Rightarrow> on_bus (quietly (objects L ptp_reset node)) s
           | CGet h \<Rightarrow> passes (get L F ptp_reset node h s)
           | CBench \<Rightarrow> on_bus (quietly (bench L ptp_reset node)) s
           | CCaps \<Rightarrow> on_bus (quietly (caps L ptp_reset node)) s
           | CHelp \<Rightarrow> (True, s)
           | CUnknown c \<Rightarrow> (False, s)))"

end
