(* ===== verification/Mtpprobe_Laws.thy ===== *)
theory Mtpprobe_Laws
  imports Mtpprobe Usb_Held Mtp_Session_Life
begin

text \<open>
  Lemmas about the diagnosis tool: what its commands hold of the USB library and release again,
  what the names it writes and prints can be, which object it chooses and how long it waits.
\<close>

section \<open>The connection\<close>

context held_library begin

lemma held_hang_up:
  assumes "session_holds held_by B be m (ses_device s)"
  shows "held_by (hang_up L be m s) = backends_only B"
  using held_release [of B be m "ses_device (drop_session (mtp_transport L m) s)"] assms session.view_drop [of m s]
  by (simp add: hang_up_def session_holds_def)

lemma view_probe_operation: "keeps (same_view held_by) (probe_operation (mtp_transport L m) nm code params)"
  unfolding probe_operation_def by (intro view_step.keeps_map_err session.view_operation)

lemma view_array: "keeps (same_view held_by) (u32_array_of nm out)"
  unfolding u32_array_of_def by (intro view_step.keeps_map_err view_step.keeps_from_result)

lemmas view_body = view_step.keeps_and_then view_step.keeps_ok view_step.keeps_err
  view_step.keeps_map_err view_step.keeps_from_result view_probe_operation view_array

lemma view_wait: "keeps (same_view held_by) (wait_for_storage (mtp_transport L m))"
proof -
  have "keeps (same_view held_by) (storage_rounds (mtp_transport L m) k n)" for k n
    by (induction k arbitrary: n) (auto simp del: ok_apply intro!: view_body)
  then show ?thesis by (simp add: wait_for_storage_def)
qed

lemma view_start:
  assumes "start_session (mtp_transport L m) d iface sid = (r, s)"
  shows "held_by (ses_device s) = held_by d"
proof -
  have "same_view held_by (fst (session_new (mtp_transport L m) d (config_for iface))) s"
    using assms unfolding start_session_def
    by (rule keepsD [OF view_step.keeps_map_err [OF session.view_repair]])
  then show ?thesis by (simp add: same_view_def session.view_new)
qed

lemma held_no_message: "h_devices (held_by d) = {} \<Longrightarrow> held_by (snd (no_mtp_message L be want d)) = held_by d"
  using held_android [of d be PROBE_TIMEOUT] by (auto simp: no_mtp_message_def split: option.splits prod.splits)

lemma held_find_mtp:
  assumes none: "h_devices (held_by d) = {}" and run: "find_mtp L be node quiet d = (r, d')"
  shows "held_by d' = (case r of Inl e \<Rightarrow> held_by d | Inr x \<Rightarrow> (held_by d)\<lparr>h_devices := {fd_device x}\<rparr>)"
proof -
  define d0 where "d0 = (if quiet then d else snd (devices L be d))"
  have d0: "held_by d0 = held_by d" by (simp add: d0_def frame_devices)
  obtain x d1 where x: "find_device L be node PROBE_TIMEOUT d0 = (x, d1)" by fastforce
  have d1: "held_by d1 = holding (held_by d) x" using held_find [OF _ x] none d0 by simp
  obtain e d2 where e: "no_mtp_message L be node d1 = (e, d2)" by fastforce
  have "x = None \<Longrightarrow> held_by d2 = held_by d" using held_no_message [of d1 be node] d1 none e by simp
  then show ?thesis
    using run x d1 e by (cases x) (auto simp: find_mtp_def d0_def [symmetric])
qed

lemma held_connect:
  assumes none: "held_by d = backends_only B" and run: "connect L ptp_reset node quiet needs d = x"
  shows "case x of
      Inl (e, d') \<Rightarrow> held_by d' = backends_only B
    | Inr c \<Rightarrow> session_holds held_by B (cn_backend c) (cn_device c) (ses_device (cn_session c))"
proof -
  obtain a d1 where a: "backend_new L d = (a, d1)" by fastforce
  show ?thesis
  proof (cases a)
    case (Inl e)
    then show ?thesis using run a held_new [OF a] none by (auto simp: connect_def)
  next
    case (Inr be)
    then have be: "be \<notin> B" and d1: "held_by d1 = backends_only (insert be B)"
      using held_new [OF a] none by auto
    obtain b d2 where b: "find_mtp L be node quiet d1 = (b, d2)" by fastforce
    have d2: "held_by d2 = (case b of Inl e \<Rightarrow> held_by d1 | Inr x \<Rightarrow> (held_by d1)\<lparr>h_devices := {fd_device x}\<rparr>)"
      using held_find_mtp [OF _ b] d1 by simp
    show ?thesis
    proof (cases b)
      case (Inl e)
      then show ?thesis using run a Inr b be d1 d2 by (auto simp: connect_def held_free)
    next
      case found: (Inr y)
      define dev where "dev = fd_device y"
      define i where "i = mi_interface_number (fd_iface y)"
      define d3 where "d3 = (case kernel_driver_active L dev i d2 of (active, d') \<Rightarrow>
         if active then snd (detach_kernel_driver L dev i d') else d')"
      define d4 where "d4 = (if ptp_reset then snd (ptp_device_reset L dev i PROBE_TIMEOUT d3) else d3)"
      have "held_by d3 = held_by d2"
        by (simp add: d3_def frame_small case_prod_beta)
      then have d4: "held_by d4 = \<lparr>h_backends = insert be B, h_devices = {dev}, h_transfers = {}\<rparr>"
        using d1 d2 found by (simp add: d4_def frame_small dev_def)
      obtain c d5 where c: "into_mtp L dev (fd_iface y) PROBE_BULK_BUFFER d4 = (c, d5)" by fastforce
      note d5 = held_into_mtp [OF be d4 c]
      note run = run [unfolded connect_def a Inr b found prod.case sum.case Let_def, folded dev_def,
          folded i_def, folded d3_def, folded d4_def, unfolded c prod.case sum.case]
      show ?thesis
      proof (cases c)
        case (Inl e)
        then show ?thesis using run d5 be by (auto simp: held_free)
      next
        case m: (Inr m)
        obtain q s where q: "start_session (mtp_transport L m) d5 (fd_iface y) 1 = (q, s)" by fastforce
        have s: "session_holds held_by B be m (ses_device s)"
          using d5 m view_start [OF q] by (simp add: session_holds_def)
        obtain w s' where w: "wait_for_storage (mtp_transport L m) s = (w, s')" by fastforce
        have s': "session_holds held_by B be m (ses_device s')" using view_wait w s by (rule holds_after)
        show ?thesis
          using run m q w s s' held_hang_up by (auto split: sum.splits if_splits)
      qed
    qed
  qed
qed

lemma held_with_connection:
  assumes none: "held_by d = backends_only B"
    and body: "\<And>m c. keeps (same_view2 held_by) (body (mtp_transport L m) c)"
    and run: "with_connection L ptp_reset node quiet needs body (d, w) = (r, (d', w'))"
  shows "held_by d' = backends_only B"
proof (cases "connect L ptp_reset node quiet needs d")
  case (Inl x)
  then show ?thesis using held_connect [OF none Inl] run by (auto simp: with_connection_def)
next
  case (Inr c)
  have c: "session_holds held_by B (cn_backend c) (cn_device c) (ses_device (cn_session c))"
    using held_connect [OF none Inr] by simp
  obtain r' s w'' where b: "body (mtp_transport L (cn_device c)) c (cn_session c, w) = (r', (s, w''))"
    by (cases "body (mtp_transport L (cn_device c)) c (cn_session c, w)") auto
  have "same_view held_by (cn_session c) s"
    using keepsD [OF body b] by (simp add: same_view2_def)
  then have "session_holds held_by B (cn_backend c) (cn_device c) (ses_device s)"
    using c by (simp add: same_view_def session_holds_def)
  then have "held_by (hang_up L (cn_backend c) (cn_device c) s) = backends_only B" by (rule held_hang_up)
  then show ?thesis using run Inr b by (auto simp: with_connection_def)
qed

section \<open>The bodies of the commands\<close>

lemma view_close_quietly: "keeps (same_view held_by) (close_quietly (mtp_transport L m))"
  using session.view_close by (simp add: close_quietly_def keeps_def)

lemma view_step_op: "keeps (same_view held_by) (step (mtp_transport L m) nm code params)"
  unfolding step_def by (auto simp del: ok_apply intro!: view_body)

lemma view_infos: "keeps (same_view held_by) (storage_infos (mtp_transport L m) sids)"
  by (induction sids) (auto simp del: ok_apply intro!: view_body view_step_op)

lemma view_probe_body: "keeps (same_view held_by) (probe_body (mtp_transport L m) c)"
  unfolding probe_body_def Let_def
  by (auto simp del: ok_apply intro!: view_body view_infos view_step_op view_close_quietly session.view_open)

lemma view_cycle_body: "keeps (same_view held_by) (cycle_body (mtp_transport L m))"
  unfolding cycle_body_def by (auto simp del: ok_apply intro!: view_body session.view_close)

lemma view_objects_under: "keeps (same_view held_by) (objects_under (mtp_transport L m) storage parents)"
proof -
  have "keeps (same_view held_by) (count_kinds (mtp_transport L m) hs)" for hs
    by (induction hs) (auto simp del: ok_apply intro!: view_body split: sum.split)
  then show ?thesis by (induction parents) (auto simp del: ok_apply intro!: view_body)
qed

lemma view_handles: "keeps (same_view held_by) (all_handles (mtp_transport L m) storage)"
  unfolding all_handles_def by (auto simp del: ok_apply intro!: view_body)

lemma view_choose: "keeps (same_view held_by) (choose_object (mtp_transport L m) storage handle)"
proof -
  have "keeps (same_view held_by) (smallest_of (mtp_transport L m) hs best)" for hs best
    by (induction hs arbitrary: best) (auto simp del: ok_apply intro!: view_body split: sum.split)
  then show ?thesis
    unfolding choose_object_def
    by (auto simp del: ok_apply intro!: view_body view_handles split: option.split)
qed

lemma view_stream_file: "keeps (same_view2 held_by) (stream_to_file (mtp_transport L m) F target)"
proof -
  have "keeps (same_view2 held_by)
      (and_then (map_err PrSession (operation_stream (mtp_transport L m) (fo_write F) ''GetObject'' GET_OBJECT [target]))
        (\<lambda>out. and_then (on_snd (map_err (PrHost ''flush'') (fo_flush F))) (\<lambda>_. ok out)))"
    by (auto simp del: ok_apply intro!: view_intros session.view_stream)
  then show ?thesis
    unfolding keeps_def stream_to_file_def same_view2_def by (simp add: case_prod_beta)
qed

lemma view_get_body: "keeps (same_view2 held_by) (get_body (mtp_transport L m) F handle c)"
  unfolding get_body_def
  by (auto simp del: ok_apply intro!: view_intros view_choose view_close_quietly view_stream_file
      split: option.split)

lemma view_bench_body: "keeps (same_view held_by) (bench_body (mtp_transport L m) c)"
proof -
  have files: "keeps (same_view held_by) (bench_files (mtp_transport L m) hs)" for hs
    by (induction hs) (auto simp del: ok_apply intro!: view_body split: sum.split)
  have rounds: "held_by (ses_device (snd (bench_rounds (mtp_transport L m) h k s))) = held_by (ses_device s)" for h k s
  proof (induction k arbitrary: s)
    case (Suc k)
    obtain r s' u where o: "operation_stream (mtp_transport L m) sink ''GetObject'' GET_OBJECT [h] (s, ()) = (r, (s', u))"
      by (cases "operation_stream (mtp_transport L m) sink ''GetObject'' GET_OBJECT [h] (s, ())") auto
    have "held_by (ses_device s') = held_by (ses_device s)"
      using keepsD [OF session.view_stream o] by (simp add: same_view2_def same_view_def)
    then show ?case
      using o Suc.IH [of s'] session.view_drain [of m s'] by (auto split: sum.splits prod.splits)
  qed simp
  have rows: "held_by (ses_device (snd (bench_rows (mtp_transport L m) rs s))) = held_by (ses_device s)" for rs s
    by (induction rs arbitrary: s) (auto simp: case_prod_beta rounds set_read_buffer_def)
  have link: "held_by (ses_device (snd (link_report (mtp_transport L m) s))) = held_by (ses_device s)" for s
    using session.view_device_capabilities [of m s]
    by (auto simp: link_report_def split: prod.splits sum.splits)
  show ?thesis
    unfolding bench_body_def
    by (intro view_step.keeps_and_then view_step.keeps_if view_handles files view_close_quietly
        view_step.keeps_ok view_step.keeps_err)
       (simp_all add: keeps_def same_view_def case_prod_beta link rows)
qed

lemma view_caps_body: "keeps (same_view held_by) (caps_body (mtp_transport L m))"
  unfolding caps_body_def Let_def by (auto simp del: ok_apply intro!: view_body view_close_quietly)

section \<open>The commands\<close>

lemma held_quietly:
  assumes "held_by d = backends_only B" and "\<And>m c. keeps (same_view held_by) (body (mtp_transport L m) c)"
    and "quietly (with_connection L ptp_reset node quiet needs (\<lambda>T c. on_fst (body T c))) d = (r, d')"
  shows "held_by d' = backends_only B"
proof -
  obtain w where "with_connection L ptp_reset node quiet needs (\<lambda>T c. on_fst (body T c)) (d, ()) = (r, (d', w))"
    using assms(3) by (auto simp: quietly_def split: prod.splits)
  with assms(1) show ?thesis
    by (rule held_with_connection [where body = "\<lambda>T c. on_fst (body T c)", OF _ view_on_fst [OF assms(2)]])
qed

lemma held_cycles:
  "held_by d = backends_only B \<Longrightarrow> held_by (snd (cycles L ptp_reset node n k d)) = backends_only B"
proof (induction k arbitrary: n d)
  case (Suc k)
  obtain r d1 where c: "quietly (with_connection L ptp_reset node True False (\<lambda>T c. on_fst (cycle_body T))) d = (r, d1)"
    by fastforce
  have "held_by d1 = backends_only B"
    using Suc.prems c by (rule held_quietly [where body = "\<lambda>T c. cycle_body T", OF _ view_cycle_body])
  then show ?case
    using c Suc.IH [of d1 "n + 1"] by (auto simp: quietly_def split: prod.splits sum.splits)
qed simp

lemma held_look:
  assumes none: "held_by d = backends_only B" and new: "backend_new L d = (Inr be, d1)"
  shows "any_device L be t d1 = (b, d2) \<Longrightarrow> held_by (lib_be_free L be d2) = backends_only B"
    and "find_mtp L be node quiet d1 = (Inl e, d2) \<Longrightarrow> held_by (lib_be_free L be d2) = backends_only B"
    and "find_mtp L be node quiet d1 = (Inr x, d2) \<Longrightarrow>
      be \<notin> B \<and> held_by d2 = \<lparr>h_backends = insert be B, h_devices = {fd_device x}, h_transfers = {}\<rparr>"
proof -
  have be: "be \<notin> B" and d1: "held_by d1 = backends_only (insert be B)"
    using held_new [OF new] none by auto
  show "any_device L be t d1 = (b, d2) \<Longrightarrow> held_by (lib_be_free L be d2) = backends_only B"
    using be d1 held_any [of d1 be t b d2] by (simp add: held_free)
  show "find_mtp L be node quiet d1 = (Inl e, d2) \<Longrightarrow> held_by (lib_be_free L be d2) = backends_only B"
    and "find_mtp L be node quiet d1 = (Inr x, d2) \<Longrightarrow>
      be \<notin> B \<and> held_by d2 = \<lparr>h_backends = insert be B, h_devices = {fd_device x}, h_transfers = {}\<rparr>"
    using be d1 held_find_mtp [of d1 be node quiet _ d2] by (auto simp: held_free)
qed

lemma held_rounds:
  "held_by d = backends_only B \<Longrightarrow> held_by (snd (leave_rounds L k d)) = backends_only B"
  "held_by d = backends_only B \<Longrightarrow> held_by (snd (return_rounds L k d)) = backends_only B"
  by (induction k arbitrary: d; auto dest: held_fails held_look split: prod.splits sum.splits)+

lemma held_reset_found:
  assumes "held_by d = backends_only B"
  shows "held_by (snd (reset_found L node d)) = backends_only B"
proof (cases "backend_new L d")
  case (Pair a d1)
  show ?thesis
  proof (cases a)
    case (Inl e)
    then show ?thesis using Pair held_fails [OF assms] by (simp add: reset_found_def)
  next
    case (Inr be)
    then have new: "backend_new L d = (Inr be, d1)" using Pair by simp
    obtain b d2 where b: "find_mtp L be node False d1 = (b, d2)" by fastforce
    have reset: "held_by (snd (map_err PrUsb (dev_reset L v) d2)) = held_by d2" for v
      using frame_small(1) [of v d2] by (auto simp: map_err_def split: prod.splits sum.splits)
    show ?thesis
      using new b held_look(2,3) [OF assms new] reset
      by (cases b) (auto simp: reset_found_def held_free held_drop case_prod_beta)
  qed
qed

lemma free_quietly:
  assumes "\<And>m c. keeps (same_view held_by) (body (mtp_transport L m) c)"
  shows "keeps (stays_free held_by) (quietly (with_connection L ptp_reset node quiet needs (\<lambda>T c. on_fst (body T c))))"
proof (rule keepsI)
  fix d r d'
  assume run: "quietly (with_connection L ptp_reset node quiet needs (\<lambda>T c. on_fst (body T c))) d = (r, d')"
  have "held_by d' = backends_only B" if "held_by d = backends_only B" for B
    using that assms run by (rule held_quietly)
  then show "stays_free held_by d d'" by (simp add: stays_free_def)
qed

lemma free_coldstart: "keeps (stays_free held_by) (coldstart L ptp_reset node)"
proof -
  have wait: "keeps (same_view held_by) (and_then (wait_for_storage (mtp_transport L m)) (\<lambda>w.
      and_then (close_quietly (mtp_transport L m)) (\<lambda>_. ok w)))" for m
    by (intro view_step.keeps_and_then view_wait view_close_quietly view_step.keeps_ok)
  have quiet: "keeps (stays_free held_by) (\<lambda>d. case with_connection L ptp_reset node True False (\<lambda>T c. on_fst (
      and_then (wait_for_storage T) (\<lambda>w. and_then (close_quietly T) (\<lambda>_. ok w)))) (d, ()) of
      (r, (d', _)) \<Rightarrow> (r, d'))"
    using free_quietly [where body = "\<lambda>T c. and_then (wait_for_storage T) (\<lambda>w.
        and_then (close_quietly T) (\<lambda>_. ok w))", OF wait]
    by (simp add: quietly_def [abs_def])
  have parts: "keeps (stays_free held_by) (reset_found L node)"
    "keeps (stays_free held_by) (leave_rounds L k)" "keeps (stays_free held_by) (return_rounds L k)" for k
    by (simp_all add: keeps_def stays_free_def held_reset_found held_rounds)
  show ?thesis
    unfolding coldstart_def
    by (intro free_step.keeps_and_then free_step.keeps_if free_step.keeps_ok free_step.keeps_err parts quiet)
qed

lemma free_reopen: "keeps (stays_free held_by) (reopen L ptp_reset node n)"
proof (rule keepsI)
  fix d r d'
  assume run: "reopen L ptp_reset node n d = (r, d')"
  have "held_by d' = backends_only B" if none: "held_by d = backends_only B" for B
  proof (cases "backend_new L d")
    case (Pair a d1)
    show ?thesis
    proof (cases a)
      case (Inl e)
      then show ?thesis using Pair held_fails [OF none] run by (simp add: reopen_def)
    next
      case (Inr be)
      then have new: "backend_new L d = (Inr be, d1)" using Pair by simp
      obtain b d2 where b: "find_mtp L be node False d1 = (b, d2)" by fastforce
      show ?thesis
      proof (cases b)
        case (Inl e)
        then show ?thesis using new b held_look(2) [OF none new] run by (auto simp: reopen_def)
      next
        case found: (Inr x)
        define d3 where "d3 = drop_open_device L (fd_device x) d2"
        have be: "be \<notin> B" and "held_by d3 = backends_only (insert be B)"
          using held_look(3) [OF none new] b found by (auto simp: d3_def held_drop)
        then have "held_by (snd (cycles L ptp_reset node 1 n d3)) = backends_only (insert be B)"
          by (intro held_cycles)
        then show ?thesis
          using run new b found be by (auto simp: reopen_def d3_def held_free split: prod.splits)
      qed
    qed
  qed
  then show "stays_free held_by d d'" by (simp add: stays_free_def)
qed

lemma free_get:
  assumes "held_by d = backends_only B" and "get L F ptp_reset node handle (d, w) = (r, (d', w'))"
  shows "held_by d' = backends_only B"
  using assms(1) view_get_body assms(2) [unfolded get_def] by (rule held_with_connection)

lemma free_commands:
  "keeps (stays_free held_by) (quietly (probe L ptp_reset node))"
  "keeps (stays_free held_by) (quietly (objects L ptp_reset node))"
  "keeps (stays_free held_by) (quietly (bench L ptp_reset node))"
  "keeps (stays_free held_by) (quietly (caps L ptp_reset node))"
  unfolding probe_def objects_def bench_def caps_def
  by (rule free_quietly; intro view_probe_body view_bench_body view_caps_body view_step.keeps_and_then
      view_objects_under view_close_quietly view_step.keeps_ok)+

lemma free_bus:
  assumes "held_by d = backends_only B" and "keeps (stays_free held_by) m"
  shows "held_by (fst (snd (on_bus m (d, w)))) = backends_only B"
proof -
  have "stays_free held_by d (snd (m d))" using assms(2) by (simp add: keeps_def)
  then have "held_by (snd (m d)) = backends_only B" using assms(1) by (simp add: stays_free_def)
  then show ?thesis by (auto simp: on_bus_def passes_def split: prod.splits sum.splits)
qed

lemma free_copy:
  assumes "held_by d = backends_only B"
  shows "held_by (fst (snd (passes (get L F ptp_reset node h (d, w))))) = backends_only B"
proof -
  obtain r d' w' where g: "get L F ptp_reset node h (d, w) = (r, (d', w'))"
    by (cases "get L F ptp_reset node h (d, w)") auto
  show ?thesis using free_get [OF assms g] g by (auto simp: passes_def split: sum.splits)
qed

lemma free_main:
  assumes none: "held_by d = backends_only B"
  shows "held_by (fst (snd (probe_main L F ptp_reset args (d, w)))) = backends_only B"
  using none
  by (auto simp: probe_main_def split: sum.split command.split
      intro: free_bus free_copy free_coldstart free_reopen free_commands)

end

section \<open>Names\<close>

lemma rev_takeWhile_suffix:
  "\<exists>p. xs = p @ rev (takeWhile P (rev xs)) \<and> (p = [] \<or> \<not> P (last p))"
proof -
  let ?d = "dropWhile P (rev xs)"
  have "xs = rev ?d @ rev (takeWhile P (rev xs))"
    by (metis rev_append rev_rev_ident takeWhile_dropWhile_id)
  moreover have "rev ?d = [] \<or> \<not> P (last (rev ?d))"
    by (cases ?d) (use hd_dropWhile [of P "rev xs"] in auto)
  ultimately show ?thesis by blast
qed

lemma safe_name_parts:
  assumes "safe_name s = Some t"
  shows "t \<noteq> [] \<and> 47 \<notin> set t \<and> 92 \<notin> set t \<and> t \<noteq> lit ''.'' \<and> t \<noteq> lit ''..''
    \<and> (\<exists>p. s = p @ t \<and> (p = [] \<or> last p = 47 \<or> last p = 92))"
proof -
  have t: "t = rev (takeWhile (\<lambda>c. c \<noteq> 47 \<and> c \<noteq> 92) (rev s))"
    and good: "t \<noteq> []" "t \<noteq> lit ''.''" "t \<noteq> lit ''..''"
    using assms by (auto simp: safe_name_def Let_def split: if_splits)
  have "47 \<notin> set t \<and> 92 \<notin> set t" by (auto simp: t dest: set_takeWhileD)
  moreover have "\<exists>p. s = p @ t \<and> (p = [] \<or> last p = 47 \<or> last p = 92)"
    using rev_takeWhile_suffix [of s "\<lambda>c. c \<noteq> 47 \<and> c \<noteq> 92"] by (auto simp: t)
  ultimately show ?thesis using good by simp
qed

lemma rsplit_once_after:
  "\<exists>x x' y. rsplit_once c (a @ c # b) = Some (x, y) \<and> rsplit_once c (a' @ c # b) = Some (x', y)"
proof -
  have first: "\<exists>x x' y. split_once c (r @ c # q) = Some (y, x) \<and> split_once c (r @ c # q') = Some (y, x')" for r q q'
    by (induction r) auto
  show ?thesis using first [of "rev b" "rev a" "rev a'"] by (auto simp: rsplit_once_def)
qed

section \<open>The choice of the smallest file\<close>

text \<open>What the device says of the handles, one operation each; what does not parse is left out.\<close>

fun readable_infos :: "'d transport \<Rightarrow> u32 list \<Rightarrow> ('d session, probe_error, (u32 \<times> object_info) list) sm" where
  "readable_infos T [] = ok []"
| "readable_infos T (h # hs) =
     and_then (probe_operation T ''GetObjectInfo'' GET_OBJECT_INFO [h]) (\<lambda>out.
     and_then (readable_infos T hs) (\<lambda>rest.
     ok (case object_info_parse (o_data out) of Inl e \<Rightarrow> rest | Inr info \<Rightarrow> (h, info) # rest)))"

definition is_file :: "object_info \<Rightarrow> bool" where
  "is_file i \<longleftrightarrow> \<not> object_info_is_folder i \<and> oi_compressed_size i \<noteq> 0"

lemma smallest_of_fold:
  "smallest_of T hs best =
     and_then (readable_infos T hs) (\<lambda>infos. ok (fold (\<lambda>(h, i). smaller h i) infos best))"
proof (induction hs arbitrary: best)
  case Nil
  then show ?case by simp
next
  case (Cons h hs)
  show ?case
    by (rule ext)
       (auto simp: Cons.IH and_then_def split: prod.splits sum.splits)
qed

definition least_file :: "(u32 \<times> object_info) list \<Rightarrow> (u32 \<times> object_info) option \<Rightarrow> bool" where
  "least_file infos best \<longleftrightarrow>
     (case best of
        None \<Rightarrow> \<forall>x\<in>set infos. \<not> is_file (snd x)
      | Some b \<Rightarrow> b \<in> set infos \<and> is_file (snd b)
          \<and> (\<forall>x\<in>set infos. is_file (snd x) \<longrightarrow> oi_compressed_size (snd b) \<le> oi_compressed_size (snd x)))"

lemma least_smaller: "least_file infos best \<Longrightarrow> least_file ((h, i) # infos) (smaller h i best)"
  by (auto simp: least_file_def smaller_def is_file_def split: option.splits)

lemma least_fold: "least_file seen best \<Longrightarrow> least_file (rev infos @ seen) (fold (\<lambda>(h, i). smaller h i) infos best)"
proof (induction infos arbitrary: seen best)
  case (Cons x infos)
  then show ?case
    using Cons.IH [of "x # seen"] least_smaller [of seen best "fst x" "snd x"] by (simp add: case_prod_beta)
qed simp

lemma least_file_rev: "least_file (rev infos) best = least_file infos best"
  by (simp add: least_file_def split: option.split)

lemma least_smallest:
  assumes "smallest_of T hs None s = (Inr best, t)"
  shows "\<exists>infos. readable_infos T hs s = (Inr infos, t) \<and> least_file infos best"
proof -
  obtain infos where "readable_infos T hs s = (Inr infos, t)"
    and "best = fold (\<lambda>(h, i). smaller h i) infos None"
    using assms by (auto simp: smallest_of_fold and_then_Inr_iff)
  moreover have "least_file [] None" by (simp add: least_file_def)
  ultimately show ?thesis using least_fold [of "[]" None infos] by (simp add: least_file_rev)
qed

section \<open>The wait for a storage\<close>

lemma storage_rounds_count:
  "storage_rounds T k n s = (Inr w, t) \<Longrightarrow>
     (\<exists>j\<le>k. ses_transaction t = ses_transaction s + word_of_nat j
        \<and> (if sw_ids w = [] then j = k \<and> sw_attempts w = STORAGE_ATTEMPTS
           else 0 < j \<and> sw_attempts w + 1 = n + j))"
proof (induction k arbitrary: n s)
  case (Suc k)
  obtain r s1 where op: "operation T ''GetStorageIDs'' GET_STORAGE_IDS [] s = (r, s1)" by fastforce
  have s1: "ses_transaction s1 = ses_transaction s + 1" using op by (rule operation_transaction)
  from Suc.prems op obtain out xs where out: "r = Inr out" "as_u32_array out = Inr xs"
    by (auto simp: probe_operation_def u32_array_of_def and_then_def map_err_def split: sum.splits prod.splits)
  show ?case
  proof (cases "xs = []")
    case True
    then have "storage_rounds T k (n + 1) s1 = (Inr w, t)"
      using Suc.prems op out
      by (simp add: probe_operation_def u32_array_of_def and_then_def map_err_def split: sum.splits prod.splits)
    from Suc.IH [OF this] obtain j where j: "j \<le> k"
      "ses_transaction t = ses_transaction s1 + word_of_nat j"
      "if sw_ids w = [] then j = k \<and> sw_attempts w = STORAGE_ATTEMPTS else 0 < j \<and> sw_attempts w + 1 = n + 1 + j"
      by blast
    then show ?thesis using s1 by (intro exI [of _ "Suc j"]) (auto split: if_splits)
  next
    case False
    then show ?thesis
      using Suc.prems op out s1
      by (auto intro!: exI [of _ 1] simp: probe_operation_def u32_array_of_def and_then_def map_err_def
          split: sum.splits prod.splits)
  qed
qed auto

text \<open>A device whose list stays empty.\<close>

lemma empty_rounds:
  "left_answers (ses_device s) = replicate k (Bytes (response_bytes RESP_OK 0 [])) \<Longrightarrow>
     12 \<le> cfg_read_buffer (ses_config s) \<Longrightarrow>
     \<exists>t. storage_rounds fake_transport k n s = (Inr \<lparr>sw_ids = [], sw_attempts = STORAGE_ATTEMPTS\<rparr>, t)"
proof (induction k arbitrary: n s)
  case (Suc k)
  let ?s = "at_device (after_answers 1) (issue GET_STORAGE_IDS [] s)"
  have op: "operation fake_transport ''GetStorageIDs'' GET_STORAGE_IDS [] s = (Inr (code_only RESP_OK), ?s)"
    unfolding code_only_def
    by (rule operation_fake_response [where later = "replicate k (Bytes (response_bytes RESP_OK 0 []))"])
       (use Suc.prems in simp_all)
  have "\<exists>t. storage_rounds fake_transport k (n + 1) ?s = (Inr \<lparr>sw_ids = [], sw_attempts = STORAGE_ATTEMPTS\<rparr>, t)"
    by (rule Suc.IH) (use Suc.prems in simp_all)
  then show ?case
    using op by (simp add: probe_operation_def u32_array_of_def and_then_def map_err_def code_only_def as_u32_array_def)
qed simp

section \<open>The properties\<close>

text \<open>A folder that takes everything and keeps nothing.\<close>

definition empty_folder :: "unit folder" where
  "empty_folder = \<lparr>fo_create = \<lambda>_. ok (), fo_write = \<lambda>_. ok (), fo_flush = ok (), fo_drop = id, fo_len = \<lambda>_. ok 0\<rparr>"

text \<open>
  C37: whatever the command line, the device and the folder answer, the tool ends with no backend
  allocated, no device open and no transfer open that was not so before it began.
\<close>

theorem probe_main_releases:
  assumes "tracks_library L held_by" and "held_by d = nothing_held"
    and "probe_main L F ptp_reset args (d, w) = (success, (d', w'))"
  shows "held_by d' = nothing_held"
  using held_library.free_main [OF held_library.intro [OF assms(1)], of d "{}" F ptp_reset args w] assms(2,3)
  by (simp add: nothing_held_def)

lemma probe_main_releases_witness:
  "fst (snd (probe_main held_bus empty_folder False [lit ''caps''] (nothing_held, ()))) = nothing_held"
proof -
  obtain b d' w' where run: "probe_main held_bus empty_folder False [lit ''caps''] (nothing_held, ()) = (b, (d', w'))"
    by (cases "probe_main held_bus empty_folder False [lit ''caps''] (nothing_held, ())") auto
  then show ?thesis using probe_main_releases [OF held_bus.tracks refl run] by simp
qed

text \<open>
  The file \<open>get\<close> writes is named by the end of the name the device gives, from its last
  separator on, and that end holds no separator of either kind and names no folder.
\<close>

theorem safe_name_inside:
  assumes "safe_name s = Some t"
  shows "t \<noteq> [] \<and> 47 \<notin> set t \<and> 92 \<notin> set t \<and> t \<noteq> lit ''.'' \<and> t \<noteq> lit ''..''
    \<and> (\<exists>p. s = p @ t \<and> (p = [] \<or> last p = 47 \<or> last p = 92))"
  using assms by (rule safe_name_parts)

lemma safe_name_inside_witness:
  "safe_name (lit ''../../etc/passwd'') = Some (lit ''passwd'') \<and> 47 \<notin> set (lit ''passwd'')"
proof -
  have "safe_name (lit ''../../etc/passwd'') = Some (lit ''passwd'')" by code_simp
  then show ?thesis using safe_name_inside by blast
qed

text \<open>
  A hidden name shows at most its extension, of at most eight bytes: what comes before the
  last dot, and the whole of a name without a dot, makes no difference to what is shown.
\<close>

theorem display_name_hides:
  "display_name (stem @ 46 # ext) True = display_name (46 # ext) True
    \<and> (46 \<in> set name \<or> display_name name True = lit ''<name hidden>'')
    \<and> (\<exists>tail. display_name name True = lit ''<name hidden>'' @ tail \<and> length (utf8_bytes tail) \<le> 9)"
proof (intro conjI)
  show "display_name (stem @ 46 # ext) True = display_name (46 # ext) True"
    using rsplit_once_after [of 46 stem ext "[]"] by (auto simp: display_name_def)
  show "46 \<in> set name \<or> display_name name True = lit ''<name hidden>''"
    using rsplit_once_None [of 46 name] by (auto simp: display_name_def split: option.split)
  show "\<exists>tail. display_name name True = lit ''<name hidden>'' @ tail \<and> length (utf8_bytes tail) \<le> 9"
  proof (cases "display_name name True = lit ''<name hidden>''")
    case False
    then obtain ext where "display_name name True = lit ''<name hidden>.'' @ ext" and ext: "length (utf8_bytes ext) \<le> 8"
      by (auto simp: display_name_def split: option.splits if_splits)
    then have "display_name name True = lit ''<name hidden>'' @ 46 # ext" by (simp add: lit_def)
    moreover have "length (utf8_bytes (46 # ext)) \<le> 9" using ext by (simp add: utf8_bytes_def utf8_char_def)
    ultimately show ?thesis by blast
  qed (simp add: utf8_bytes_def)
qed

text \<open>
  A wait for the storage list that ends makes one request for each attempt it reports, and
  gives an empty list only after all of its attempts.
\<close>

theorem wait_for_storage_counts:
  assumes "wait_for_storage T s = (Inr w, t)"
  shows "ses_transaction t = ses_transaction s + word_of_nat (sw_attempts w)
    \<and> 1 \<le> sw_attempts w \<and> sw_attempts w \<le> STORAGE_ATTEMPTS
    \<and> (sw_ids w = [] \<longrightarrow> sw_attempts w = STORAGE_ATTEMPTS)"
  using storage_rounds_count [OF assms [unfolded wait_for_storage_def]]
  by (auto simp: STORAGE_ATTEMPTS_def split: if_splits)

lemma wait_for_storage_counts_witness:
  "\<exists>t. wait_for_storage fake_transport (fake_session (replicate 10 (Bytes (response_bytes RESP_OK 0 []))))
      = (Inr \<lparr>sw_ids = [], sw_attempts = 10\<rparr>, t) \<and> ses_transaction t = 10"
proof -
  let ?s = "fake_session (replicate 10 (Bytes (response_bytes RESP_OK 0 [])))"
  obtain t where t: "wait_for_storage fake_transport ?s = (Inr \<lparr>sw_ids = [], sw_attempts = STORAGE_ATTEMPTS\<rparr>, t)"
    using empty_rounds [of ?s 10 1] by (auto simp: wait_for_storage_def STORAGE_ATTEMPTS_def fake_config_def READ_BUFFER_MIN_def)
  moreover have "ses_transaction ?s = 0" by (simp add: fake_session_def new_without_recovery_def)
  ultimately show ?thesis using wait_for_storage_counts [OF t] by (simp add: STORAGE_ATTEMPTS_def)
qed

end
