(* ===== verification/Hex_Fixture.thy ===== *)
theory Hex_Fixture
  imports Rust_Text
begin

text \<open>
  The reader of capture fixtures, \<open>crates/hex-fixture/src/lib.rs\<close>: text of annotated hexadecimal
  bytes, from the text of the file on. A panic is the value \<open>None\<close>. What is written in the form of
  a fixture reads back, whatever its comments hold.
\<close>

unbundle bit_operations_syntax

section \<open>The reader\<close>

text \<open>\<open>str::lines\<close>: the ends of lines are \<open>\n\<close> and \<open>\r\n\<close>, and the last line may have none.\<close>

definition strip_return :: "ustring \<Rightarrow> ustring" where
  "strip_return line = (if line \<noteq> [] \<and> last line = 13 then butlast line else line)"

definition lines_of :: "ustring \<Rightarrow> ustring list" where
  "lines_of txt =
     (let parts = split_on 10 txt
      in map strip_return (butlast parts) @ (if last parts = [] then [] else [last parts]))"

definition is_hexdigit :: "nat \<Rightarrow> bool" where
  "is_hexdigit c \<longleftrightarrow> 48 \<le> c \<and> c \<le> 57 \<or> 97 \<le> c \<and> c \<le> 102 \<or> 65 \<le> c \<and> c \<le> 70"

definition hex_value :: "nat \<Rightarrow> u8" where
  "hex_value b =
     (if 48 \<le> b \<and> b \<le> 57 then word_of_nat (b - 48)
      else if 97 \<le> b \<and> b \<le> 102 then word_of_nat (b - 97) + 10
      else word_of_nat (b - 65) + 10)"

definition code_of :: "ustring \<Rightarrow> ustring" where
  "code_of line = (case split_once 35 line of Some (before, comment) \<Rightarrow> before | None \<Rightarrow> line)"

text \<open>The digits of a line, or the panic on another character.\<close>

fun digits_of :: "ustring \<Rightarrow> ustring option" where
  "digits_of [] = Some []"
| "digits_of (c # cs) =
     (if is_whitespace c then digits_of cs
      else if is_hexdigit c then map_option (Cons c) (digits_of cs) else None)"

fun pairs_of :: "ustring \<Rightarrow> bytes" where
  "pairs_of (hi # lo # rest) = (push_bit 4 (hex_value hi) OR hex_value lo) # pairs_of rest"
| "pairs_of _ = []"

fun all_digits :: "ustring list \<Rightarrow> ustring option" where
  "all_digits [] = Some []"
| "all_digits (line # rest) =
     Option.bind (digits_of (code_of line)) (\<lambda>a. map_option (append a) (all_digits rest))"

definition load_text :: "ustring \<Rightarrow> bytes option" where
  "load_text txt =
     Option.bind (all_digits (lines_of txt)) (\<lambda>digits.
     if length digits mod 2 = 0 then Some (pairs_of digits) else None)"

section \<open>A fixture reads back\<close>

definition hex_char :: "nat \<Rightarrow> nat" where
  "hex_char v = (if v < 10 then 48 + v else 87 + v)"

definition hex_byte :: "u8 \<Rightarrow> ustring" where
  "hex_byte b = [hex_char (unat b div 16), hex_char (unat b mod 16)]"

lemma hex_char_digit:
  assumes "v < 16"
  shows "is_hexdigit (hex_char v)" and "\<not> is_whitespace (hex_char v)" and "hex_char v \<noteq> 35" and "hex_char v \<noteq> 10"
    and "hex_value (hex_char v) = word_of_nat v"
proof -
  have "hex_value (hex_char v) = word_of_nat v"
  proof (cases "v < 10")
    case False
    then have "word_of_nat (hex_char v - 97) + 10 = (word_of_nat (v - 10) + word_of_nat 10 :: u8)"
      by (simp add: hex_char_def)
    also have "\<dots> = word_of_nat v" using False by (simp flip: of_nat_add)
    finally show ?thesis using False assms by (simp add: hex_char_def hex_value_def)
  qed (simp add: hex_char_def hex_value_def)
  then show "is_hexdigit (hex_char v)" and "\<not> is_whitespace (hex_char v)" and "hex_char v \<noteq> 35"
    and "hex_char v \<noteq> 10" and "hex_value (hex_char v) = word_of_nat v"
    using assms by (auto simp: is_hexdigit_def is_whitespace_def hex_char_def)
qed

lemma nibbles: "push_bit 4 (word_of_nat (unat (b :: u8) div 16)) OR word_of_nat (unat b mod 16) = b"
proof -
  have "push_bit 4 (drop_bit 4 b) OR take_bit 4 b = b"
    by (rule bit_word_eqI) (auto simp: bit_simps)
  moreover have "drop_bit 4 b = b div 16" and "take_bit 4 b = b mod 16"
    by (simp_all add: drop_bit_eq_div take_bit_eq_mod)
  moreover have "word_of_nat (unat b div 16) = b div 16" and "word_of_nat (unat b mod 16) = b mod 16"
    by (simp_all add: word_arith_nat_div word_arith_nat_mod)
  ultimately show ?thesis by simp
qed

lemma nibble_bound [simp]: "unat (b :: u8) div 16 < 16" "unat (b :: u8) mod 16 < 16"
  using unat_u8_bound [of b] by (simp_all del: unat_u8_bound)

lemma hex_byte_chars:
  assumes "c \<in> set (hex_byte b)"
  shows "is_hexdigit c" and "\<not> is_whitespace c" and "c \<noteq> 35" and "c \<noteq> 10"
  using assms hex_char_digit [of "unat b div 16"] hex_char_digit [of "unat b mod 16"]
  by (auto simp: hex_byte_def)

lemma digits_of_hex: "digits_of (hex_byte b @ 32 # cs) = map_option (append (hex_byte b)) (digits_of cs)"
proof -
  have "is_whitespace 32" by (simp add: is_whitespace_def)
  then show ?thesis
    using hex_byte_chars [of _ b] by (cases "digits_of cs") (auto simp: hex_byte_def)
qed

text \<open>A line of bytes without its comment.\<close>

definition hex_line :: "bytes \<Rightarrow> ustring" where
  "hex_line bs = concat (map (\<lambda>b. hex_byte b @ [32]) bs)"

lemma hex_line_chars: "35 \<notin> set (hex_line bs)" "10 \<notin> set (hex_line bs)"
  by (auto simp: hex_line_def dest: hex_byte_chars(3,4))

lemma digits_of_line: "digits_of (code_of (strip_return (hex_line bs @ 35 # comment))) = Some (concat (map hex_byte bs))"
proof -
  have "\<exists>rest. strip_return (hex_line bs @ 35 # comment) = hex_line bs @ 35 # rest"
    by (cases comment rule: rev_cases) (auto simp: strip_return_def butlast_append)
  moreover have "code_of (hex_line bs @ 35 # rest) = hex_line bs" for rest
    using hex_line_chars(1) by (simp add: code_of_def split_once_append)
  moreover have "digits_of (hex_line bs) = Some (concat (map hex_byte bs))"
    by (induction bs) (simp_all add: hex_line_def digits_of_hex)
  ultimately show ?thesis by auto
qed

definition fixture_text :: "(bytes \<times> ustring) list \<Rightarrow> ustring" where
  "fixture_text ls = concat (map (\<lambda>l. hex_line (fst l) @ 35 # snd l @ [10]) ls)"

lemma lines_of_fixture:
  "\<forall>l\<in>set ls. 10 \<notin> set (snd l) \<Longrightarrow>
     lines_of (fixture_text ls) = map (\<lambda>l. strip_return (hex_line (fst l) @ 35 # snd l)) ls"
proof -
  assume "\<forall>l\<in>set ls. 10 \<notin> set (snd l)"
  then have "split_on 10 (fixture_text ls) = map (\<lambda>l. hex_line (fst l) @ 35 # snd l) ls @ [[]]"
  proof (induction ls)
    case (Cons l ls)
    have "10 \<notin> set (hex_line (fst l) @ 35 # snd l)" using Cons.prems hex_line_chars(2) by simp
    from split_on_append_sep [OF this, of "fixture_text ls"] show ?case
      using Cons by (simp add: fixture_text_def)
  qed (simp add: fixture_text_def)
  then show ?thesis by (simp add: lines_of_def)
qed

lemma pairs_of_hex: "pairs_of (concat (map hex_byte bs)) = bs"
  by (induction bs) (simp_all add: hex_byte_def hex_char_digit nibbles)

lemma length_hex: "length (concat (map hex_byte bs)) = 2 * length bs"
  by (induction bs) (simp_all add: hex_byte_def)

text \<open>
  C40: a fixture gives back the bytes it was written from, whatever its comments say, on as many
  lines as it has.
\<close>

theorem load_text_reads:
  assumes "\<forall>l\<in>set ls. 10 \<notin> set (snd l)"
  shows "load_text (fixture_text ls) = Some (concat (map fst ls))"
proof -
  have "all_digits (map (\<lambda>l. strip_return (hex_line (fst l) @ 35 # snd l)) ls)
      = Some (concat (map hex_byte (concat (map fst ls))))"
    by (induction ls) (simp_all add: digits_of_line)
  then show ?thesis by (simp add: load_text_def lines_of_fixture [OF assms] pairs_of_hex length_hex)
qed

lemma load_text_reads_witness:
  "load_text (fixture_text [([0x0c, 0x00], lit '' length, 12 bytes''), ([0x21], [])]) = Some [0x0c, 0x00, 0x21]"
  using load_text_reads [of "[([0x0c, 0x00], lit '' length, 12 bytes''), ([0x21], [])]"] by (simp add: lit_def)

end
