(* ===== verification/Captures.thy ===== *)
theory Captures
  imports Ptp_Datasets Usb_Descriptor
begin

text \<open>
  What a real device sent. The bytes are the ones of the capture fixtures of the repository,
  \<open>crates/ptp-proto/tests/fixtures\<close> and \<open>crates/usb-freebsd/tests/fixtures\<close>, from a Galaxy S22; the
  expected values are those its tests state. Evaluating the definitions on them checks the model
  against the device, which the general lemmas cannot do.
\<close>

section \<open>Commands\<close>

definition get_storage_ids_command :: bytes where
  "get_storage_ids_command =
     [0x0c, 0x00, 0x00, 0x00, 0x01, 0x00, 0x04, 0x10, 0x21, 0x00, 0x00, 0x00]"

definition get_storage_info_command :: bytes where
  "get_storage_info_command =
     [0x10, 0x00, 0x00, 0x00, 0x01, 0x00, 0x05, 0x10, 0x22, 0x00, 0x00, 0x00, 0x01, 0x00, 0x01, 0x00]"

definition close_session_command :: bytes where
  "close_session_command =
     [0x0c, 0x00, 0x00, 0x00, 0x01, 0x00, 0x03, 0x10, 0x23, 0x00, 0x00, 0x00]"

text \<open>The builder writes what the host of the capture sent.\<close>

lemma le_bytes_wide:
  "le_bytes 2 n = [word_of_nat n, word_of_nat (n div 256)]"
  "le_bytes 4 n = [word_of_nat n, word_of_nat (n div 256), word_of_nat (n div 256 div 256),
     word_of_nat (n div 256 div 256 div 256)]"
proof -
  have four: "(4 :: nat) = Suc (Suc (Suc (Suc 0)))" by simp
  show "le_bytes 2 n = [word_of_nat n, word_of_nat (n div 256)]"
    by (simp only: numeral_2_eq_2 le_bytes.simps)
  show "le_bytes 4 n = [word_of_nat n, word_of_nat (n div 256), word_of_nat (n div 256 div 256),
      word_of_nat (n div 256 div 256 div 256)]"
    by (simp only: four le_bytes.simps)
qed

lemma built_commands:
  "build_command GET_STORAGE_IDS 33 [] = get_storage_ids_command"
  "build_command GET_STORAGE_INFO 34 [0x00010001] = get_storage_info_command"
  "build_command CLOSE_SESSION 35 [] = close_session_command"
  by (simp_all add: build_command_def push_header_def u32_to_le_bytes_def u16_to_le_bytes_def HEADER_LEN_def
      MAX_PARAMS_def Let_def le_bytes_wide GET_STORAGE_IDS_def GET_STORAGE_INFO_def CLOSE_SESSION_def
      get_storage_ids_command_def get_storage_info_command_def close_session_command_def)

section \<open>Descriptors\<close>

definition s22_config_descriptor :: bytes where
  "s22_config_descriptor =
     [0x09, 0x02, 0x88, 0x00, 0x04, 0x01, 0x04, 0x80, 0xfa, 0x09, 0x04, 0x00, 0x00, 0x03, 0x06, 0x01,
      0x01, 0x05, 0x07, 0x05, 0x81, 0x02, 0x00, 0x02, 0x00, 0x07, 0x05, 0x01, 0x02, 0x00, 0x02, 0x00,
      0x07, 0x05, 0x82, 0x03, 0x1c, 0x00, 0x06, 0x08, 0x0b, 0x01, 0x02, 0x02, 0x02, 0x01, 0x08, 0x09,
      0x04, 0x01, 0x00, 0x01, 0x02, 0x02, 0x01, 0x06, 0x05, 0x24, 0x00, 0x10, 0x01, 0x05, 0x24, 0x01,
      0x00, 0x02, 0x04, 0x24, 0x02, 0x02, 0x05, 0x24, 0x06, 0x01, 0x02, 0x07, 0x05, 0x84, 0x03, 0x0a,
      0x00, 0x09, 0x09, 0x04, 0x02, 0x00, 0x02, 0x0a, 0x00, 0x00, 0x07, 0x07, 0x05, 0x83, 0x02, 0x00,
      0x02, 0x00, 0x07, 0x05, 0x02, 0x02, 0x00, 0x02, 0x00, 0x09, 0x04, 0x03, 0x00, 0x02, 0xff, 0x42,
      0x01, 0x0a, 0x07, 0x05, 0x03, 0x02, 0x00, 0x02, 0x00, 0x07, 0x05, 0x85, 0x02, 0x00, 0x02, 0x00,
      0x08, 0x24, 0x80, 0x0c, 0x00, 0x01, 0x00, 0x01]"

definition s22_charge_mode_descriptor :: bytes where
  "s22_charge_mode_descriptor =
     [0x09, 0x02, 0x46, 0x00, 0x02, 0x01, 0x04, 0x80, 0xfa, 0x09, 0x04, 0x00, 0x00, 0x03, 0x06, 0x01,
      0x01, 0x05, 0x07, 0x05, 0x81, 0x02, 0x00, 0x02, 0x00, 0x07, 0x05, 0x01, 0x02, 0x00, 0x02, 0x00,
      0x07, 0x05, 0x82, 0x03, 0x1c, 0x00, 0x06, 0x09, 0x04, 0x01, 0x00, 0x02, 0xff, 0x42, 0x01, 0x06,
      0x07, 0x05, 0x02, 0x02, 0x00, 0x02, 0x00, 0x07, 0x05, 0x83, 0x02, 0x00, 0x02, 0x00, 0x08, 0x24,
      0x80, 0x0c, 0x00, 0x01, 0x00, 0x01]"

definition s22_bos_descriptor :: bytes where
  "s22_bos_descriptor =
     [0x05, 0x0f, 0x16, 0x00, 0x02, 0x07, 0x10, 0x02, 0x1e, 0x21, 0x00, 0x00, 0x0a, 0x10, 0x03, 0x00,
      0x0f, 0x00, 0x01, 0x0a, 0xff, 0x01]"

text \<open>
  In both modes the interface is the first one, and the bulk endpoints are its own: three other
  interfaces of the first capture have endpoints too.
\<close>

lemma captured_config:
  "case config_parse s22_config_descriptor of
     Inl e \<Rightarrow> False
   | Inr c \<Rightarrow> cd_total_length c = 136 \<and> cd_num_interfaces c = 4 \<and> cd_configuration_value c = 1
       \<and> map (\<lambda>i. (if_number i, if_class i, if_subclass i, if_protocol i)) (cd_interfaces c)
           = [(0, 0x06, 0x01, 0x01), (1, 0x02, 0x02, 0x01), (2, 0x0a, 0x00, 0x00), (3, 0xff, 0x42, 0x01)]
       \<and> map (\<lambda>i. map ep_address (if_endpoints i)) (cd_interfaces c)
           = [[0x81, 0x01, 0x82], [0x84], [0x83, 0x02], [0x03, 0x85]]
       \<and> map if_number (filter is_adb (cd_interfaces c)) = [3]"
  by code_simp

definition s22_mtp :: mtp_interface where
  "s22_mtp = \<lparr>mi_interface_number = 0, mi_alternate_setting = 0, mi_class = 0x06, mi_subclass = 0x01,
     mi_protocol = 0x01, mi_bulk_in = 0x81, mi_bulk_out = 0x01, mi_interrupt_in = Some 0x82,
     mi_max_packet_size = 512\<rparr>"

lemma captured_interface:
  "(case config_parse s22_config_descriptor of Inl e \<Rightarrow> Inl e | Inr c \<Rightarrow> find_mtp_class c) = Inr s22_mtp"
  "(case config_parse s22_charge_mode_descriptor of Inl e \<Rightarrow> Inl e | Inr c \<Rightarrow> find_mtp_class c) = Inr s22_mtp"
  by code_simp+

lemma captured_without_class:
  "(case config_parse (s22_config_descriptor[14 := 0xff]) of Inl e \<Rightarrow> Inl e | Inr c \<Rightarrow> find_mtp_class c)
     = Inl NoMtpInterface"
  by code_simp

lemma captured_capabilities:
  "capabilities_parse s22_bos_descriptor =
     Inr \<lparr>dc_super_speed = True, dc_super_speed_plus = False, dc_speeds_supported = Some 0x000f\<rparr>"
  by code_simp

end
