(* ===== verification/Spec2Isabelle.thy ===== *)
theory Spec2Isabelle
  imports Ptp_PropList Ptp_Datasets Mtp_Session_Life Usb_Discover Mtpfs_Backend_Laws Mtpfs_Requests
    Mtpfs_Write Mtpfs_Resolve Mtpfs_Send Mtpfs_Edit Mtpfs_Reads Mtpfs_Replace Mtpfs_Mount Mtpfs_Main Mtpfs_Held
    Mtpfs_Upload Mtpfs_Survive Mtpfs_Faults Mtpprobe_Laws Hex_Fixture Captures
begin

text \<open>
  \<^bold>\<open>A model of bsdroid in Isabelle/HOL.\<close> The program mounts an Android device on a FreeBSD host: it
  speaks MTP over USB and serves the objects of the device as files through FUSE. It is written in
  Rust; its release profile checks integer overflow, so an overflow ends the program and the model
  is only asked about inputs below it, or says what happens there.

  \<^bold>\<open>The parts of the program\<close>, from the bytes up, with the theories that model them.

  \<^item> \<open>crates/ptp-proto/src/lib.rs\<close>: containers, the 12 byte header and the builders (\<open>Ptp_Wire\<close>), the
    checked cursor (\<open>Ptp_Reader\<close>), the datasets and codes (\<open>Ptp_Datasets\<close>), and the list of object
    properties with its fold into records (\<open>Ptp_PropList\<close>).
  \<^item> \<open>crates/usb-freebsd/src/descriptor.rs\<close>, \<open>device.rs\<close> and \<open>discover.rs\<close>: descriptors and the choice of
    the MTP interface (\<open>Usb_Descriptor\<close>), devices and bulk channels (\<open>Usb_Device\<close>), the searches over
    the bus (\<open>Usb_Discover\<close>). The C library libusb20 is the record \<open>libusb20\<close> of the calls the crate
    makes, an argument of every definition that uses it.
  \<^item> \<open>crates/mtp-session/src/lib.rs\<close>: a session, one transaction at a time (\<open>Mtp_Session\<close>). The session
    is generic in its \<open>transport\<close>, as the trait is in the code; \<open>mtp_transport\<close> is the one over bulk
    channels and \<open>fake_transport\<close> the scripted device of the tests of the repository.
  \<^item> \<open>crates/mtpfs/src/tree.rs\<close>, \<open>backend.rs\<close> and \<open>main.rs\<close>: the tree of listed folders (\<open>Mtpfs_Tree\<close>), the
    operations on a device with the read cache (\<open>Mtpfs_Backend\<close>), the callbacks of FUSE (\<open>Mtpfs_Fs\<close>),
    the requests of a mount (\<open>Mtpfs_Mount\<close>) and the program around them (\<open>Mtpfs_Main\<close>).
  \<^item> \<open>crates/mtpprobe/src/main.rs\<close>: the diagnosis tool (\<open>Mtpprobe\<close>), over the same session and searches.
  \<^item> \<open>crates/hex-fixture/src/lib.rs\<close>: the reader of captured packets (\<open>Hex_Fixture\<close>).

  \<^bold>\<open>How the code is written down.\<close> Machine integers are words of their width, lengths and sizes are
  \<open>nat\<close> where the code uses \<open>usize\<close> or a \<open>u64\<close> count of bytes, and text is a list of code points
  (\<open>Rust_Text\<close>, which holds the operations of the standard library on text). A stateful operation is
  a function from a state to a sum and a state, \<open>('s, 'e, 'a) sm\<close> (\<open>Prelude\<close>): the left of the sum is
  the fault, the operator \<open>?\<close> is \<open>and_then\<close>, and the state after a fault is kept, since devices and
  files do not roll back. A Rust destructor is a function on the state, called where the value goes
  out of scope: \<open>drop_session\<close>, \<open>drop_mtp\<close>, \<open>drop_mtp_device\<close>, \<open>drop_open_device\<close>, \<open>drop_pending\<close>. The state
  the callbacks share is the record \<open>fs\<close>: the backend, the tree, the map of files being written, and
  the host with its spool folder. The calls the callbacks make on the backend are the record
  \<open>service\<close>, so that a lemma about a callback can be read with any device behind it; the program has
  \<open>mtp_service\<close> there. Loops with a bound in the code recurse on that bound.

  \<^bold>\<open>Interfaces.\<close> The locale \<open>step_order\<close> carries a reflexive and transitive relation through the monad;
  it is interpreted for every frame the development uses. \<open>transport\<close> is what a session relies on of a
  device, \<open>byte_source\<close> what a payload is read from,
  \<open>readable_object\<close> a device whose partial reads are right, \<open>codec\<close> and \<open>fixed_codec\<close> pair a writer and a reader
  of one field, \<open>spool_disk\<close> and \<open>spool_files\<close> are what the callbacks rely on of the host and \<open>mount\<close> is a
  mount over them, and \<open>steady_transport\<close>, \<open>library_frame\<close>, \<open>held_library\<close> and \<open>steady_service\<close> follow a
  view of the bus through every layer. Their laws are proved for the definitions of the model, or,
  for the two parts outside the repository, for a disk (\<open>disk_host\<close>) and a bus (\<open>held_bus\<close>) that shows
  they can hold.
\<close>

text \<open>
  \<^bold>\<open>What the lemmas show.\<close>

  \<^item> \<^bold>\<open>On the wire.\<close> What a builder writes is what the parser reads; the length field never wraps; strings
    are cut between two characters; a list of properties reads back entry for entry and its one-pass
    fold equals the grouping by object. The walk over a configuration descriptor equals the grouping
    of endpoints under interfaces.
  \<^item> \<^bold>\<open>In a session\<close> (\<open>Mtp_Session_Laws\<close>, \<open>Mtp_Session_Data\<close>, \<open>Mtp_Session_Life\<close>). A payload goes out in
    frames that end the data phase where the container ends; an answer is joined from its transfers,
    as long as they are no more than the rounds of the host, and one that stops early is a fault with
    its counts; a stale session is closed, drained and opened again; every reachable session keeps a
    usable configuration and a drop sends one CloseSession.
  \<^item> \<^bold>\<open>In the filesystem.\<close> Reads give the slice of the object whatever the cache holds, first over any
    honest device (\<open>Mtpfs_Backend_Laws\<close>) and then down to the containers of the endpoints (\<open>Mtpfs_Reads\<close>),
    with a bound on the requests (\<open>Mtpfs_Requests\<close>). Paths are found as the folders lead
    (\<open>Mtpfs_Resolve\<close>), and the path of an object leads back to it after any listings and forgotten
    listings (\<open>Mtpfs_Tree\<close>). A write is what a read gives back, and a flush sends the spool file whole
    (\<open>Mtpfs_Send\<close>, \<open>Mtpfs_Write\<close>); a file that is opened for a change is copied from the device first,
    and a write changes nothing else of it (\<open>Mtpfs_Edit\<close>). The close of a new file is followed down to
    the writes of the endpoint and what a device puts together from them (\<open>Mtpfs_Upload\<close>). The calls
    of a send that replaces an object and of a rename follow a protocol (\<open>Mtpfs_Replace\<close>); what is left
    of a replaced file is said over any transport, by what the device acknowledged and what the spool
    folder holds, and so is a lost answer that leaves no copy of it (\<open>Mtpfs_Survive\<close>). Every state of a mount
    keeps one spool file for each open file, of the right length unless a write of it failed (\<open>Mtpfs_Mount\<close>), and the end of a mount
    removes them (\<open>Mtpfs_Main\<close>).
  \<^item> \<^bold>\<open>Of the bus.\<close> Searches keep open only the device they give (\<open>Usb_Discover\<close>), and both programs end
    with nothing held of the library, whatever the command line and the devices (\<open>Usb_Held\<close>,
    \<open>Mtpfs_Held\<close>, \<open>Mtpprobe_Laws\<close>).

  Some theorems say what the code does where a comment promises something else, or where it does
  not do what it means to: \<open>write_after_flush_lost\<close>, \<open>op_rename_leaves_aside\<close>, \<open>partial_params_offset\<close>,
  \<open>resolve_too_deep\<close>, \<open>lost_delete_loses_both\<close>, and the three of \<open>Mtpfs_Faults\<close> on changes that go
  wrong half way.

  \<open>Captures\<close> evaluates the builder of commands and the readers of descriptors on the packets of a real
  device that the repository keeps for its tests.

  \<^bold>\<open>Bounds.\<close> The rounds of a data phase are those of the code, declared over buffer plus 16 and at most
  \<open>MAX_READ_ROUNDS\<close>. \<open>resolve\<close> has \<open>MAX_WALK\<close> rounds (64), the searches and the storage list their attempts
  (10). \<open>send_rounds\<close> has the rounds of the code, size over chunk plus four, and its lemmas show that
  the payload ends before. \<open>read_loop\<close> and the walks over descriptors end because every round makes
  progress, which is their termination proof. A
  mount is followed while \<open>room\<close> is left in the 64 bit counters that name spool files and objects
  moved aside, and for the requests the kernel makes, which never write an empty buffer.

  \<^bold>\<open>Not modelled.\<close> Clocks and waits, so an outcome carries no elapsed time and the benchmark no rate.
  What goes to the terminal: \<open>Display\<close> implementations, usage and report lines; a command of the
  probe has what it would print as its value. The loop of FUSE, which is an argument of the program
  (the requests it makes, in any order, and the code it returns), with the raw pointers and buffers
  of the callbacks and the lock around the state. The bindings \<open>sys.rs\<close> of both crates and their
  build files, which are generated, and the tests, whose scripted device is modelled all the same.
\<close>

end
